(* ===== verification/Prelude.thy ===== *)
theory Prelude
  imports Main "HOL-Library.AList" "HOL-Library.Sublist"
begin

text \<open>
  Shared vocabulary of the development: the errors a Python function can raise, results
  (an error or a value) with their sequencing operators, Python dictionaries as association
  lists in insertion order, and the generic list lemmas the components rest on.

  An error value carries the datum the source puts into its message (a key, a target name, a
  rejected string), not the formatted message itself.
\<close>

section \<open>Errors and results\<close>

datatype py_error =
    ValueError string
  | IndexError
  | KeyError string
  | AssertionError string
  | RuntimeError string
  | NameError string
  | TypeError string
  | SystemExit int
  | RecursionError
  | GetoptError string

type_synonym 'a res = "py_error + 'a"

named_theorems res_simps \<open>rewriting of sequenced results\<close>
named_theorems dict_simps \<open>rewriting of dictionary operations\<close>
named_theorems str_simps \<open>rewriting of string operations\<close>
named_theorems re_simps \<open>evaluation of regular expressions\<close>

definition rbind :: "'a res \<Rightarrow> ('a \<Rightarrow> 'b res) \<Rightarrow> 'b res" where
  "rbind m f = (case m of Inl e \<Rightarrow> Inl e | Inr x \<Rightarrow> f x)"

lemma rbind_simps [simp, res_simps]:
  "rbind (Inl e) f = Inl e"
  "rbind (Inr x) f = f x"
  by (simp_all add: rbind_def)

lemma rbind_eq_Inr [res_simps]:
  "rbind m f = Inr y \<longleftrightarrow> (\<exists>x. m = Inr x \<and> f x = Inr y)"
  by (cases m) auto

lemma rbind_eq_Inl [res_simps]:
  "rbind m f = Inl e \<longleftrightarrow> m = Inl e \<or> (\<exists>x. m = Inr x \<and> f x = Inl e)"
  by (cases m) auto

lemma not_isl_iff: "\<not> isl r \<longleftrightarrow> (\<exists>y. r = Inr y)"
  by (cases r) auto

lemma rbind_assoc: "rbind (rbind m f) g = rbind m (\<lambda>x. rbind (f x) g)"
  by (cases m) auto

lemma rbind_cong [fundef_cong]:
  "m = m' \<Longrightarrow> (\<And>x. m' = Inr x \<Longrightarrow> f x = f' x) \<Longrightarrow> rbind m f = rbind m' f'"
  by (cases m') auto

text \<open>A loop over a list whose body may raise: the first error stops it.\<close>

fun rmap :: "('a \<Rightarrow> 'b res) \<Rightarrow> 'a list \<Rightarrow> 'b list res" where
  "rmap f [] = Inr []"
| "rmap f (x # xs) = rbind (f x) (\<lambda>y. rbind (rmap f xs) (\<lambda>ys. Inr (y # ys)))"

fun rfold :: "('a \<Rightarrow> 's \<Rightarrow> 's res) \<Rightarrow> 'a list \<Rightarrow> 's \<Rightarrow> 's res" where
  "rfold f [] s = Inr s"
| "rfold f (x # xs) s = rbind (f x s) (rfold f xs)"

lemma rmap_Inr [simp]: "rmap (\<lambda>x. Inr (f x)) xs = Inr (map f xs)"
  by (induction xs) auto

lemma rmap_cong [fundef_cong]:
  "xs = ys \<Longrightarrow> (\<And>x. x \<in> set ys \<Longrightarrow> f x = g x) \<Longrightarrow> rmap f xs = rmap g ys"
  by (induction ys arbitrary: xs) auto

lemma rfold_cong [fundef_cong]:
  "xs = ys \<Longrightarrow> s = t \<Longrightarrow> (\<And>x u. x \<in> set ys \<Longrightarrow> f x u = g x u) \<Longrightarrow> rfold f xs s = rfold g ys t"
proof (induction ys arbitrary: xs s t)
  case (Cons y ys)
  have "rfold f ys u = rfold g ys u" for u
    using Cons.IH [of ys u u] Cons.prems(3) by simp
  then show ?case
    using Cons.prems by (auto intro!: rbind_cong)
qed simp

lemma rmap_eq_Inr_iff:
  "rmap f xs = Inr ys \<longleftrightarrow> list_all2 (\<lambda>x y. f x = Inr y) xs ys"
  by (induction xs arbitrary: ys) (auto simp: res_simps list_all2_Cons1)

lemma rmap_InrD:
  assumes "rmap f xs = Inr ys"
  shows "length ys = length xs" and "i < length xs \<Longrightarrow> f (xs ! i) = Inr (ys ! i)"
  using assms by (auto simp: rmap_eq_Inr_iff list_all2_conv_all_nth)

lemma rmap_Inr_ex:
  "(\<And>x. x \<in> set xs \<Longrightarrow> \<exists>y. f x = Inr y) \<Longrightarrow> \<exists>ys. rmap f xs = Inr ys"
proof (induction xs)
  case (Cons x xs)
  then obtain y ys where "f x = Inr y" "rmap f xs = Inr ys" by fastforce
  then show ?case by simp
qed simp

lemma rmap_projr: "rmap f xs = Inr ys \<Longrightarrow> ys = map (\<lambda>x. projr (f x)) xs \<and> (\<forall>x \<in> set xs. f x = Inr (projr (f x)))"
  by (induction xs arbitrary: ys) (auto simp: res_simps)

lemma rmap_append:
  "rmap f (xs @ ys) = rbind (rmap f xs) (\<lambda>us. rbind (rmap f ys) (\<lambda>vs. Inr (us @ vs)))"
  by (induction xs) (auto simp: rbind_def split: sum.splits)

lemma rfold_append:
  "rfold f (xs @ ys) s = rbind (rfold f xs s) (rfold f ys)"
  by (induction xs arbitrary: s) (auto simp: rbind_def split: sum.splits)

text \<open>An invariant kept by every successful step holds after a successful loop.\<close>

lemma rfold_invariant:
  assumes "rfold f xs s = Inr t" and "P s"
    and "\<And>x u v. x \<in> set xs \<Longrightarrow> P u \<Longrightarrow> f x u = Inr v \<Longrightarrow> P v"
  shows "P t"
  using assms
proof (induction xs arbitrary: s)
  case (Cons x xs)
  from Cons.prems(1) obtain u where u: "f x s = Inr u" "rfold f xs u = Inr t"
    by (auto simp: res_simps)
  have "P u" using Cons.prems(2) u(1) by (rule Cons.prems(3) [rotated]) simp
  then show ?case
    using Cons.IH [OF u(2)] Cons.prems(3) by (meson list.set_intros(2))
qed simp

section \<open>Dictionaries\<close>

text \<open>
  A Python \<^verbatim>\<open>dict\<close> keeps its keys in insertion order, and storing to an existing key keeps the
  key's place: this is the update of the library's association lists.
\<close>

type_synonym 'v dict = "(string \<times> 'v) list"

definition dict_get :: "'v dict \<Rightarrow> string \<Rightarrow> 'v res" where
  "dict_get d k = (case map_of d k of None \<Rightarrow> Inl (KeyError k) | Some v \<Rightarrow> Inr v)"

abbreviation dict_keys :: "'v dict \<Rightarrow> string list" where
  "dict_keys d \<equiv> map fst d"

abbreviation dict_set :: "string \<Rightarrow> 'v \<Rightarrow> 'v dict \<Rightarrow> 'v dict" where
  "dict_set \<equiv> AList.update"

definition wf_dict :: "'v dict \<Rightarrow> bool" where
  "wf_dict d \<longleftrightarrow> distinct (dict_keys d)"

text \<open>\<^verbatim>\<open>dict(pairs)\<close> and dict comprehensions: a later pair overwrites an earlier one.\<close>

definition dict_of :: "(string \<times> 'v) list \<Rightarrow> 'v dict" where
  "dict_of ps = foldl (\<lambda>d (k, v). dict_set k v d) [] ps"

lemma wf_dict_Nil [simp, dict_simps]: "wf_dict []"
  by (simp add: wf_dict_def)

lemma wf_dict_set [simp, dict_simps]: "wf_dict d \<Longrightarrow> wf_dict (dict_set k v d)"
  by (simp add: wf_dict_def distinct_update)

lemma dict_get_Inr_iff [dict_simps]: "dict_get d k = Inr v \<longleftrightarrow> map_of d k = Some v"
  by (simp add: dict_get_def split: option.splits)

lemma dict_get_Inl_iff [dict_simps]:
  "dict_get d k = Inl e \<longleftrightarrow> map_of d k = None \<and> e = KeyError k"
  by (auto simp: dict_get_def split: option.splits)

lemma map_of_dict_set [simp, dict_simps]: "map_of (dict_set k v d) = (map_of d)(k \<mapsto> v)"
  by (rule update_conv')

lemma set_keys_dict_set [simp, dict_simps]:
  "set (dict_keys (dict_set k v d)) = insert k (set (dict_keys d))"
  by (induction d) auto

lemma dict_set_fresh [dict_simps]:
  "k \<notin> set (dict_keys d) \<Longrightarrow> dict_set k v d = d @ [(k, v)]"
  by (induction d) auto

lemma dict_keys_set_old [dict_simps]:
  "map_of d k = Some u \<Longrightarrow> dict_keys (dict_set k v d) = dict_keys d"
  by (metis domI dom_map_of_conv_image_fst image_set update_keys)

lemma in_keys_iff: "k \<in> set (dict_keys d) \<longleftrightarrow> (\<exists>v. map_of d k = Some v)"
  by (metis domD domI dom_map_of_conv_image_fst image_set)

lemma foldl_dict_set_fresh:
  assumes "distinct (dict_keys (d @ ps))"
  shows "foldl (\<lambda>d (k, v). dict_set k v d) d ps = d @ ps"
  using assms
proof (induction ps arbitrary: d)
  case (Cons p ps)
  obtain k v where p: "p = (k, v)" by fastforce
  then have "dict_set k v d = d @ [(k, v)]"
    using Cons.prems by (intro dict_set_fresh) auto
  then show ?case
    using Cons.IH [of "d @ [(k, v)]"] Cons.prems p by simp
qed simp

lemma dict_of_distinct [simp, dict_simps]: "wf_dict d \<Longrightarrow> dict_of d = d"
  using foldl_dict_set_fresh [of "[]" d] by (simp add: dict_of_def wf_dict_def)

lemma dict_of_snoc: "dict_of (ps @ [(k, v)]) = dict_set k v (dict_of ps)"
  by (simp add: dict_of_def)

lemma map_of_dict_of: "map_of (dict_of ps) = map_of (rev ps)"
  by (induction ps rule: rev_induct) (auto simp: dict_of_def)

lemma wf_dict_dict_of [simp, dict_simps]: "wf_dict (dict_of ps)"
  by (induction ps rule: rev_induct) (auto simp: dict_of_def)

lemma set_keys_dict_of [simp, dict_simps]: "set (dict_keys (dict_of ps)) = fst ` set ps"
  using map_of_dict_of [of ps] by (metis dom_map_of_conv_image_fst image_set set_rev)

lemma in_dict_iff_map_of:
  "wf_dict d \<Longrightarrow> (k, v) \<in> set d \<longleftrightarrow> map_of d k = Some v"
  by (simp add: wf_dict_def)

section \<open>Lists\<close>

lemma take_length_prefix_iff: "take (length p) s = p \<longleftrightarrow> prefix p s"
  by (metis append_eq_conv_conj append_take_drop_id prefix_def)

lemma dropWhile_hd_not: "dropWhile P xs = y # ys \<Longrightarrow> \<not> P y"
  by (metis hd_dropWhile list.distinct(1) list.sel(1))

lemma takeWhile_all: "(\<And>x. x \<in> set xs \<Longrightarrow> P x) \<Longrightarrow> takeWhile P xs = xs"
  by simp

lemma distinct_map_of_zip_same:
  "distinct ks \<Longrightarrow> length ks = length vs \<Longrightarrow> i < length ks \<Longrightarrow> map_of (zip ks vs) (ks ! i) = Some (vs ! i)"
  by (simp add: map_of_zip_nth)

section \<open>Reachability\<close>

text \<open>No element that is reachable from \<open>x\<close> can be reached from itself; then the number of elements reachable from it falls with every step.\<close>

definition loop_free :: "('a \<times> 'a) set \<Rightarrow> 'a \<Rightarrow> bool" where
  "loop_free r x \<longleftrightarrow> (\<forall>y. (x, y) \<in> r\<^sup>* \<longrightarrow> (y, y) \<notin> r\<^sup>+)"

definition reach_rank :: "('a \<times> 'a) set \<Rightarrow> 'a \<Rightarrow> nat" where
  "reach_rank r x = card (r\<^sup>+ `` {x})"

lemma loop_free_step: "loop_free r x \<Longrightarrow> (x, y) \<in> r \<Longrightarrow> loop_free r y"
  by (auto simp: loop_free_def intro: converse_rtrancl_into_rtrancl)

lemma acyclic_loop_free: "acyclic r \<Longrightarrow> loop_free r x"
  by (auto simp: loop_free_def acyclic_def)

lemma reach_rank_less:
  assumes "loop_free r x" "(x, y) \<in> r" "finite (r\<^sup>+ `` {x})"
  shows "reach_rank r y < reach_rank r x"
  unfolding reach_rank_def
proof (rule psubset_card_mono [OF assms(3)])
  have "y \<in> r\<^sup>+ `` {x}" using assms(2) by auto
  moreover have "y \<notin> r\<^sup>+ `` {y}" using assms(1,2) by (auto simp: loop_free_def)
  moreover have "r\<^sup>+ `` {y} \<subseteq> r\<^sup>+ `` {x}" using assms(2) by (auto intro: trancl_into_trancl2)
  ultimately show "r\<^sup>+ `` {y} \<subset> r\<^sup>+ `` {x}" by blast
qed

lemma loop_free_predecessor:
  assumes "\<And>y. (x, y) \<in> r \<Longrightarrow> loop_free r y"
  shows "loop_free r x"
  unfolding loop_free_def
proof (intro allI impI notI)
  fix z assume z: "(x, z) \<in> r\<^sup>*" "(z, z) \<in> r\<^sup>+"
  have "\<exists>y. (x, y) \<in> r \<and> (y, z) \<in> r\<^sup>*"
  proof (cases "z = x")
    case True
    then show ?thesis using z(2) by (metis tranclD)
  next
    case False
    then show ?thesis using z(1) by (metis converse_rtranclE)
  qed
  then show False using assms z(2) by (auto simp: loop_free_def)
qed

lemma rtrancl_Image_unfold: "r\<^sup>* `` {x} = insert x (r\<^sup>* `` (r `` {x}))"
  by (auto intro: converse_rtrancl_into_rtrancl elim: converse_rtranclE)

end
