(* ===== verification/Py_Str.thy ===== *)
theory Py_Str
  imports Prelude "HOL-Library.Char_ord" "HOL-Library.List_Lexorder"
begin

text \<open>
  The string operations of Python the sources use. A Python \<^verbatim>\<open>str\<close> is a sequence of code
  points; the model has the code points below 256, one \<^typ>\<open>char\<close> each, and the
  classification functions below are Python's on exactly that range (so \<^verbatim>\<open>\x85\<close> and \<^verbatim>\<open>\xa0\<close> are
  white space, and the superscript digits are digits for \<^verbatim>\<open>str.isdigit\<close> and not for \<^verbatim>\<open>\d\<close>).
  Strings compare by code point, which is the lexicographic order of the library.
\<close>

section \<open>Character classes\<close>

definition is_space :: "char \<Rightarrow> bool" where
  "is_space c \<longleftrightarrow> (let n = (of_char c :: nat) in
     9 \<le> n \<and> n \<le> 13 \<or> 28 \<le> n \<and> n \<le> 32 \<or> n = 133 \<or> n = 160)"

definition is_linebreak :: "char \<Rightarrow> bool" where
  "is_linebreak c \<longleftrightarrow> (let n = (of_char c :: nat) in
     10 \<le> n \<and> n \<le> 13 \<or> 28 \<le> n \<and> n \<le> 30 \<or> n = 133)"

definition is_dec :: "char \<Rightarrow> bool" where
  "is_dec c \<longleftrightarrow> (let n = (of_char c :: nat) in 48 \<le> n \<and> n \<le> 57)"

definition is_hex :: "char \<Rightarrow> bool" where
  "is_hex c \<longleftrightarrow> (let n = (of_char c :: nat) in
     48 \<le> n \<and> n \<le> 57 \<or> 65 \<le> n \<and> n \<le> 70 \<or> 97 \<le> n \<and> n \<le> 102)"

definition is_word :: "char \<Rightarrow> bool" where
  "is_word c \<longleftrightarrow> (let n = (of_char c :: nat) in
     48 \<le> n \<and> n \<le> 57 \<or> 65 \<le> n \<and> n \<le> 90 \<or> n = 95 \<or> 97 \<le> n \<and> n \<le> 122 \<or>
     n \<in> {170, 178, 179, 181, 185, 186, 188, 189, 190} \<or>
     192 \<le> n \<and> n \<le> 214 \<or> 216 \<le> n \<and> n \<le> 246 \<or> 248 \<le> n)"

lemmas char_class_defs = is_space_def is_linebreak_def is_dec_def is_hex_def is_word_def

abbreviation chr_nl :: char where "chr_nl \<equiv> CHR 0x0A"
abbreviation chr_cr :: char where "chr_cr \<equiv> CHR 0x0D"
abbreviation chr_quote :: char where "chr_quote \<equiv> CHR 0x22"
abbreviation chr_bslash :: char where "chr_bslash \<equiv> CHR 0x5C"

lemma is_linebreak_space: "is_linebreak c \<Longrightarrow> is_space c"
  by (auto simp: char_class_defs Let_def)

lemma is_word_not_space: "is_word c \<Longrightarrow> \<not> is_space c"
  by (auto simp: char_class_defs Let_def)

lemma is_dec_word: "is_dec c \<Longrightarrow> is_word c"
  by (auto simp: char_class_defs Let_def)

section \<open>Searching, splitting, joining\<close>

definition py_lstrip :: "string \<Rightarrow> string" where
  "py_lstrip s = dropWhile is_space s"

definition py_rstrip :: "string \<Rightarrow> string" where
  "py_rstrip s = rev (dropWhile is_space (rev s))"

definition py_strip :: "string \<Rightarrow> string" where
  "py_strip s = py_rstrip (py_lstrip s)"

abbreviation py_startswith :: "string \<Rightarrow> string \<Rightarrow> bool" where
  "py_startswith s p \<equiv> prefix p s"

abbreviation py_endswith :: "string \<Rightarrow> string \<Rightarrow> bool" where
  "py_endswith s p \<equiv> suffix p s"

fun py_find :: "string \<Rightarrow> string \<Rightarrow> nat option" where
  "py_find sub [] = (if sub = [] then Some 0 else None)"
| "py_find sub (c # s) =
     (if prefix sub (c # s) then Some 0 else map_option Suc (py_find sub s))"

definition py_contains :: "string \<Rightarrow> string \<Rightarrow> bool" where
  "py_contains sub s \<longleftrightarrow> py_find sub s \<noteq> None"

definition py_partition :: "string \<Rightarrow> string \<Rightarrow> string \<times> string \<times> string" where
  "py_partition sep s = (case py_find sep s of
       None \<Rightarrow> (s, [], [])
     | Some i \<Rightarrow> (take i s, sep, drop (i + length sep) s))"

text \<open>\<^verbatim>\<open>s.replace(old, new)\<close> for a non-empty \<^verbatim>\<open>old\<close>.\<close>

fun py_replace :: "string \<Rightarrow> string \<Rightarrow> string \<Rightarrow> string" where
  "py_replace old new [] = []"
| "py_replace old new (c # s) =
     (if prefix old (c # s) then new @ py_replace old new (drop (length old - 1) s)
      else c # py_replace old new s)"

fun py_join :: "string \<Rightarrow> string list \<Rightarrow> string" where
  "py_join sep [] = []"
| "py_join sep [x] = x"
| "py_join sep (x # y # xs) = x @ sep @ py_join sep (y # xs)"

text \<open>\<^verbatim>\<open>s.split(sep)\<close> for a one-character separator, and \<^verbatim>\<open>s.split()\<close>.\<close>

fun py_split_on :: "char \<Rightarrow> string \<Rightarrow> string list" where
  "py_split_on sep [] = [[]]"
| "py_split_on sep (c # s) =
     (if c = sep then [] # py_split_on sep s
      else (case py_split_on sep s of [] \<Rightarrow> [[c]] | w # ws \<Rightarrow> (c # w) # ws))"

function py_split :: "string \<Rightarrow> string list" where
  "py_split s = (case dropWhile is_space s of
       [] \<Rightarrow> []
     | c # cs \<Rightarrow> (c # takeWhile (\<lambda>x. \<not> is_space x) cs)
                 # py_split (dropWhile (\<lambda>x. \<not> is_space x) cs))"
  by pat_completeness auto
termination
proof (relation "measure length")
  fix s :: string and c cs
  assume "dropWhile is_space s = c # cs"
  then have "length (c # cs) \<le> length s" by (metis length_dropWhile_le)
  moreover have "length (dropWhile (\<lambda>x. \<not> is_space x) cs) \<le> length cs"
    by (rule length_dropWhile_le)
  ultimately show "(dropWhile (\<lambda>x. \<not> is_space x) cs, s) \<in> measure length" by simp
qed simp

declare py_split.simps [simp del]

text \<open>The text after the line break at its head: \<^verbatim>\<open>\r\n\<close> is one break.\<close>

fun after_break :: "string \<Rightarrow> string" where
  "after_break [] = []"
| "after_break (c # s) =
     (if c = chr_cr \<and> (case s of [] \<Rightarrow> False | d # _ \<Rightarrow> d = chr_nl) then tl s else s)"

lemma length_after_break: "s \<noteq> [] \<Longrightarrow> length (after_break s) < length s"
  by (cases s) auto

text \<open>Text mode: every \<^verbatim>\<open>\r\n\<close> and every other \<^verbatim>\<open>\r\<close> is read as \<^verbatim>\<open>\n\<close>.\<close>

fun universal_newlines :: "string \<Rightarrow> string" where
  "universal_newlines [] = []"
| "universal_newlines [c] = [if c = chr_cr then chr_nl else c]"
| "universal_newlines (c # d # s) =
     (if c = chr_cr \<and> d = chr_nl then chr_nl # universal_newlines s
      else (if c = chr_cr then chr_nl else c) # universal_newlines (d # s))"

lemma universal_newlines_id: "chr_cr \<notin> set s \<Longrightarrow> universal_newlines s = s"
  by (induction s rule: universal_newlines.induct) auto

function py_splitlines :: "string \<Rightarrow> string list" where
  "py_splitlines s = (if s = [] then []
     else takeWhile (\<lambda>c. \<not> is_linebreak c) s #
          (case dropWhile (\<lambda>c. \<not> is_linebreak c) s of
             [] \<Rightarrow> []
           | c # cs \<Rightarrow> py_splitlines (after_break (c # cs))))"
  by pat_completeness auto
termination
proof (relation "measure length")
  fix s :: string and c cs
  assume "dropWhile (\<lambda>c. \<not> is_linebreak c) s = c # cs"
  then have "length (c # cs) \<le> length s" by (metis length_dropWhile_le)
  then show "(after_break (c # cs), s) \<in> measure length"
    using length_after_break [of "c # cs"] by simp
qed simp

declare py_splitlines.simps [simp del]

section \<open>Numbers\<close>

definition digit_val :: "char \<Rightarrow> nat" where
  "digit_val c = (let n = of_char c in
     if 97 \<le> n then n - 87 else if 65 \<le> n then n - 55 else n - 48)"

definition digits_val :: "nat \<Rightarrow> string \<Rightarrow> nat" where
  "digits_val b s = foldl (\<lambda>n c. b * n + digit_val c) 0 s"

fun str_of_nat :: "nat \<Rightarrow> string" where
  "str_of_nat n =
     (if n < 10 then [char_of (48 + n)] else str_of_nat (n div 10) @ [char_of (48 + n mod 10)])"

declare str_of_nat.simps [simp del]

text \<open>\<^verbatim>\<open>'%d' % i\<close> and \<^verbatim>\<open>str(i)\<close>.\<close>

definition str_of_int :: "int \<Rightarrow> string" where
  "str_of_int i = (if i < 0 then CHR ''-'' # str_of_nat (nat (- i)) else str_of_nat (nat i))"

definition split_sign :: "string \<Rightarrow> int \<times> string" where
  "split_sign s = (case s of
       c # r \<Rightarrow> if c = CHR ''+'' then (1, r) else if c = CHR ''-'' then (-1, r) else (1, s)
     | [] \<Rightarrow> (1, s))"

text \<open>
  \<^verbatim>\<open>int(s)\<close>: surrounding blanks (the separators \<^verbatim>\<open>\x1c\<close> to \<^verbatim>\<open>\x1f\<close> are not among them), a sign,
  decimal digits, and single underscores between digits.
\<close>

definition int_blank :: "char \<Rightarrow> bool" where
  "int_blank c \<longleftrightarrow> is_space c \<and> \<not> (28 \<le> (of_char c :: nat) \<and> (of_char c :: nat) \<le> 31)"

fun dec_digits :: "string \<Rightarrow> bool" where
  "dec_digits [] = False"
| "dec_digits [c] = is_dec c"
| "dec_digits (c # d # s) =
     (is_dec c \<and> (if d = CHR ''_'' then dec_digits s else dec_digits (d # s)))"

definition py_int :: "string \<Rightarrow> int res" where
  "py_int s =
     (let t = rev (dropWhile int_blank (rev (dropWhile int_blank s)));
          (sg, r) = split_sign t
      in if dec_digits r then Inr (sg * int (digits_val 10 (filter (\<lambda>c. c \<noteq> CHR ''_'') r)))
         else Inl (ValueError s))"

text \<open>
  \<^verbatim>\<open>int(s, 0)\<close> on the strings \<^verbatim>\<open>[+-]?(0[xX][0-9a-fA-F]+|\d+)\<close>, the only ones the sources pass to
  it: a decimal literal with a leading zero is refused unless it is zero.
\<close>

definition py_int0 :: "string \<Rightarrow> int res" where
  "py_int0 s =
     (let (sg, r) = split_sign s
      in if py_startswith r ''0x'' \<or> py_startswith r ''0X''
         then Inr (sg * int (digits_val 16 (drop 2 r)))
         else if py_startswith r ''0'' \<and> (\<exists>c \<in> set r. c \<noteq> CHR ''0'')
         then Inl (ValueError s)
         else Inr (sg * int (digits_val 10 r)))"

definition py_isdigit :: "string \<Rightarrow> bool" where
  "py_isdigit s \<longleftrightarrow> s \<noteq> [] \<and> (\<forall>c \<in> set s. is_dec c \<or> (of_char c :: nat) \<in> {178, 179, 185})"

section \<open>Lemmas\<close>

lemma py_strip_Nil [simp]: "py_strip [] = []"
  by (simp add: py_strip_def py_lstrip_def py_rstrip_def)

lemma py_strip_id:
  assumes "s \<noteq> [] \<Longrightarrow> \<not> is_space (hd s) \<and> \<not> is_space (last s)"
  shows "py_strip s = s"
proof (cases s)
  case (Cons c cs)
  with assms have "dropWhile is_space s = s" by simp
  moreover have "dropWhile is_space (rev s) = rev s"
  proof (cases "rev s")
    case (Cons d ds)
    then have "last s = d" by (metis last_rev list.sel(1) rev_rev_ident hd_rev)
    with assms Cons show ?thesis by auto
  qed simp
  ultimately show ?thesis by (simp add: py_strip_def py_lstrip_def py_rstrip_def)
qed simp

lemma py_rstrip_snoc:
  "py_rstrip (s @ [c]) = (if is_space c then py_rstrip s else s @ [c])"
  by (simp add: py_rstrip_def)

lemma py_rstrip_prefix: "prefix (py_rstrip s) s"
proof (induction s rule: rev_induct)
  case (snoc c s)
  then show ?case by (simp add: py_rstrip_snoc prefix_append prefix_order.trans)
qed (simp add: py_rstrip_def)

lemma py_rstrip_last: "py_rstrip s \<noteq> [] \<Longrightarrow> \<not> is_space (last (py_rstrip s))"
  by (induction s rule: rev_induct) (auto simp: py_rstrip_snoc py_rstrip_def)

lemma py_strip_ends:
  assumes "py_strip s \<noteq> []"
  shows "\<not> is_space (hd (py_strip s))" "\<not> is_space (last (py_strip s))"
proof -
  let ?t = "dropWhile is_space s"
  have pre: "prefix (py_strip s) ?t"
    by (simp add: py_strip_def py_lstrip_def py_rstrip_prefix)
  then obtain r where "?t = py_strip s @ r" by (auto simp: prefix_def)
  then have "hd (py_strip s) = hd ?t" "?t \<noteq> []"
    using assms by (metis hd_append2, metis append_is_Nil_conv)
  then show "\<not> is_space (hd (py_strip s))" by (metis hd_dropWhile)
  show "\<not> is_space (last (py_strip s))"
    using assms by (simp add: py_strip_def py_rstrip_last)
qed

lemma py_strip_idem [simp]: "py_strip (py_strip s) = py_strip s"
  by (rule py_strip_id) (use py_strip_ends in blast)

lemma set_py_strip: "set (py_strip s) \<subseteq> set s"
proof -
  have "set (py_strip s) \<subseteq> set (dropWhile is_space s)"
    unfolding py_strip_def py_lstrip_def by (meson py_rstrip_prefix set_mono_prefix)
  then show ?thesis using set_dropWhileD by fastforce
qed

lemma py_rstrip_eq_Nil: "py_rstrip s = [] \<longleftrightarrow> (\<forall>c \<in> set s. is_space c)"
  by (induction s rule: rev_induct) (auto simp: py_rstrip_snoc py_rstrip_def)

lemma py_strip_eq_Nil: "py_strip s = [] \<longleftrightarrow> (\<forall>c \<in> set s. is_space c)"
proof -
  have "py_strip s = [] \<longleftrightarrow> (\<forall>c \<in> set (dropWhile is_space s). is_space c)"
    by (simp add: py_strip_def py_lstrip_def py_rstrip_eq_Nil)
  also have "\<dots> \<longleftrightarrow> (\<forall>c \<in> set s. is_space c)"
    by (metis Un_iff set_append set_takeWhileD takeWhile_dropWhile_id)
  finally show ?thesis .
qed

lemma py_strip_spaces_left: "(\<And>c. c \<in> set p \<Longrightarrow> is_space c) \<Longrightarrow> py_strip (p @ s) = py_strip s"
  by (simp add: py_strip_def py_lstrip_def)

subsection \<open>Searching\<close>

lemma py_find_Some:
  "py_find sub s = Some i \<Longrightarrow> i \<le> length s \<and> prefix sub (drop i s)"
  by (induction sub s arbitrary: i rule: py_find.induct) (auto split: if_splits)

lemma py_find_first:
  "py_find sub s = Some i \<Longrightarrow> j < i \<Longrightarrow> \<not> prefix sub (drop j s)"
proof (induction sub s arbitrary: i j rule: py_find.induct)
  case (2 sub c s)
  then show ?case by (cases j) (auto split: if_splits)
qed (auto split: if_splits)

lemma py_find_None: "py_find sub s = None \<Longrightarrow> \<not> prefix sub (drop j s)"
proof (induction sub s arbitrary: j rule: py_find.induct)
  case (2 sub c s)
  then show ?case by (cases j) (auto split: if_splits)
qed (auto split: if_splits)

lemma py_find_char_Some:
  "py_find [c] (p @ c # s) = Some (length p)" if "c \<notin> set p"
  using that by (induction p) auto

lemma py_find_char_None: "py_find [c] s = None \<longleftrightarrow> c \<notin> set s"
  by (induction s) auto

lemma py_partition_char:
  "c \<notin> set p \<Longrightarrow> py_partition [c] (p @ c # s) = (p, [c], s)"
  by (simp add: py_partition_def py_find_char_Some)

lemma py_partition_char_None:
  "c \<notin> set s \<Longrightarrow> py_partition [c] s = (s, [], [])"
  using py_find_char_None [of c s] by (simp add: py_partition_def)

lemma split_at_char:
  assumes "c \<in> set s"
  obtains p q where "s = p @ c # q" "c \<notin> set p"
  using assms by (metis split_list_first)

lemma py_partition_concat:
  "py_partition sep s = (a, m, b) \<Longrightarrow> s = a @ m @ b"
  by (auto simp: py_partition_def prefix_def split: option.splits dest!: py_find_Some)
     (metis add.commute append_take_drop_id append_eq_conv_conj drop_drop)

subsection \<open>Lines and words\<close>

lemma py_splitlines_Nil [simp]: "py_splitlines [] = []"
  by (simp add: py_splitlines.simps)

lemma py_splitlines_line:
  assumes "\<And>c. c \<in> set l \<Longrightarrow> \<not> is_linebreak c"
  shows "py_splitlines (l @ chr_nl # s) = l # py_splitlines s"
proof -
  have nl: "is_linebreak chr_nl" by (simp add: is_linebreak_def)
  show ?thesis
    using assms by (subst py_splitlines.simps) (simp add: nl)
qed

lemma py_splitlines_last:
  "(\<And>c. c \<in> set l \<Longrightarrow> \<not> is_linebreak c) \<Longrightarrow> py_splitlines l = (if l = [] then [] else [l])"
  by (subst py_splitlines.simps) (simp add: dropWhile_eq_Nil_conv [THEN iffD2])

lemma py_splitlines_join:
  assumes "\<forall>l \<in> set ls. \<forall>c \<in> set l. \<not> is_linebreak c"
  shows "py_splitlines (py_join [chr_nl] (ls @ [[]])) = ls"
  using assms
proof (induction ls)
  case (Cons l ls)
  have "py_join [chr_nl] ((l # ls) @ [[]]) = l @ chr_nl # py_join [chr_nl] (ls @ [[]])"
    by (cases ls) auto
  then show ?case using Cons by (simp add: py_splitlines_line)
qed simp

lemma py_split_Nil [simp]: "py_split [] = []"
  by (simp add: py_split.simps)

lemma py_split_space: "is_space c \<Longrightarrow> py_split (c # s) = py_split s"
  by (subst (1 2) py_split.simps) simp

lemma py_split_word:
  assumes "w \<noteq> []" "\<And>c. c \<in> set w \<Longrightarrow> \<not> is_space c" "is_space c"
  shows "py_split (w @ c # s) = w # py_split s"
proof -
  obtain d ds where w: "w = d # ds" using assms(1) by (cases w) auto
  then show ?thesis
    using assms by (subst py_split.simps) (simp add: py_split_space)
qed

lemma py_split_single:
  assumes "w \<noteq> []" "\<And>c. c \<in> set w \<Longrightarrow> \<not> is_space c"
  shows "py_split w = [w]"
proof -
  obtain d ds where w: "w = d # ds" using assms(1) by (cases w) auto
  then show ?thesis
    using assms by (subst py_split.simps) (simp add: dropWhile_eq_Nil_conv [THEN iffD2])
qed

lemma py_split_eq_Nil: "py_split s = [] \<longleftrightarrow> (\<forall>c \<in> set s. is_space c)"
  by (subst py_split.simps) (simp split: list.split, metis dropWhile_eq_Nil_conv list.distinct(1))

lemma is_space_blank [simp]: "is_space (CHR '' '')"
  by (simp add: is_space_def)

lemma py_split_join:
  assumes "\<forall>w \<in> set ws. w \<noteq> [] \<and> (\<forall>c \<in> set w. \<not> is_space c)"
  shows "py_split (py_join '' '' ws) = ws"
  using assms
proof (induction "'' ''" ws rule: py_join.induct)
  case (3 x y xs)
  then show ?case by (simp add: py_split_word)
qed (simp_all add: py_split_single)

lemma py_split_on_nonempty [simp]: "py_split_on c s \<noteq> []"
  by (cases s) (auto split: list.splits)

lemma py_split_on_absent: "c \<notin> set s \<Longrightarrow> py_split_on c s = [s]"
  by (induction s) auto

lemma py_split_on_sep:
  "c \<notin> set p \<Longrightarrow> py_split_on c (p @ c # s) = p # py_split_on c s"
  by (induction p) auto

lemma py_split_on_hd: "hd (py_split_on c s) = takeWhile (\<lambda>x. x \<noteq> c) s"
  by (induction s) (auto split: list.splits)

lemma py_split_on_join:
  "ws \<noteq> [] \<Longrightarrow> \<forall>w \<in> set ws. c \<notin> set w \<Longrightarrow> py_split_on c (py_join [c] ws) = ws"
  by (induction "[c]" ws rule: py_join.induct) (auto simp: py_split_on_absent py_split_on_sep)

lemma set_py_join: "set (py_join sep xs) \<subseteq> set sep \<union> \<Union> (set ` set xs)"
  by (induction sep xs rule: py_join.induct) auto

subsection \<open>Numbers\<close>

lemma digits_val_snoc: "digits_val b (s @ [c]) = b * digits_val b s + digit_val c"
  by (simp add: digits_val_def)

lemma digit_val_char_of: "n < 10 \<Longrightarrow> digit_val (char_of (48 + n)) = n"
  by (simp add: digit_val_def of_char_of Let_def)

lemma is_dec_char_of: "(n :: nat) < 10 \<Longrightarrow> is_dec (char_of (48 + n))"
  by (simp add: is_dec_def of_char_of Let_def)

lemma str_of_nat_digits: "c \<in> set (str_of_nat n) \<Longrightarrow> is_dec c"
proof (induction n rule: str_of_nat.induct)
  case (1 n)
  then show ?case
    using is_dec_char_of [of n] is_dec_char_of [of "n mod 10"]
    by (auto simp: str_of_nat.simps [of n] split: if_splits)
qed

lemma str_of_nat_nonempty [simp]: "str_of_nat n \<noteq> []"
  by (subst str_of_nat.simps) simp

lemma digits_val_str_of_nat [simp]: "digits_val 10 (str_of_nat n) = n"
proof (induction n rule: str_of_nat.induct)
  case (1 n)
  show ?case
  proof (cases "n < 10")
    case True
    then show ?thesis
      using digits_val_snoc [of 10 "[]" "char_of (48 + n)"]
      by (simp add: str_of_nat.simps [of n] digit_val_char_of digits_val_def)
  next
    case False
    then have "digits_val 10 (str_of_nat n) = 10 * (n div 10) + n mod 10"
      using 1 by (subst str_of_nat.simps) (simp add: digits_val_snoc digit_val_char_of)
    then show ?thesis by simp
  qed
qed

lemma is_dec_facts:
  assumes "is_dec c"
  shows "\<not> is_space c" "\<not> int_blank c" "c \<noteq> CHR ''_''" "c \<noteq> CHR ''+''" "c \<noteq> CHR ''-''"
  using assms by (auto simp: is_dec_def is_space_def int_blank_def Let_def)

lemma dec_digits_all: "s \<noteq> [] \<Longrightarrow> (\<And>c. c \<in> set s \<Longrightarrow> is_dec c) \<Longrightarrow> dec_digits s"
  by (induction s rule: dec_digits.induct) (auto dest: is_dec_facts(3))

lemma py_int_digits:
  assumes "s \<noteq> []" "\<And>c. c \<in> set s \<Longrightarrow> is_dec c"
  shows "py_int s = Inr (int (digits_val 10 s))"
proof -
  obtain c r where s: "s = c # r" using assms(1) by (cases s) auto
  have "dropWhile int_blank s = s" using assms s by (simp add: is_dec_facts)
  moreover have "dropWhile int_blank (rev s) = rev s"
  proof (cases "rev s")
    case (Cons d ds)
    then have "d \<in> set s" by (metis list.set_intros(1) set_rev)
    with Cons assms(2) show ?thesis by (simp add: is_dec_facts)
  qed simp
  moreover have "split_sign s = (1, s)"
    using assms(2) [of c] is_dec_facts(4,5) [of c] by (simp add: s split_sign_def)
  moreover have "filter (\<lambda>c. c \<noteq> CHR ''_'') s = s"
    using assms(2) is_dec_facts(3) by (simp add: filter_id_conv)
  moreover have "dec_digits s" by (rule dec_digits_all) (use assms in auto)
  ultimately show ?thesis by (simp add: py_int_def)
qed

lemma py_int_str_of_nat: "py_int (str_of_nat n) = Inr (int n)"
  using py_int_digits [of "str_of_nat n"] str_of_nat_digits by auto

lemma str_of_nat_inject [simp]: "str_of_nat m = str_of_nat n \<longleftrightarrow> m = n"
  by (metis digits_val_str_of_nat)

end
