(* ===== verification/Py_Path.thy ===== *)
theory Py_Path
  imports Py_Str
begin

text \<open>
  What the host tools use of \<^verbatim>\<open>os.path\<close> and \<^verbatim>\<open>fnmatch\<close>: POSIX paths as strings, joining,
  taking apart and relating them, and file-name patterns.
\<close>

section \<open>Paths\<close>

definition path_join :: "string \<Rightarrow> string \<Rightarrow> string" where
  "path_join a b =
     (if py_startswith b ''/'' then b
      else if a = [] \<or> py_endswith a ''/'' then a @ b
      else a @ ''/'' @ b)"

definition not_slash :: "char \<Rightarrow> bool" where
  "not_slash c \<longleftrightarrow> c \<noteq> CHR ''/''"

definition path_basename :: "string \<Rightarrow> string" where
  "path_basename p = rev (takeWhile not_slash (rev p))"

definition path_head :: "string \<Rightarrow> string" where
  "path_head p = rev (dropWhile not_slash (rev p))"

definition path_dirname :: "string \<Rightarrow> string" where
  "path_dirname p =
     (let h = path_head p
      in if list_all (\<lambda>c. c = CHR ''/'') h then h
         else rev (dropWhile (\<lambda>c. c = CHR ''/'') (rev h)))"

text \<open>\<^verbatim>\<open>path.relpath\<close> of two normalised absolute paths.\<close>

fun common_len :: "string list \<Rightarrow> string list \<Rightarrow> nat" where
  "common_len (x # xs) (y # ys) = (if x = y then Suc (common_len xs ys) else 0)"
| "common_len _ _ = 0"

definition path_parts :: "string \<Rightarrow> string list" where
  "path_parts p = filter (\<lambda>x. x \<noteq> []) (py_split_on CHR ''/'' p)"

definition path_relpath :: "string \<Rightarrow> string \<Rightarrow> string" where
  "path_relpath p start =
     (let ps = path_parts p; ss = path_parts start; i = common_len ss ps;
          rel = replicate (length ss - i) ''..'' @ drop i ps
      in if rel = [] then ''.'' else py_join ''/'' rel)"

section \<open>File-name patterns\<close>

text \<open>
  The character class of a bracket expression: the text between the brackets (after a
  leading \<^verbatim>\<open>!\<close>) read as characters and ranges.
\<close>

fun in_class :: "string \<Rightarrow> char \<Rightarrow> bool" where
  "in_class (a # m # b # s) c =
     (if m = CHR ''-'' then (of_char a :: nat) \<le> of_char c \<and> (of_char c :: nat) \<le> of_char b \<or> in_class s c
      else c = a \<or> in_class (m # b # s) c)"
| "in_class (a # s) c = (c = a \<or> in_class s c)"
| "in_class [] c = False"

text \<open>The text of a bracket expression that starts after \<^verbatim>\<open>[\<close>, and what follows it.\<close>

definition class_end :: "string \<Rightarrow> (string \<times> string) option" where
  "class_end s =
     (let n = (if py_startswith s ''!'' then 1 else 0);
          n' = (if py_startswith (drop n s) '']'' then n + 1 else n)
      in if CHR '']'' \<in> set (drop n' s)
         then Some (take n' s @ takeWhile (\<lambda>c. c \<noteq> CHR '']'') (drop n' s),
                    tl (dropWhile (\<lambda>c. c \<noteq> CHR '']'') (drop n' s)))
         else None)"

lemma class_end_shorter: "class_end s = Some (k, r) \<Longrightarrow> length r < length s"
proof -
  assume a: "class_end s = Some (k, r)"
  define n where "n = (let n = (if py_startswith s ''!'' then 1 else 0)
      in (if py_startswith (drop n s) '']'' then n + 1 else n))"
  have r: "CHR '']'' \<in> set (drop n s)" "r = tl (dropWhile (\<lambda>c. c \<noteq> CHR '']'') (drop n s))"
    using a unfolding class_end_def n_def Let_def by (auto split: if_splits)
  then have "dropWhile (\<lambda>c. c \<noteq> CHR '']'') (drop n s) \<noteq> []" by auto
  moreover have "length (dropWhile (\<lambda>c. c \<noteq> CHR '']'') (drop n s)) \<le> length s"
    by (rule order.trans [OF length_dropWhile_le]) simp
  ultimately show ?thesis using r(2)
    by (cases "dropWhile (\<lambda>c. c \<noteq> CHR '']'') (drop n s)") auto
qed

function fnmatch :: "string \<Rightarrow> string \<Rightarrow> bool" where
  "fnmatch [] name = (name = [])"
| "fnmatch (p # pat) name =
     (if p = CHR ''*''
      then fnmatch pat name \<or> (case name of [] \<Rightarrow> False | c # r \<Rightarrow> fnmatch (p # pat) r)
      else (case name of [] \<Rightarrow> False | c # r \<Rightarrow>
        if p = CHR ''?'' then fnmatch pat r
        else if p = CHR ''['' then (case class_end pat of
               None \<Rightarrow> c = p \<and> fnmatch pat r
             | Some (k, pat') \<Rightarrow>
                 (if py_startswith k ''!'' then \<not> in_class (tl k) c else in_class k c) \<and> fnmatch pat' r)
        else c = p \<and> fnmatch pat r))"
  by pat_completeness auto
termination
  by (relation "measures [\<lambda>(p, n). length n, \<lambda>(p, n). length p]") (auto dest: class_end_shorter)

declare fnmatch.simps(2) [simp del]

text \<open>
  \<^verbatim>\<open>glob.glob\<close> matches component by component; a wildcard at the start of a component does
  not match a hidden name.
\<close>

definition has_magic :: "string \<Rightarrow> bool" where
  "has_magic s \<longleftrightarrow> (\<exists>c \<in> set s. c \<in> set ''*?['')"

definition glob_component :: "string \<Rightarrow> string \<Rightarrow> bool" where
  "glob_component pat name =
     (if has_magic pat
      then fnmatch pat name \<and> (py_startswith pat ''.'' \<or> \<not> py_startswith name ''.'')
      else pat = name)"

definition glob_match :: "string \<Rightarrow> string \<Rightarrow> bool" where
  "glob_match pat p = list_all2 glob_component (path_parts pat) (path_parts p)"

section \<open>Facts\<close>

lemma path_head_basename: "path_head p @ path_basename p = p"
  by (simp add: path_head_def path_basename_def flip: rev_append)

definition plain_name :: "string \<Rightarrow> bool" where
  "plain_name b \<longleftrightarrow> b \<noteq> [] \<and> list_all not_slash b"

definition plain_dir :: "string \<Rightarrow> bool" where
  "plain_dir a \<longleftrightarrow> a \<noteq> [] \<and> not_slash (last a)"

lemma plain_name_facts:
  assumes "plain_name b"
  shows "\<not> py_startswith b ''/''" "b \<noteq> []"
proof -
  obtain c r where "b = c # r" "c \<noteq> CHR ''/''"
    using assms by (cases b) (auto simp: plain_name_def not_slash_def)
  then show "\<not> py_startswith b ''/''" "b \<noteq> []" by simp_all
qed

lemma path_join_plain:
  "plain_dir a \<Longrightarrow> plain_name b \<Longrightarrow> path_join a b = a @ CHR ''/'' # b"
  by (auto simp: path_join_def plain_name_facts plain_dir_def not_slash_def suffix_def)

lemma path_basename_join [simp]:
  assumes "plain_dir a" "plain_name b"
  shows "path_basename (path_join a b) = b"
proof -
  have "takeWhile not_slash (rev b @ CHR ''/'' # rev a) = rev b"
    using assms(2) by (subst takeWhile_append2) (auto simp: plain_name_def list_all_iff not_slash_def)
  then show ?thesis using assms by (simp add: path_basename_def path_join_plain)
qed

lemma path_dirname_join [simp]:
  assumes "plain_dir a" "plain_name b"
  shows "path_dirname (path_join a b) = a"
proof -
  have "dropWhile not_slash (rev b @ CHR ''/'' # rev a) = CHR ''/'' # rev a"
    using assms(2) by (subst dropWhile_append2) (auto simp: plain_name_def list_all_iff not_slash_def)
  then have h: "path_head (path_join a b) = a @ ''/''"
    using assms by (simp add: path_head_def path_join_plain)
  obtain r c where a: "a = r @ [c]" "c \<noteq> CHR ''/''"
    using assms(1) by (cases a rule: rev_cases) (auto simp: plain_dir_def not_slash_def)
  show ?thesis unfolding path_dirname_def h Let_def by (simp add: a)
qed

lemma plain_dir_join [simp]: "plain_dir a \<Longrightarrow> plain_name b \<Longrightarrow> plain_dir (path_join a b)"
  by (auto simp: path_join_plain plain_dir_def plain_name_def list_all_iff)

lemma path_join_inject:
  assumes "plain_dir a" "plain_name b" "plain_dir a'" "plain_name b'"
  shows "path_join a b = path_join a' b' \<longleftrightarrow> a = a' \<and> b = b'"
  using assms path_dirname_join path_basename_join by metis

end
