(* ===== verification/Interface.thy ===== *)
theory Interface
  imports Py_Path
begin

text \<open>
  An interface of \<^verbatim>\<open>host/aidl_interface.py\<close>: \<^verbatim>\<open>parse_import_spec\<close>, the class \<^verbatim>\<open>AidlInterface\<close> with its
  loader and its version arithmetic, and \<^verbatim>\<open>version_for_hashgen\<close>. The document that the YAML or JSON
  library returns for an \<^verbatim>\<open>interface.yaml\<close> is a record with the fields the loader reads; an optional
  field is an option. \<^verbatim>\<open>path.realpath\<close> is an argument.
\<close>

section \<open>Definition files\<close>

datatype yaml = YStr string | YInt int | YOther string

text \<open>A field that the code distinguishes from one that is there without a value.\<close>

datatype 'a field = Absent | Null | Present 'a

fun field_list :: "'a list field \<Rightarrow> 'a list" where
  "field_list (Present xs) = xs"
| "field_list Absent = []"
| "field_list Null = []"

record interface_def =
  df_name :: string
  df_stable_aidl_subdir :: "string option"
  df_frozen_location :: "string option"
  df_layout :: "string option"
  df_srcs :: "string list"
  df_imports :: "yaml list option"
  df_stability :: "string option"
  df_version :: "yaml option"
  df_versions_with_info :: "(string \<times> string list) list field"

definition CURRENT_VERSION :: string where
  "CURRENT_VERSION = ''current''"

definition IMPORT_VERSION_UNPINNED :: string where
  "IMPORT_VERSION_UNPINNED = ''unknown''"

definition parse_import_spec :: "yaml \<Rightarrow> (string \<times> string option) res" where
  "parse_import_spec spec = (case spec of
       YStr s \<Rightarrow>
         if CHR ''@'' \<notin> set s then Inr (s, None)
         else (case py_partition ''@'' s of (name, _, version) \<Rightarrow>
           if name = [] \<or> version = [] then Inl (ValueError s) else Inr (name, Some version))
     | YInt i \<Rightarrow> Inl (ValueError (str_of_int i))
     | YOther s \<Rightarrow> Inl (ValueError s))"

section \<open>Interfaces\<close>

record AidlInterface =
  base_name :: string
  srcs :: "string list"
  interface_root :: string
  interface_root_stable :: string
  interface_gen_dir :: string
  iface_imports :: "string list"
  import_versions :: "string option dict"
  versions :: "string list"
  versions_with_info :: "string list dict"
  stability :: "string option"
  module_version :: "yaml option"
  frozen_location :: string
  stable_aidl_subdir :: string
  layout :: string
  workspace_root :: string
  interface_root_out :: string
  interface_api_dir_out :: string

text \<open>The loop over the raw imports.\<close>

definition load_import ::
  "yaml \<Rightarrow> string list \<times> string option dict \<Rightarrow> (string list \<times> string option dict) res" where
  "load_import raw st = rbind (parse_import_spec raw) (\<lambda>(name, version).
     Inr (fst st @ [name], dict_set name version (snd st)))"

definition find_root :: "(string \<Rightarrow> string) \<Rightarrow> string list \<Rightarrow> string \<Rightarrow> string" where
  "find_root realpath interfaces_roots root =
     (case find (\<lambda>r. py_startswith root (realpath r)) interfaces_roots of
        Some r \<Rightarrow> path_relpath root (realpath r)
      | None \<Rightarrow> path_relpath root ''/'')"

definition the_default :: "'a \<Rightarrow> 'a option \<Rightarrow> 'a" where
  "the_default d x = (case x of None \<Rightarrow> d | Some v \<Rightarrow> v)"

definition load_interface ::
  "(string \<Rightarrow> string) \<Rightarrow> string list \<Rightarrow> string \<Rightarrow> string \<Rightarrow> interface_def \<Rightarrow> AidlInterface res" where
  "load_interface realpath interfaces_roots root_dir out_dir data =
     (if interfaces_roots = [] then Inl IndexError
      else rbind (rfold load_import (the_default [] (df_imports data)) ([], [])) (\<lambda>(imps, pins).
        (let root = realpath root_dir;
             first = hd interfaces_roots;
             subdir = the_default ''aidl'' (df_stable_aidl_subdir data);
             frozen = the_default ''stable'' (df_frozen_location data);
             lay = the_default (if frozen = ''interface'' then ''module-local'' else ''central'') (df_layout data);
             stable = (if lay = ''module-local'' then path_dirname root
                       else path_join (path_join first (''stable/'' @ subdir)) (df_name data));
             gen = (if lay = ''module-local'' then path_dirname root
                    else path_join (path_join first ''stable/generated'') (df_name data));
             info = field_list (df_versions_with_info data);
             out = path_join out_dir (find_root realpath interfaces_roots root)
         in Inr \<lparr>base_name = df_name data, srcs = df_srcs data, interface_root = root,
              interface_root_stable = stable, interface_gen_dir = gen,
              iface_imports = imps, import_versions = pins,
              versions = map (\<lambda>i. str_of_nat (i + 1)) [0..<length info],
              versions_with_info = dict_of info,
              stability = df_stability data, module_version = df_version data,
              frozen_location = frozen, stable_aidl_subdir = subdir, layout = lay,
              workspace_root = realpath first,
              interface_root_out = out,
              interface_api_dir_out = path_join out (df_name data @ ''-api'')\<rparr>)))"

definition unstable :: "AidlInterface \<Rightarrow> bool" where
  "unstable interface \<longleftrightarrow> stability interface = Some ''unstable''"

definition next_version :: "AidlInterface \<Rightarrow> string res" where
  "next_version interface =
     (if unstable interface then Inr []
      else if versions interface = [] then Inr ''1''
      else rbind (py_int (last (versions interface))) (\<lambda>i. Inr (str_of_int (i + 1))))"

definition latest_version :: "AidlInterface \<Rightarrow> string" where
  "latest_version interface =
     (if unstable interface then []
      else if versions interface = [] then ''0''
      else last (versions interface))"

definition versioned_name :: "AidlInterface \<Rightarrow> string \<Rightarrow> string" where
  "versioned_name interface version = base_name interface @ ''-v'' @ version"

definition split_versioned :: "string \<Rightarrow> string \<times> string" where
  "split_versioned ver_imp = (case py_partition ''-v'' ver_imp of (name, _, ver) \<Rightarrow> (name, ver))"

definition import_pin :: "AidlInterface \<Rightarrow> string \<Rightarrow> string" where
  "import_pin interface imp = (case map_of (import_versions interface) imp of
       Some (Some pin) \<Rightarrow> if pin = CURRENT_VERSION then IMPORT_VERSION_UNPINNED else pin
     | _ \<Rightarrow> IMPORT_VERSION_UNPINNED)"

definition get_imports :: "AidlInterface \<Rightarrow> string \<Rightarrow> string dict res" where
  "get_imports interface version = (case map_of (versions_with_info interface) version of
       Some versioned_imports \<Rightarrow> Inr (dict_of (map split_versioned versioned_imports))
     | None \<Rightarrow> rbind (next_version interface) (\<lambda>nv.
         if version \<noteq> nv then Inl (AssertionError ''Unknown version provided'')
         else Inr (dict_of (map (\<lambda>imp. (imp, import_pin interface imp)) (iface_imports interface)))))"

definition version_for_hashgen :: "string \<Rightarrow> string res" where
  "version_for_hashgen ver = rbind (py_int ver) (\<lambda>ver_int.
     Inr (if ver_int > 1 then str_of_int (ver_int - 1) else ''latest-version''))"

section \<open>The type invariant of a loaded interface\<close>

definition wf_interface :: "AidlInterface \<Rightarrow> bool" where
  "wf_interface i \<longleftrightarrow>
     versions i = map (\<lambda>k. str_of_nat (k + 1)) [0..<length (versions i)] \<and>
     wf_dict (versions_with_info i) \<and> wf_dict (import_versions i) \<and>
     set (dict_keys (import_versions i)) = set (iface_imports i)"

lemma load_imports_keys:
  assumes "rfold load_import raws (imps, pins) = Inr (imps', pins')"
    and "wf_dict pins" "set (dict_keys pins) = set imps"
  shows "wf_dict pins' \<and> set (dict_keys pins') = set imps'"
  using assms
proof (induction raws arbitrary: imps pins)
  case (Cons raw raws)
  obtain name v where nv: "parse_import_spec raw = Inr (name, v)"
    "rfold load_import raws (imps @ [name], dict_set name v pins) = Inr (imps', pins')"
    using Cons.prems(1) by (auto simp: load_import_def [of raw] rbind_eq_Inr)
  show ?case
    by (rule Cons.IH [OF nv(2)])
      (use Cons.prems(2,3) in \<open>simp_all only: wf_dict_set set_keys_dict_set set_append list.set Un_insert_right Un_empty_right\<close>)
qed simp

lemma load_interface_wf:
  assumes "load_interface realpath roots dir out data = Inr i"
  shows "wf_interface i"
proof -
  obtain imps pins where l: "rfold load_import (the_default [] (df_imports data)) ([], []) = Inr (imps, pins)"
    using assms by (auto simp: load_interface_def res_simps split: if_splits)
  have "wf_dict pins \<and> set (dict_keys pins) = set imps"
    by (rule load_imports_keys [OF l]) simp_all
  moreover have "versions i = map (\<lambda>k. str_of_nat (k + 1)) [0..<length (field_list (df_versions_with_info data))]"
    "versions_with_info i = dict_of (field_list (df_versions_with_info data))"
    "iface_imports i = imps" "import_versions i = pins"
    using assms l by (auto simp: load_interface_def Let_def split: if_splits)
  ultimately show ?thesis unfolding wf_interface_def by simp
qed

lemma last_version:
  assumes "wf_interface i" "versions i \<noteq> []"
  shows "last (versions i) = str_of_nat (length (versions i))"
proof -
  let ?n = "length (versions i)"
  have "last (versions i) = versions i ! (?n - 1)" using assms(2) by (simp add: last_conv_nth)
  also have "\<dots> = map (\<lambda>k. str_of_nat (k + 1)) [0..<?n] ! (?n - 1)"
    using assms(1) by (metis wf_interface_def)
  also have "\<dots> = str_of_nat ?n" using assms(2) by simp
  finally show ?thesis .
qed

lemma str_of_nat_small [simp]: "str_of_nat 0 = ''0''" "str_of_nat (Suc 0) = ''1''"
  by (code_simp, code_simp)

text \<open>The versions of a stable interface count from one, without gaps.\<close>

lemma next_version_wf:
  "wf_interface i \<Longrightarrow> \<not> unstable i \<Longrightarrow> next_version i = Inr (str_of_nat (Suc (length (versions i))))"
  by (auto simp: next_version_def last_version py_int_str_of_nat str_of_int_def nat_add_distrib)

lemma latest_version_wf:
  "wf_interface i \<Longrightarrow> \<not> unstable i \<Longrightarrow> latest_version i = str_of_nat (length (versions i))"
  by (auto simp: latest_version_def last_version)

lemma next_version_total: "wf_interface i \<Longrightarrow> \<exists>v. next_version i = Inr v"
  by (cases "unstable i") (auto simp: next_version_wf, simp add: next_version_def)

lemma version_for_hashgen_nat:
  "version_for_hashgen (str_of_nat (Suc n)) = Inr (if n = 0 then ''latest-version'' else str_of_nat n)"
  by (simp add: version_for_hashgen_def py_int_str_of_nat str_of_int_def)

section \<open>Imports\<close>

lemma get_imports_frozen:
  "map_of (versions_with_info i) v = Some vs \<Longrightarrow> get_imports i v = Inr (dict_of (map split_versioned vs))"
  by (simp add: get_imports_def)

lemma get_imports_next:
  assumes "next_version i = Inr v" "map_of (versions_with_info i) v = None"
  shows "get_imports i v = Inr (dict_of (map (\<lambda>imp. (imp, import_pin i imp)) (iface_imports i)))"
  using assms by (simp add: get_imports_def)

text \<open>A versioned name is read back as its name and version when the name has no \<^verbatim>\<open>-v\<close> in it.\<close>

lemma find_dash_v: "\<not> py_contains ''-v'' n \<Longrightarrow> py_find ''-v'' (n @ ''-v'' @ v) = Some (length n)"
proof (induction n)
  case (Cons c n)
  have "\<not> py_contains ''-v'' n" using Cons.prems by (auto simp: py_contains_def split: if_splits)
  moreover have "\<not> prefix ''-v'' (c # n @ ''-v'' @ v)"
  proof
    assume "prefix ''-v'' (c # n @ ''-v'' @ v)"
    then have "c = CHR ''-''" "n \<noteq> [] \<longrightarrow> hd n = CHR ''v''" "n = [] \<longrightarrow> CHR ''v'' = CHR ''-''"
      by (cases n; auto)+
    then have "prefix ''-v'' (c # n)" by (cases n) auto
    then show False using Cons.prems by (simp add: py_contains_def)
  qed
  ultimately show ?case using Cons.IH by simp
qed (simp add: py_contains_def)

lemma split_versioned_name:
  "\<not> py_contains ''-v'' (base_name i) \<Longrightarrow> split_versioned (versioned_name i v) = (base_name i, v)"
  using find_dash_v [of "base_name i" v]
  by (simp add: split_versioned_def versioned_name_def py_partition_def)

lemma split_versioned_shorter:
  assumes "py_contains ''-v'' (base_name i)"
  shows "length (fst (split_versioned (versioned_name i v))) < length (base_name i)"
proof -
  obtain k where k: "py_find ''-v'' (base_name i) = Some k" using assms by (auto simp: py_contains_def)
  have "py_find ''-v'' (s @ t) = Some k" if "py_find ''-v'' s = Some k" for s t k
    using that
  proof (induction s arbitrary: k)
    case (Cons c s)
    then show ?case by (cases s) (auto split: if_splits)
  qed simp
  then have "py_find ''-v'' (versioned_name i v) = Some k" using k by (simp add: versioned_name_def)
  moreover have "prefix ''-v'' (drop k (base_name i))" using py_find_Some [OF k] by simp
  then have "k < length (base_name i)" by (cases "k < length (base_name i)") auto
  ultimately show ?thesis by (simp add: split_versioned_def py_partition_def min_def)
qed

end
