(* ===== verification/Py_IO.thy ===== *)
theory Py_IO
  imports Interface
begin

text \<open>
  The world the host tools act on. A file system is a dict from absolute paths to nodes, in the
  order in which the operating system lists them; an \<^verbatim>\<open>interface.yaml\<close> or \<^verbatim>\<open>interface.json\<close> is
  stored as the document it holds. An operation takes the world and returns a result and the
  world: what was done before an exception stays done. The AIDL compiler, \<^verbatim>\<open>sha1sum\<close> and the
  installation path of the tools are arguments, gathered in a record.
\<close>

section \<open>File systems\<close>

datatype node = FDir | FFile string | FDef interface_def

type_synonym fs = "node dict"

definition path_exists :: "fs \<Rightarrow> string \<Rightarrow> bool" where
  "path_exists fs p \<longleftrightarrow> map_of fs p \<noteq> None"

definition path_isdir :: "fs \<Rightarrow> string \<Rightarrow> bool" where
  "path_isdir fs p \<longleftrightarrow> map_of fs p = Some FDir"

definition path_isfile :: "fs \<Rightarrow> string \<Rightarrow> bool" where
  "path_isfile fs p \<longleftrightarrow> path_exists fs p \<and> \<not> path_isdir fs p"

definition children :: "fs \<Rightarrow> string \<Rightarrow> string list" where
  "children fs d = filter (\<lambda>p. path_dirname p = d \<and> length d < length p) (dict_keys fs)"

definition os_listdir :: "fs \<Rightarrow> string \<Rightarrow> string list" where
  "os_listdir fs d = map path_basename (children fs d)"

text \<open>
  The directories of \<^verbatim>\<open>os.walk(d)\<close>, top down, where the loop body prunes the subdirectories
  that are in \<open>skip\<close>.
\<close>

lemma children_measure:
  assumes "p \<in> set (children fs d)"
  shows "(MAX q \<in> set (dict_keys fs). length q) - length p < (MAX q \<in> set (dict_keys fs). length q) - length d"
proof -
  let ?M = "MAX q \<in> set (dict_keys fs). length q"
  have p: "p \<in> set (dict_keys fs)" "length d < length p" using assms by (simp_all add: children_def)
  then have "length p \<le> ?M" by (intro Max_ge) auto
  then show ?thesis using p(2) by linarith
qed

function walk_dirs :: "string list \<Rightarrow> fs \<Rightarrow> string \<Rightarrow> string list" where
  "walk_dirs skip fs d = (if path_isdir fs d
     then d # concat (map (walk_dirs skip fs)
       (filter (\<lambda>p. path_isdir fs p \<and> p \<notin> set skip) (children fs d)))
     else [])"
  by pat_completeness auto
termination
  by (relation "measure (\<lambda>(skip, fs, d). (MAX q \<in> set (dict_keys fs). length q) - length d)")
     (simp, use children_measure in fastforce)

declare walk_dirs.simps [simp del]

text \<open>The files of a directory.\<close>

definition dir_file_paths :: "fs \<Rightarrow> string \<Rightarrow> string list" where
  "dir_file_paths fs d = filter (path_isfile fs) (children fs d)"

fun parents :: "nat \<Rightarrow> string \<Rightarrow> string list" where
  "parents 0 p = [p]"
| "parents (Suc n) p = (if length (path_dirname p) < length p \<and> path_dirname p \<noteq> []
     then parents n (path_dirname p) @ [p] else [p])"

definition mkdir1 :: "string \<Rightarrow> fs \<Rightarrow> fs" where
  "mkdir1 p fs = (if path_exists fs p then fs else fs @ [(p, FDir)])"

text \<open>\<^verbatim>\<open>os.makedirs(p, exist_ok=True)\<close>, and \<^verbatim>\<open>mkdir -p\<close>.\<close>

definition os_makedirs :: "string \<Rightarrow> fs \<Rightarrow> fs" where
  "os_makedirs p fs = fold mkdir1 (parents (length p) p) fs"

definition os_remove :: "string \<Rightarrow> fs \<Rightarrow> fs" where
  "os_remove p fs = filter (\<lambda>(q, n). q \<noteq> p) fs"

definition under :: "string \<Rightarrow> string \<Rightarrow> bool" where
  "under d p \<longleftrightarrow> prefix (d @ ''/'') p"

text \<open>
  Copying the entries below a directory that satisfy a condition to the same places below
  another: \<^verbatim>\<open>cp -rf src/. dst\<close> and \<^verbatim>\<open>rsync -a src/ dst/\<close> with its filters.
\<close>

definition move_path :: "string \<Rightarrow> string \<Rightarrow> string \<Rightarrow> string" where
  "move_path src dst p = dst @ drop (length src) p"

definition copy_below :: "(string \<Rightarrow> node \<Rightarrow> bool) \<Rightarrow> string \<Rightarrow> string \<Rightarrow> fs \<Rightarrow> fs" where
  "copy_below keep src dst fs =
     fold (\<lambda>(p, n). dict_set (move_path src dst p) n) (filter (\<lambda>(p, n). under src p \<and> keep p n) fs) fs"

definition all_nodes :: "string \<Rightarrow> node \<Rightarrow> bool" where
  "all_nodes p n \<longleftrightarrow> True"

definition aidl_or_dir :: "string \<Rightarrow> node \<Rightarrow> bool" where
  "aidl_or_dir p n \<longleftrightarrow> n = FDir \<or> py_endswith p ''.aidl''"

section \<open>Operations\<close>

record world =
  w_fs :: fs
  w_rec :: int

type_synonym 'a io = "world \<Rightarrow> 'a res \<times> world"

definition io_return :: "'a \<Rightarrow> 'a io" where
  "io_return x w = (Inr x, w)"

definition io_raise :: "py_error \<Rightarrow> 'a io" where
  "io_raise e w = (Inl e, w)"

definition io_res :: "'a res \<Rightarrow> 'a io" where
  "io_res r w = (r, w)"

definition io_bind :: "'a io \<Rightarrow> ('a \<Rightarrow> 'b io) \<Rightarrow> 'b io" where
  "io_bind m f w = (case m w of (Inl e, w') \<Rightarrow> (Inl e, w') | (Inr x, w') \<Rightarrow> f x w')"

definition io_gets :: "(fs \<Rightarrow> 'a) \<Rightarrow> 'a io" where
  "io_gets f w = (Inr (f (w_fs w)), w)"

definition io_modify :: "(fs \<Rightarrow> fs) \<Rightarrow> unit io" where
  "io_modify f w = (Inr (), w\<lparr>w_fs := f (w_fs w)\<rparr>)"

text \<open>\<^verbatim>\<open>try: m except ...\<close>: the handler sees the error.\<close>

definition io_catch :: "'a io \<Rightarrow> (py_error \<Rightarrow> 'a io) \<Rightarrow> 'a io" where
  "io_catch m h w = (case m w of (Inl e, w') \<Rightarrow> h e w' | (Inr x, w') \<Rightarrow> (Inr x, w'))"

fun io_fold :: "('a \<Rightarrow> 's \<Rightarrow> 's io) \<Rightarrow> 'a list \<Rightarrow> 's \<Rightarrow> 's io" where
  "io_fold f [] s = io_return s"
| "io_fold f (x # xs) s = io_bind (f x s) (io_fold f xs)"

abbreviation io_then :: "unit io \<Rightarrow> 'b io \<Rightarrow> 'b io" where
  "io_then m k \<equiv> io_bind m (\<lambda>_. k)"

text \<open>\<^verbatim>\<open>assert False\<close> and \<^verbatim>\<open>logger.fatal\<close> on a condition.\<close>

definition io_check :: "bool \<Rightarrow> py_error \<Rightarrow> unit io" where
  "io_check ok e = (if ok then io_return () else io_raise e)"

lemmas io_defs = io_return_def io_raise_def io_res_def io_gets_def io_modify_def io_check_def

lemma io_bind_cong [fundef_cong]:
  "m = m' \<Longrightarrow> w = w' \<Longrightarrow> (\<And>x v. m' w' = (Inr x, v) \<Longrightarrow> f x v = f' x v) \<Longrightarrow> io_bind m f w = io_bind m' f' w'"
  by (auto simp: io_bind_def split: prod.splits sum.splits)

lemma io_bind_simps [simp]:
  "io_bind (io_return x) f = f x"
  "io_bind (io_raise e) f = io_raise e"
  "io_bind (io_res (Inr x)) f = f x"
  "io_bind (io_res (Inl e)) f = io_raise e"
  by (auto simp: io_bind_def io_defs)

lemma io_bind_Inr [res_simps]:
  "io_bind m f w = (Inr y, w') \<longleftrightarrow> (\<exists>x v. m w = (Inr x, v) \<and> f x v = (Inr y, w'))"
  by (auto simp: io_bind_def split: prod.splits sum.splits)

lemma io_bind_step: "m w = (Inr x, v) \<Longrightarrow> io_bind m f w = f x v"
  by (simp add: io_bind_def)

lemma io_bind_fail: "m w = (Inl e, v) \<Longrightarrow> io_bind m f w = (Inl e, v)"
  by (simp add: io_bind_def)

text \<open>
  A loop by its parts: either every body returns, and what holds of the part done so far holds
  of all, or an error of a body ends it.
\<close>

lemma io_fold_cases:
  assumes "io_fold f xs s w = (r, w')" "P [] s w"
    and "\<And>us x vs s w r w'. xs = us @ x # vs \<Longrightarrow> P us s w \<Longrightarrow> f x s w = (r, w') \<Longrightarrow>
      (\<exists>s'. r = Inr s' \<and> P (us @ [x]) s' w') \<or> (\<exists>e. r = Inl e \<and> Q e)"
  shows "(\<exists>s'. r = Inr s' \<and> P xs s' w') \<or> (\<exists>e. r = Inl e \<and> Q e)"
proof -
  have "(\<exists>s'. r = Inr s' \<and> P xs s' w') \<or> (\<exists>e. r = Inl e \<and> Q e)"
    if "xs = us @ vs" "P us s w" "io_fold f vs s w = (r, w')" for us vs s w
    using that
  proof (induction vs arbitrary: us s w)
    case (Cons x vs)
    obtain r1 w1 where 1: "f x s w = (r1, w1)" by fastforce
    from assms(3) [OF Cons.prems(1,2) 1] consider
      s1 where "r1 = Inr s1" "P (us @ [x]) s1 w1" | e where "r1 = Inl e" "Q e" by auto
    then show ?case
    proof cases
      case (1 s1)
      then show ?thesis
        using Cons.IH [of "us @ [x]" s1 w1] Cons.prems(1,3) \<open>f x s w = _\<close> by (simp add: io_bind_step)
    next
      case (2 e)
      then show ?thesis using Cons.prems(3) 1 by (auto simp: io_bind_def)
    qed
  qed (auto simp: io_return_def)
  from this [OF _ assms(2,1)] show ?thesis by simp
qed

lemma io_fold_steps:
  assumes "P [] s w"
    and "\<And>us x vs s w. xs = us @ x # vs \<Longrightarrow> P us s w \<Longrightarrow> \<exists>s' w'. f x s w = (Inr s', w') \<and> P (us @ [x]) s' w'"
  shows "\<exists>s' w'. io_fold f xs s w = (Inr s', w') \<and> P xs s' w'"
proof -
  obtain r w' where r: "io_fold f xs s w = (r, w')" by fastforce
  have "(\<exists>s'. r = Inr s' \<and> P xs s' w') \<or> (\<exists>e. r = Inl e \<and> False)"
    by (rule io_fold_cases [OF r, of P]) (use assms in \<open>fastforce+\<close>)
  then show ?thesis using r by blast
qed

section \<open>Tools\<close>

record tools =
  t_aidl :: "string list \<Rightarrow> fs \<Rightarrow> int \<times> fs"
  t_sha1 :: "string \<Rightarrow> string"
  t_cmd_aidl :: string

text \<open>\<^verbatim>\<open>subprocess\<close> on the AIDL compiler: the exit status; what it writes is part of the world.\<close>

definition run_aidl :: "tools \<Rightarrow> string list \<Rightarrow> int io" where
  "run_aidl t cmd w = (case t_aidl t cmd (w_fs w) of (rc, fs') \<Rightarrow> (Inr rc, w\<lparr>w_fs := fs'\<rparr>))"

text \<open>\<^verbatim>\<open>exec_cmd\<close> on an AIDL command: whether the exit status is zero.\<close>

definition exec_cmd :: "tools \<Rightarrow> string list \<Rightarrow> bool io" where
  "exec_cmd t cmd = io_bind (run_aidl t cmd) (\<lambda>rc. io_return (rc = 0))"

section \<open>Facts about file systems\<close>

lemma map_of_os_remove: "map_of (os_remove p fs) q = (if q = p then None else map_of fs q)"
  by (induction fs) (auto simp: os_remove_def)

lemma map_of_mkdir1:
  "map_of (mkdir1 p fs) q = (if q = p \<and> map_of fs p = None then Some FDir else map_of fs q)"
  by (auto simp: mkdir1_def path_exists_def map_add_def split: option.splits)

lemma mkdirs_frame: "q \<notin> set ps \<or> map_of fs q \<noteq> None \<Longrightarrow> map_of (fold mkdir1 ps fs) q = map_of fs q"
proof (induction ps arbitrary: fs)
  case (Cons p ps)
  have "map_of (mkdir1 p fs) q = map_of fs q" using Cons.prems by (auto simp: map_of_mkdir1)
  then show ?case using Cons.IH [of "mkdir1 p fs"] Cons.prems by auto
qed simp

lemma mkdirs_some: "map_of fs q = Some n \<Longrightarrow> map_of (fold mkdir1 ps fs) q = Some n"
  using mkdirs_frame [of q ps fs] by simp

lemma parents_last: "p \<in> set (parents n p)"
  by (cases n) auto

lemma parents_prefix: "q \<in> set (parents n p) \<Longrightarrow> prefix q p"
proof (induction n arbitrary: p)
  case (Suc n)
  have "prefix (path_dirname p) p"
  proof -
    have pre: "prefix (rev (dropWhile P (rev h))) h" for P :: "char \<Rightarrow> bool" and h
      by (metis append_Nil2 prefixI rev_append rev_rev_ident suffix_dropWhile suffix_to_prefix)
    have "prefix (path_dirname p) (path_head p)"
      unfolding path_dirname_def Let_def by (simp add: pre)
    also have "prefix (path_head p) p" unfolding path_head_def by (rule pre)
    finally show ?thesis .
  qed
  then show ?case using Suc by (auto split: if_splits intro: prefix_order.trans)
qed simp

lemma os_makedirs_exists: "path_exists (os_makedirs p fs) p"
proof -
  have "p \<in> set ps \<Longrightarrow> map_of (fold mkdir1 ps fs) p \<noteq> None" for ps
  proof (induction ps arbitrary: fs)
    case (Cons q ps)
    show ?case
    proof (cases "map_of (mkdir1 q fs) p")
      case None
      then have "p \<noteq> q" by (auto simp: map_of_mkdir1 split: if_splits)
      then show ?thesis using Cons by simp
    next
      case (Some n)
      then show ?thesis using mkdirs_some [OF Some] by simp
    qed
  qed simp
  then show ?thesis using parents_last by (simp add: os_makedirs_def path_exists_def)
qed

lemma os_makedirs_old: "map_of fs q = Some n \<Longrightarrow> map_of (os_makedirs p fs) q = Some n"
  unfolding os_makedirs_def by (rule mkdirs_some)

lemma os_makedirs_frame: "\<not> prefix q p \<Longrightarrow> map_of (os_makedirs p fs) q = map_of fs q"
  unfolding os_makedirs_def using parents_prefix by (intro mkdirs_frame) blast

lemma under_move:
  "under src p \<Longrightarrow> under dst (move_path src dst p)"
  by (auto simp: under_def move_path_def prefix_def)

lemma move_path_inject:
  "under src p \<Longrightarrow> under src q \<Longrightarrow> move_path src dst p = move_path src dst q \<longleftrightarrow> p = q"
  by (auto simp: under_def move_path_def prefix_def)

lemma fold_dict_set_frame:
  "q \<notin> f ` fst ` set es \<Longrightarrow> map_of (fold (\<lambda>(p, n). dict_set (f p) n) es fs) q = map_of fs q"
  by (induction es arbitrary: fs) auto

lemma copy_below_frame: "\<not> under dst q \<Longrightarrow> map_of (copy_below keep src dst fs) q = map_of fs q"
  unfolding copy_below_def using under_move by (intro fold_dict_set_frame) auto

lemma fold_dict_set_get:
  assumes "distinct (map fst es)" "inj_on f (fst ` set es)" "(p, n) \<in> set es"
  shows "map_of (fold (\<lambda>(p, n). dict_set (f p) n) es fs) (f p) = Some n"
  using assms
proof (induction es arbitrary: fs)
  case (Cons e es)
  obtain q m where e: "e = (q, m)" by fastforce
  show ?case
  proof (cases "(p, n) = e")
    case True
    then have "p \<notin> fst ` set es" using Cons.prems(1) e by auto
    then have "f p \<notin> f ` fst ` set es" using Cons.prems(2) True e by (auto simp: inj_on_def)
    then show ?thesis using True e by (simp add: fold_dict_set_frame)
  next
    case False
    then show ?thesis using Cons e by (auto simp: inj_on_def)
  qed
qed simp

lemma copy_below_get:
  assumes "wf_dict fs" "map_of fs p = Some n" "under src p" "keep p n"
  shows "map_of (copy_below keep src dst fs) (move_path src dst p) = Some n"
  unfolding copy_below_def
proof (rule fold_dict_set_get)
  show "distinct (map fst (filter (\<lambda>(p, n). under src p \<and> keep p n) fs))"
    using assms(1) unfolding wf_dict_def by (rule distinct_map_filter)
  show "inj_on (move_path src dst) (fst ` set (filter (\<lambda>(p, n). under src p \<and> keep p n) fs))"
    by (auto simp: inj_on_def move_path_inject)
  show "(p, n) \<in> set (filter (\<lambda>(p, n). under src p \<and> keep p n) fs)"
    using assms map_of_SomeD by fastforce
qed

end
