(* ===== verification/Topo_Sort.thy ===== *)
theory Topo_Sort
  imports Prelude "HOL-Library.While_Combinator"
begin

text \<open>
  \<^verbatim>\<open>topological_sort\<close> of \<^verbatim>\<open>host/aidl_interface.py\<close>: Kahn's algorithm over a dict from a library to the
  list of libraries it depends on. The \<^verbatim>\<open>while\<close> loop is \<open>while_option\<close>, so a run that does not end
  would be \<open>None\<close>; it is proved that every run ends, that the order it returns is a permutation of
  the libraries with every dependency first, and that \<^verbatim>\<open>ValueError\<close> is raised exactly for cyclic
  dependencies.
\<close>

section \<open>The algorithm\<close>

type_synonym deps = "string list dict"

record topo =
  tp_queue :: "string list"
  tp_indegree :: "int dict"
  tp_sorted :: "string list"

text \<open>The inner loop that counts: \<^verbatim>\<open>indegree[dep] += 1\<close>.\<close>

definition count_dep :: "string \<Rightarrow> int dict \<Rightarrow> int dict res" where
  "count_dep dep ind = rbind (dict_get ind dep) (\<lambda>n. Inr (dict_set dep (n + 1) ind))"

definition indegrees :: "deps \<Rightarrow> int dict res" where
  "indegrees dependencies =
     rfold count_dep (concat (map snd dependencies)) (map (\<lambda>(lib, ds). (lib, 0)) dependencies)"

text \<open>The inner loop that relaxes the dependencies of the library taken off the queue.\<close>

definition relax :: "string \<Rightarrow> topo \<Rightarrow> topo res" where
  "relax dep st =
     rbind (dict_get (tp_indegree st) dep) (\<lambda>n.
       let st' = st\<lparr>tp_indegree := dict_set dep (n - 1) (tp_indegree st)\<rparr>
       in Inr (if n - 1 = 0 then st'\<lparr>tp_queue := tp_queue st' @ [dep]\<rparr> else st'))"

definition visit :: "deps \<Rightarrow> topo \<Rightarrow> topo res" where
  "visit dependencies st = (case tp_queue st of
       [] \<Rightarrow> Inr st
     | lib # queue \<Rightarrow> rbind (dict_get dependencies lib) (\<lambda>ds.
         rfold relax ds (st\<lparr>tp_queue := queue, tp_sorted := tp_sorted st @ [lib]\<rparr>)))"

definition topo_loop :: "deps \<Rightarrow> topo \<Rightarrow> topo res option" where
  "topo_loop dependencies st =
     while_option (\<lambda>r. case r of Inl e \<Rightarrow> False | Inr s \<Rightarrow> tp_queue s \<noteq> [])
       (\<lambda>r. rbind r (visit dependencies)) (Inr st)"

definition topo_start :: "deps \<Rightarrow> int dict \<Rightarrow> topo" where
  "topo_start dependencies ind =
     \<lparr>tp_queue = filter (\<lambda>lib. map_of ind lib = Some 0) (dict_keys dependencies),
      tp_indegree = ind, tp_sorted = []\<rparr>"

definition topological_sort :: "deps \<Rightarrow> string list res option" where
  "topological_sort dependencies =
     (case indegrees dependencies of
        Inl e \<Rightarrow> Some (Inl e)
      | Inr ind \<Rightarrow> map_option (\<lambda>r. rbind r (\<lambda>s.
            if length (tp_sorted s) = length dependencies then Inr (rev (tp_sorted s))
            else Inl (ValueError ''Cycle detected in dependencies'')))
          (topo_loop dependencies (topo_start dependencies ind)))"

section \<open>Counting\<close>

text \<open>Every dependency is itself a library of the dict.\<close>

definition closed_deps :: "deps \<Rightarrow> bool" where
  "closed_deps d \<longleftrightarrow> (\<forall>(lib, ds) \<in> set d. set ds \<subseteq> set (dict_keys d))"

definition dep_edges :: "deps \<Rightarrow> (string \<times> string) set" where
  "dep_edges d = {(lib, dep). \<exists>ds. map_of d lib = Some ds \<and> dep \<in> set ds}"

text \<open>The number of times a library is named by libraries outside of a set.\<close>

definition pending :: "deps \<Rightarrow> string set \<Rightarrow> string \<Rightarrow> nat" where
  "pending d S k = sum_list (map (\<lambda>(lib, ds). if lib \<in> S then 0 else count_list ds k) d)"

lemma pending_insert:
  assumes "wf_dict d" "map_of d lib = Some ds" "lib \<notin> S"
  shows "pending d (insert lib S) k + count_list ds k = pending d S k"
  using assms
proof (induction d)
  case (Cons e d)
  obtain l es where e: "e = (l, es)" by fastforce
  show ?case
  proof (cases "l = lib")
    case True
    then have "lib \<notin> set (dict_keys d)" using Cons.prems(1) e by (simp add: wf_dict_def)
    then have "pending d (insert lib S) k = pending d S k"
      unfolding pending_def by (intro arg_cong [where f = sum_list] map_cong) (auto simp: rev_image_eqI)
    then show ?thesis using True e Cons.prems by (simp add: pending_def)
  next
    case False
    then show ?thesis using Cons e by (auto simp: pending_def wf_dict_def)
  qed
qed simp

lemma pending_0_iff:
  assumes "wf_dict d"
  shows "pending d S k = 0 \<longleftrightarrow> (\<forall>lib. (lib, k) \<in> dep_edges d \<longrightarrow> lib \<in> S)"
proof -
  have "pending d S k = 0 \<longleftrightarrow> (\<forall>(lib, ds) \<in> set d. lib \<in> S \<or> k \<notin> set ds)"
    unfolding pending_def by (auto simp: count_list_0_iff split: if_splits)
  also have "\<dots> \<longleftrightarrow> (\<forall>lib. (lib, k) \<in> dep_edges d \<longrightarrow> lib \<in> S)"
    using in_dict_iff_map_of [OF assms] by (fastforce simp: dep_edges_def)
  finally show ?thesis .
qed

lemma count_dep_simps:
  "map_of ind x = Some n \<Longrightarrow> count_dep x ind = Inr (dict_set x (n + 1) ind)"
  "map_of ind x = None \<Longrightarrow> count_dep x ind = Inl (KeyError x)"
  by (simp_all add: count_dep_def dict_get_def)

lemma count_fold:
  assumes "set xs \<subseteq> set (dict_keys ind)" "wf_dict ind"
  shows "\<exists>ind'. rfold count_dep xs ind = Inr ind' \<and> dict_keys ind' = dict_keys ind \<and>
    (\<forall>k n. map_of ind k = Some n \<longrightarrow> map_of ind' k = Some (n + int (count_list xs k)))"
  using assms
proof (induction xs arbitrary: ind)
  case (Cons x xs)
  obtain n where n: "map_of ind x = Some n"
    using Cons.prems(1) in_keys_iff [of x ind] by auto
  have keys: "dict_keys (dict_set x (n + 1) ind) = dict_keys ind"
    using n by (rule dict_keys_set_old)
  obtain ind' where "rfold count_dep xs (dict_set x (n + 1) ind) = Inr ind'"
    "dict_keys ind' = dict_keys ind"
    "\<forall>k m. map_of (dict_set x (n + 1) ind) k = Some m \<longrightarrow> map_of ind' k = Some (m + int (count_list xs k))"
    using Cons.IH [of "dict_set x (n + 1) ind"] Cons.prems keys by auto
  then show ?case using n by (auto simp: count_dep_simps)
qed simp

lemma count_fold_missing:
  assumes "\<not> set xs \<subseteq> set (dict_keys ind)"
  shows "\<exists>k \<in> set xs - set (dict_keys ind). rfold count_dep xs ind = Inl (KeyError k)"
  using assms
proof (induction xs arbitrary: ind)
  case (Cons x xs)
  show ?case
  proof (cases "map_of ind x")
    case None
    then have "rfold count_dep (x # xs) ind = Inl (KeyError x)" "x \<notin> set (dict_keys ind)"
      by (simp_all only: count_dep_simps rfold.simps rbind_simps in_keys_iff) simp
    then show ?thesis by (metis DiffI list.set_intros(1))
  next
    case (Some n)
    then have x: "x \<in> set (dict_keys ind)" by (simp only: in_keys_iff) simp
    have keys: "set (dict_keys (dict_set x (n + 1) ind)) = set (dict_keys ind)"
      using dict_keys_set_old [OF Some] by metis
    have "\<not> set xs \<subseteq> set (dict_keys (dict_set x (n + 1) ind))"
      unfolding keys using Cons.prems x by simp
    then obtain k where "k \<in> set xs - set (dict_keys ind)"
      "rfold count_dep xs (dict_set x (n + 1) ind) = Inl (KeyError k)"
      using Cons.IH keys by blast
    then show ?thesis using Some by (auto simp: count_dep_simps)
  qed
qed simp

lemma start_keys: "dict_keys (map (\<lambda>(lib, ds). (lib, c)) d) = dict_keys d"
  by (induction d) auto

lemma start_lookup: "k \<in> set (dict_keys d) \<Longrightarrow> map_of (map (\<lambda>(lib, ds). (lib, c)) d) k = Some c"
  by (induction d) auto

lemma pending_empty: "pending d {} k = count_list (concat (map snd d)) k"
  by (induction d) (auto simp: pending_def count_list_append)

lemma indegrees_closed:
  assumes "wf_dict d" "closed_deps d"
  obtains ind where "indegrees d = Inr ind" "dict_keys ind = dict_keys d"
    "\<And>k. k \<in> set (dict_keys d) \<Longrightarrow> map_of ind k = Some (int (pending d {} k))"
proof -
  let ?z = "map (\<lambda>(lib, ds). (lib, 0)) d :: int dict"
  have "set (concat (map snd d)) \<subseteq> set (dict_keys ?z)" "wf_dict ?z"
    using assms by (auto simp: start_keys closed_deps_def wf_dict_def simp del: map_map) blast
  from count_fold [OF this] obtain ind where ind: "indegrees d = Inr ind"
    "dict_keys ind = dict_keys d"
    "\<forall>k n. map_of ?z k = Some n \<longrightarrow> map_of ind k = Some (n + int (count_list (concat (map snd d)) k))"
    unfolding indegrees_def start_keys by blast
  have "map_of ind k = Some (int (pending d {} k))" if "k \<in> set (dict_keys d)" for k
    using ind(3) start_lookup [OF that] by (fastforce simp: pending_empty)
  with ind(1,2) show thesis by (rule that)
qed

lemma indegrees_missing:
  assumes "\<not> closed_deps d"
  shows "\<exists>k. k \<notin> set (dict_keys d) \<and> indegrees d = Inl (KeyError k)"
proof -
  let ?z = "map (\<lambda>(lib, ds). (lib, 0)) d :: int dict"
  have "\<not> set (concat (map snd d)) \<subseteq> set (dict_keys ?z)"
    using assms by (force simp: start_keys closed_deps_def simp del: map_map)
  from count_fold_missing [OF this] show ?thesis
    unfolding indegrees_def start_keys by blast
qed

section \<open>The invariant\<close>

text \<open>
  \<open>todo\<close> holds the dependencies of the last sorted library that are still to be relaxed. The
  indegree of a library counts the naming libraries that are not sorted yet; a library has
  indegree zero exactly when it is sorted or queued; a sorted library comes after all those
  that name it.
\<close>

definition topo_inv :: "deps \<Rightarrow> string list \<Rightarrow> topo \<Rightarrow> bool" where
  "topo_inv d todo st \<longleftrightarrow>
     distinct (tp_sorted st @ tp_queue st) \<and>
     set (tp_sorted st @ tp_queue st) \<subseteq> set (dict_keys d) \<and>
     (\<forall>k \<in> set (dict_keys d).
        map_of (tp_indegree st) k = Some (int (pending d (set (tp_sorted st)) k + count_list todo k))) \<and>
     (\<forall>k \<in> set (dict_keys d). map_of (tp_indegree st) k = Some 0 \<longleftrightarrow> k \<in> set (tp_sorted st @ tp_queue st)) \<and>
     (\<forall>i < length (tp_sorted st). \<forall>lib. (lib, tp_sorted st ! i) \<in> dep_edges d \<longrightarrow>
        (\<exists>j < i. tp_sorted st ! j = lib))"

lemma topo_inv_start:
  assumes "wf_dict d" "indegrees d = Inr ind" "dict_keys ind = dict_keys d"
    and "\<And>k. k \<in> set (dict_keys d) \<Longrightarrow> map_of ind k = Some (int (pending d {} k))"
  shows "topo_inv d [] (topo_start d ind)"
  using assms by (auto simp: topo_inv_def topo_start_def wf_dict_def)

lemma topo_invD:
  assumes "topo_inv d todo st"
  shows "distinct (tp_sorted st @ tp_queue st)"
    and "set (tp_sorted st @ tp_queue st) \<subseteq> set (dict_keys d)"
    and "k \<in> set (dict_keys d) \<Longrightarrow>
      map_of (tp_indegree st) k = Some (int (pending d (set (tp_sorted st)) k + count_list todo k))"
    and "k \<in> set (dict_keys d) \<Longrightarrow>
      map_of (tp_indegree st) k = Some 0 \<longleftrightarrow> k \<in> set (tp_sorted st @ tp_queue st)"
    and "i < length (tp_sorted st) \<Longrightarrow> (lib, tp_sorted st ! i) \<in> dep_edges d \<Longrightarrow>
      \<exists>j < i. tp_sorted st ! j = lib"
  using assms unfolding topo_inv_def by blast+

lemma relax_inv:
  assumes inv: "topo_inv d (dep # todo) st" and dep: "dep \<in> set (dict_keys d)"
  shows "\<exists>st'. relax dep st = Inr st' \<and> topo_inv d todo st' \<and> tp_sorted st' = tp_sorted st"
proof -
  let ?n = "int (pending d (set (tp_sorted st)) dep + count_list todo dep)"
  let ?ind = "dict_set dep ?n (tp_indegree st)"
  have n: "map_of (tp_indegree st) dep = Some (?n + 1)"
    using topo_invD(3) [OF inv dep] by simp
  then have fresh: "dep \<notin> set (tp_sorted st @ tp_queue st)"
    using topo_invD(4) [OF inv dep] by simp
  let ?st = "st\<lparr>tp_indegree := ?ind,
    tp_queue := (if ?n = 0 then tp_queue st @ [dep] else tp_queue st)\<rparr>"
  have "relax dep st = Inr ?st"
    using n by (simp add: relax_def dict_get_def Let_def)
  moreover have "topo_inv d todo ?st"
    unfolding topo_inv_def
  proof (intro conjI ballI allI impI)
    show "distinct (tp_sorted ?st @ tp_queue ?st)"
      using topo_invD(1) [OF inv] fresh by auto
    show "set (tp_sorted ?st @ tp_queue ?st) \<subseteq> set (dict_keys d)"
      using topo_invD(2) [OF inv] dep by (simp del: set_map)
  next
    fix k assume k: "k \<in> set (dict_keys d)"
    show "map_of (tp_indegree ?st) k = Some (int (pending d (set (tp_sorted ?st)) k + count_list todo k))"
      using topo_invD(3) [OF inv k] by simp
    show "map_of (tp_indegree ?st) k = Some 0 \<longleftrightarrow> k \<in> set (tp_sorted ?st @ tp_queue ?st)"
      using topo_invD(4) [OF inv k] fresh by (cases "k = dep") simp_all
  next
    fix i lib assume "i < length (tp_sorted ?st)" "(lib, tp_sorted ?st ! i) \<in> dep_edges d"
    then show "\<exists>j < i. tp_sorted ?st ! j = lib"
      using topo_invD(5) [OF inv] by simp
  qed
  ultimately show ?thesis by simp
qed

lemma relax_all_inv:
  assumes "topo_inv d ds st" "set ds \<subseteq> set (dict_keys d)"
  shows "\<exists>st'. rfold relax ds st = Inr st' \<and> topo_inv d [] st' \<and> tp_sorted st' = tp_sorted st"
  using assms
proof (induction ds arbitrary: st)
  case (Cons dep ds)
  have dep: "dep \<in> set (dict_keys d)" and ds: "set ds \<subseteq> set (dict_keys d)"
    using Cons.prems(2) by (simp_all del: set_map)
  obtain st1 where "relax dep st = Inr st1" "topo_inv d ds st1" "tp_sorted st1 = tp_sorted st"
    using relax_inv [OF Cons.prems(1) dep] by blast
  then show ?case using Cons.IH [OF _ ds, of st1] by simp
qed simp

text \<open>Taking a library off the queue leaves its dependencies to be relaxed.\<close>

lemma pop_inv:
  assumes wf: "wf_dict d" and inv: "topo_inv d [] st" and q: "tp_queue st = lib # queue"
    and ds: "map_of d lib = Some ds"
  shows "topo_inv d ds (st\<lparr>tp_queue := queue, tp_sorted := tp_sorted st @ [lib]\<rparr>)" (is "topo_inv d ds ?st")
  unfolding topo_inv_def
proof (intro conjI ballI allI impI)
  have fresh: "lib \<notin> set (tp_sorted st)" using topo_invD(1) [OF inv] q by simp
  have lib: "lib \<in> set (dict_keys d)" using ds unfolding in_keys_iff by blast
  show "distinct (tp_sorted ?st @ tp_queue ?st)"
    using topo_invD(1) [OF inv] q by auto
  show "set (tp_sorted ?st @ tp_queue ?st) \<subseteq> set (dict_keys d)"
    using topo_invD(2) [OF inv] q by (simp del: set_map)
  {
    fix k assume k: "k \<in> set (dict_keys d)"
    show "map_of (tp_indegree ?st) k = Some (int (pending d (set (tp_sorted ?st)) k + count_list ds k))"
      using topo_invD(3) [OF inv k] pending_insert [OF wf ds fresh, of k] by simp
    show "map_of (tp_indegree ?st) k = Some 0 \<longleftrightarrow> k \<in> set (tp_sorted ?st @ tp_queue ?st)"
      using topo_invD(4) [OF inv k] q by simp
  next
    fix i l assume i: "i < length (tp_sorted ?st)" and e: "(l, tp_sorted ?st ! i) \<in> dep_edges d"
    show "\<exists>j < i. tp_sorted ?st ! j = l"
    proof (cases "i < length (tp_sorted st)")
      case True
      then obtain j where "j < i" "tp_sorted st ! j = l"
        using topo_invD(5) [OF inv True, of l] e by (simp add: nth_append) blast
      then show ?thesis using True by (intro exI [of _ j]) (simp add: nth_append)
    next
      case False
      then have "i = length (tp_sorted st)" using i by simp
      moreover have "pending d (set (tp_sorted st)) lib = 0"
        using topo_invD(3,4) [OF inv lib] q by simp
      ultimately have "l \<in> set (tp_sorted st)"
        using e pending_0_iff [OF wf] by (simp add: nth_append)
      then obtain j where "j < length (tp_sorted st)" "tp_sorted st ! j = l"
        unfolding in_set_conv_nth by blast
      then show ?thesis
        using \<open>i = _\<close> by (intro exI [of _ j]) (simp add: nth_append)
    qed
  }
qed

lemma visit_inv:
  assumes wf: "wf_dict d" and cl: "closed_deps d" and inv: "topo_inv d [] st" and q: "tp_queue st \<noteq> []"
  shows "\<exists>st'. visit d st = Inr st' \<and> topo_inv d [] st' \<and>
    length (tp_sorted st') = Suc (length (tp_sorted st))"
proof -
  obtain lib queue where lq: "tp_queue st = lib # queue" using q by (cases "tp_queue st") auto
  then have "lib \<in> set (dict_keys d)" using topo_invD(2) [OF inv] by simp
  then obtain ds where ds: "map_of d lib = Some ds" unfolding in_keys_iff by blast
  have "set ds \<subseteq> set (dict_keys d)"
    using cl map_of_SomeD [OF ds] by (auto simp: closed_deps_def simp del: set_map)
  from relax_all_inv [OF pop_inv [OF wf inv lq ds] this] show ?thesis
    using lq ds by (auto simp: visit_def dict_get_def)
qed

lemma sorted_le:
  assumes "topo_inv d [] st" "wf_dict d"
  shows "length (tp_sorted st) \<le> length d"
proof -
  have "length (tp_sorted st) = card (set (tp_sorted st))"
    using topo_invD(1) [OF assms(1)] distinct_card by fastforce
  also have "\<dots> \<le> card (set (dict_keys d))"
    using topo_invD(2) [OF assms(1)] by (intro card_mono) auto
  also have "\<dots> \<le> length d" using card_length [of "dict_keys d"] by simp
  finally show ?thesis .
qed

section \<open>Every run ends\<close>

definition topo_final :: "deps \<Rightarrow> topo \<Rightarrow> bool" where
  "topo_final d st \<longleftrightarrow> topo_inv d [] st \<and> tp_queue st = []"

lemma topo_loop_ends:
  assumes wf: "wf_dict d" and cl: "closed_deps d" and inv: "topo_inv d [] st"
  shows "\<exists>st'. topo_loop d st = Some (Inr st') \<and> topo_final d st'"
proof -
  let ?b = "\<lambda>r. case r of Inl e \<Rightarrow> False | Inr s \<Rightarrow> tp_queue s \<noteq> []"
  let ?P = "\<lambda>r. \<exists>s. r = Inr s \<and> topo_inv d [] s"
  let ?f = "\<lambda>r. length d - length (tp_sorted (projr r))"
  have step: "?P (rbind r (visit d)) \<and> ?f (rbind r (visit d)) < ?f r" if P: "?P r" and b: "?b r" for r
  proof -
    obtain s where s: "r = Inr s" "topo_inv d [] s" "tp_queue s \<noteq> []" using P b by auto
    then obtain t where t: "visit d s = Inr t" "topo_inv d [] t"
      "length (tp_sorted t) = Suc (length (tp_sorted s))"
      using visit_inv [OF wf cl] by blast
    with sorted_le [OF t(2) wf] s(1) show ?thesis by simp
  qed
  have start: "?P (Inr st)" using inv by simp
  obtain r where r: "while_option ?b (\<lambda>r. rbind r (visit d)) (Inr st) = Some r"
    using measure_while_option_Some [of ?P ?b "\<lambda>r. rbind r (visit d)" ?f, OF step start] by blast
  have "?P r" using while_option_rule [where P = ?P, OF _ r start] step by blast
  moreover have "\<not> ?b r" by (rule while_option_stop [OF r])
  ultimately show ?thesis using r by (auto simp: topo_loop_def topo_final_def)
qed

section \<open>What the order is\<close>

text \<open>An order of all the libraries in which every library comes after those it depends on.\<close>

definition topo_order :: "deps \<Rightarrow> string list \<Rightarrow> bool" where
  "topo_order d ls \<longleftrightarrow> distinct ls \<and> set ls = set (dict_keys d) \<and>
     (\<forall>i < length ls. \<forall>ds. map_of d (ls ! i) = Some ds \<longrightarrow> set ds \<subseteq> set (take i ls))"

lemma dep_edges_keys: "(lib, dep) \<in> dep_edges d \<Longrightarrow> lib \<in> set (dict_keys d)"
  unfolding dep_edges_def in_keys_iff by blast

lemma closed_deps_edges: "closed_deps d \<Longrightarrow> (lib, dep) \<in> dep_edges d \<Longrightarrow> dep \<in> set (dict_keys d)"
  unfolding dep_edges_def closed_deps_def by (auto dest!: map_of_SomeD simp del: set_map)

lemma topo_final_order:
  assumes wf: "wf_dict d" and cl: "closed_deps d" and fin: "topo_final d st"
    and len: "length (tp_sorted st) = length d"
  shows "topo_order d (rev (tp_sorted st))"
proof -
  let ?s = "tp_sorted st"
  have inv: "topo_inv d [] st" and dist: "distinct ?s" and sub: "set ?s \<subseteq> set (dict_keys d)"
    using fin topo_invD(1,2) [of d "[]" st] by (auto simp: topo_final_def simp del: set_map)
  have keys: "set ?s = set (dict_keys d)"
    using sub distinct_card [OF dist] distinct_card [of "dict_keys d"] wf len
    by (intro card_subset_eq) (simp_all add: wf_dict_def del: set_map)
  have "dep \<in> set (take i (rev ?s))"
    if i: "i < length ?s" and ds: "map_of d (rev ?s ! i) = Some ds" "dep \<in> set ds" for i ds dep
  proof -
    let ?k = "length ?s - Suc i"
    have lib: "rev ?s ! i = ?s ! ?k" and k: "?k < length ?s" using i by (simp_all add: rev_nth)
    have edge: "(?s ! ?k, dep) \<in> dep_edges d" using ds lib by (auto simp: dep_edges_def)
    then have "dep \<in> set ?s" using closed_deps_edges [OF cl] keys by blast
    then obtain m where m: "m < length ?s" "?s ! m = dep" unfolding in_set_conv_nth by blast
    then obtain j where j: "j < m" "?s ! j = ?s ! ?k" using topo_invD(5) [OF inv m(1)] edge by blast
    then have "?k < m" using m(1) k dist nth_eq_iff_index_eq [of ?s j ?k] by simp
    then have "length ?s - Suc m < i" "rev ?s ! (length ?s - Suc m) = dep"
      using m by (simp_all add: rev_nth)
    then show ?thesis using i by (metis in_set_conv_nth length_rev length_take min.absorb4 nth_take)
  qed
  then show ?thesis using dist keys by (auto simp: topo_order_def simp del: set_map)
qed

lemma topo_final_cycle:
  assumes wf: "wf_dict d" and fin: "topo_final d st" and len: "length (tp_sorted st) \<noteq> length d"
  shows "\<not> acyclic (dep_edges d)"
proof
  assume ac: "acyclic (dep_edges d)"
  let ?s = "tp_sorted st"
  let ?U = "set (dict_keys d) - set ?s"
  have inv: "topo_inv d [] st" and q: "tp_queue st = []" using fin by (auto simp: topo_final_def)
  have dist: "distinct ?s" and sub: "set ?s \<subseteq> set (dict_keys d)"
    using topo_invD(1,2) [OF inv] by (simp_all del: set_map)
  have "set ?s \<noteq> set (dict_keys d)"
    using len distinct_card [OF dist] distinct_card [of "dict_keys d"] wf by (auto simp: wf_dict_def)
  then obtain x where "x \<in> ?U" using sub by blast
  have "dep_edges d \<subseteq> set (dict_keys d) \<times> (\<Union>(_, ds) \<in> set d. set ds)"
    by (auto simp: dep_edges_def dest!: map_of_SomeD) (force+)
  then have "finite (dep_edges d)" by (rule finite_subset) auto
  then have "wf (dep_edges d)" using ac by (rule finite_acyclic_wf)
  then obtain z where z: "z \<in> ?U" "\<And>y. (y, z) \<in> dep_edges d \<Longrightarrow> y \<notin> ?U"
    using \<open>x \<in> ?U\<close> by (rule wfE_min) blast
  then have "\<forall>lib. (lib, z) \<in> dep_edges d \<longrightarrow> lib \<in> set ?s" using dep_edges_keys by blast
  then have "pending d (set ?s) z = 0" using pending_0_iff [OF wf] by blast
  then have "map_of (tp_indegree st) z = Some 0" using topo_invD(3) [OF inv, of z] z(1) by simp
  then show False using topo_invD(4) [OF inv, of z] z(1) q by simp
qed

lemma topo_order_acyclic:
  assumes "topo_order d ls"
  shows "acyclic (dep_edges d)"
proof -
  define idx where "idx k = length (takeWhile (\<lambda>x. x \<noteq> k) ls)" for k
  have "idx dep < idx lib" if e: "(lib, dep) \<in> dep_edges d" for lib dep
  proof -
    have "lib \<in> set ls" using dep_edges_keys [OF e] assms by (simp add: topo_order_def)
    then have i: "idx lib < length ls" "ls ! idx lib = lib"
      unfolding idx_def by (induction ls) auto
    obtain ds where "map_of d lib = Some ds" "dep \<in> set ds" using e by (auto simp: dep_edges_def)
    moreover have "map_of d (ls ! idx lib) = Some es \<Longrightarrow> set es \<subseteq> set (take (idx lib) ls)" for es
      using assms i(1) unfolding topo_order_def by blast
    ultimately have "dep \<in> set (take (idx lib) ls)" unfolding i(2) by blast
    then obtain j where "j < idx lib" "ls ! j = dep" by (auto simp: in_set_conv_nth)
    then show ?thesis
      using i(1) nth_mem [of j "takeWhile (\<lambda>x. x \<noteq> dep) ls"] set_takeWhileD [of "ls ! j"]
      by (metis (mono_tags, lifting) idx_def leI order.strict_trans2 takeWhile_nth)
  qed
  then have "(dep_edges d)\<inverse> \<subseteq> measure idx" by auto
  then have "wf ((dep_edges d)\<inverse>)" by (rule wf_subset [OF wf_measure])
  then show ?thesis using wf_acyclic acyclic_converse by blast
qed

section \<open>What the function returns\<close>

lemma topological_sort_missing:
  assumes "\<not> closed_deps d"
  shows "\<exists>k. k \<notin> set (dict_keys d) \<and> topological_sort d = Some (Inl (KeyError k))"
  using indegrees_missing [OF assms] by (auto simp: topological_sort_def simp del: set_map)

lemma topological_sort_closed:
  assumes wf: "wf_dict d" and cl: "closed_deps d"
  shows "\<exists>st. topo_final d st \<and> topological_sort d = Some
    (if length (tp_sorted st) = length d then Inr (rev (tp_sorted st))
     else Inl (ValueError ''Cycle detected in dependencies''))"
proof -
  obtain ind where ind: "indegrees d = Inr ind" "topo_inv d [] (topo_start d ind)"
    using indegrees_closed [OF assms] topo_inv_start [OF wf] by metis
  then show ?thesis
    using topo_loop_ends [OF wf cl] by (fastforce simp: topological_sort_def)
qed

lemma topological_sort_acyclic:
  assumes "wf_dict d" "closed_deps d" "acyclic (dep_edges d)"
  shows "\<exists>ls. topological_sort d = Some (Inr ls) \<and> topo_order d ls"
proof -
  obtain st where st: "topo_final d st" and r: "topological_sort d = Some
    (if length (tp_sorted st) = length d then Inr (rev (tp_sorted st))
     else Inl (ValueError ''Cycle detected in dependencies''))"
    using topological_sort_closed [OF assms(1,2)] by blast
  have "length (tp_sorted st) = length d" using topo_final_cycle [OF assms(1) st] assms(3) by blast
  then show ?thesis using r topo_final_order [OF assms(1,2) st] by simp
qed

lemma topological_sort_cyclic:
  assumes "wf_dict d" "closed_deps d" "\<not> acyclic (dep_edges d)"
  shows "topological_sort d = Some (Inl (ValueError ''Cycle detected in dependencies''))"
proof -
  obtain st where st: "topo_final d st" and r: "topological_sort d = Some
    (if length (tp_sorted st) = length d then Inr (rev (tp_sorted st))
     else Inl (ValueError ''Cycle detected in dependencies''))"
    using topological_sort_closed [OF assms(1,2)] by blast
  have "length (tp_sorted st) \<noteq> length d"
    using topo_final_order [OF assms(1,2) st] topo_order_acyclic assms(3) by blast
  then show ?thesis using r by simp
qed

section \<open>The contract\<close>

text \<open>
  What the callers rely on: the sort always returns; an order it returns is a topological one;
  it fails for a dependency that is not a key, or for a cycle.
\<close>

locale build_order =
  fixes sort :: "deps \<Rightarrow> string list res option"
  assumes order_missing: "\<not> closed_deps d \<Longrightarrow> \<exists>k. sort d = Some (Inl (KeyError k))"
    and order_ok: "wf_dict d \<Longrightarrow> closed_deps d \<Longrightarrow> acyclic (dep_edges d) \<Longrightarrow>
      \<exists>ls. sort d = Some (Inr ls) \<and> topo_order d ls"
    and order_cycle: "wf_dict d \<Longrightarrow> closed_deps d \<Longrightarrow> \<not> acyclic (dep_edges d) \<Longrightarrow>
      sort d = Some (Inl (ValueError ''Cycle detected in dependencies''))"
begin

lemma total: "wf_dict d \<Longrightarrow> \<exists>r. sort d = Some r"
  using order_missing order_ok order_cycle by blast

lemma returns_order:
  assumes "wf_dict d" "sort d = Some (Inr ls)"
  shows "topo_order d ls" "closed_deps d" "acyclic (dep_edges d)"
  using assms order_missing [of d] order_ok [of d] order_cycle [of d] by auto

lemma returns_iff:
  "wf_dict d \<Longrightarrow> (\<exists>ls. sort d = Some (Inr ls)) \<longleftrightarrow> closed_deps d \<and> acyclic (dep_edges d)"
  using returns_order order_ok by blast

end

interpretation topo: build_order topological_sort
  using topological_sort_missing topological_sort_acyclic topological_sort_cyclic
  by unfold_locales blast+

end
