(* ===== verification/Lib_Deps.thy ===== *)
theory Lib_Deps
  imports Py_IO Topo_Sort "HOL-Library.Product_Lexorder"
begin

text \<open>
  Finding and loading the interfaces (\<^verbatim>\<open>load_interfaces\<close>) and the build order of their libraries
  (\<^verbatim>\<open>generate_libraries_dependencies\<close>) of \<^verbatim>\<open>host/aidl_interface.py\<close>. The second works on whatever
  \<open>build_order\<close> provides and is used with the topological sort.
\<close>

section \<open>Locating and loading\<close>

definition INTERFACE_DEF_JSON :: string where
  "INTERFACE_DEF_JSON = ''interface.json''"

definition INTERFACE_DEF_YAML :: string where
  "INTERFACE_DEF_YAML = ''interface.yaml''"

text \<open>The directories to skip: those of the environment variable, then the defaults.\<close>

definition skip_dirs :: "string \<Rightarrow> string list" where
  "skip_dirs env =
     (let defaults = [''examples'', ''docs'', ''.git'', ''site'']
      in py_split_on CHR '','' (if env = [] then py_join '','' defaults
           else env @ '','' @ py_join '','' defaults))"

definition dir_location :: "fs \<Rightarrow> string \<Rightarrow> string list" where
  "dir_location fs d =
     (let files = map path_basename (dir_file_paths fs d)
      in if INTERFACE_DEF_JSON \<in> set files then [path_join d INTERFACE_DEF_JSON]
         else if INTERFACE_DEF_YAML \<in> set files then [path_join d INTERFACE_DEF_YAML]
         else [])"

definition interface_locations :: "string \<Rightarrow> string list \<Rightarrow> fs \<Rightarrow> string list" where
  "interface_locations env roots fs = concat (map (\<lambda>root.
     concat (map (dir_location fs)
       (walk_dirs (map (path_join root) (skip_dirs env)) fs root))) roots)"

definition interface_sort_key :: "string \<Rightarrow> nat \<times> string \<times> string" where
  "interface_sort_key loc =
     (let parent = path_basename (path_dirname loc)
      in (if parent = ''current'' then 1 else 0, parent, loc))"

text \<open>The attributes of the class, which stay when there is no definition file.\<close>

definition empty_interface :: "string \<Rightarrow> AidlInterface" where
  "empty_interface root = \<lparr>base_name = [], srcs = [], interface_root = root,
     interface_root_stable = [], interface_gen_dir = [], iface_imports = [], import_versions = [],
     versions = [], versions_with_info = [], stability = Some [], module_version = None,
     frozen_location = ''stable'', stable_aidl_subdir = ''aidl'', layout = ''central'',
     workspace_root = [], interface_root_out = [], interface_api_dir_out = []\<rparr>"

definition open_interface ::
  "(string \<Rightarrow> string) \<Rightarrow> fs \<Rightarrow> string list \<Rightarrow> string \<Rightarrow> string \<Rightarrow> AidlInterface res" where
  "open_interface realpath fs roots out_dir loc =
     (let root = realpath (path_dirname loc);
          doc = (if path_exists fs (path_join root INTERFACE_DEF_JSON)
                 then map_of fs (path_join root INTERFACE_DEF_JSON)
                 else map_of fs (path_join root INTERFACE_DEF_YAML))
      in case doc of
           None \<Rightarrow> Inr (empty_interface root)
         | Some (FDef data) \<Rightarrow> load_interface realpath roots (path_dirname loc) out_dir data
         | Some n \<Rightarrow> Inl (ValueError root))"

definition load_all ::
  "(string \<Rightarrow> string) \<Rightarrow> string \<Rightarrow> string list \<Rightarrow> string \<Rightarrow> fs \<Rightarrow> AidlInterface list res" where
  "load_all realpath env roots out_dir fs =
     rmap (open_interface realpath fs roots out_dir)
       (sort_key interface_sort_key (interface_locations env roots fs))"

definition by_base_name :: "AidlInterface list \<Rightarrow> AidlInterface dict" where
  "by_base_name all_loaded = dict_of (map (\<lambda>i. (base_name i, i)) all_loaded)"

definition load_interfaces ::
  "(string \<Rightarrow> string) \<Rightarrow> string \<Rightarrow> string list \<Rightarrow> string \<Rightarrow> fs \<Rightarrow> AidlInterface dict res" where
  "load_interfaces realpath env roots out_dir fs =
     rbind (load_all realpath env roots out_dir fs) (\<lambda>all_loaded. Inr (by_base_name all_loaded))"

section \<open>Library targets\<close>

definition lib_target :: "string \<Rightarrow> string \<Rightarrow> string" where
  "lib_target name version = name @ ''-v'' @ version @ ''-cpp''"

definition resolve_lib_deps_for_current :: "AidlInterface \<Rightarrow> string list res" where
  "resolve_lib_deps_for_current interface =
     rbind (next_version interface) (\<lambda>nv. rbind (get_imports interface nv) (\<lambda>imps.
       Inr (map (\<lambda>(imprt, pin). if pin = IMPORT_VERSION_UNPINNED
              then lib_target imprt ''current'' else lib_target imprt pin) imps)))"

text \<open>The targets of an interface: its frozen versions, and its current one.\<close>

definition register_interface :: "string \<times> AidlInterface \<Rightarrow> deps \<Rightarrow> deps res" where
  "register_interface e d = (case e of (name, interface) \<Rightarrow>
     (let d' = foldl (\<lambda>d (ver, libs). dict_set (lib_target name ver) (map (\<lambda>lib. lib @ ''-cpp'') libs) d)
            d (versions_with_info interface)
      in rbind (resolve_lib_deps_for_current interface)
           (\<lambda>libs. Inr (dict_set (lib_target name ''current'') libs d'))))"

text \<open>The target of a snapshot directory, unless it is there already.\<close>

definition snapshot_deps :: "AidlInterface \<Rightarrow> string list" where
  "snapshot_deps snap = map (\<lambda>(imprt, pin). (case pin of
       Some v \<Rightarrow> if v = CURRENT_VERSION then lib_target imprt ''current'' else lib_target imprt v
     | None \<Rightarrow> lib_target imprt ''current'')) (import_versions snap)"

definition register_snapshot :: "AidlInterface \<Rightarrow> deps \<Rightarrow> deps" where
  "register_snapshot snap d =
     (let version_label = path_basename (interface_root snap);
          target = lib_target (base_name snap) version_label
      in if version_label = CURRENT_VERSION \<or> target \<in> set (dict_keys d) then d
         else dict_set target (snapshot_deps snap) d)"

definition lib_deps_dict :: "AidlInterface dict \<Rightarrow> AidlInterface list \<Rightarrow> deps res" where
  "lib_deps_dict interfaces all_loaded =
     rbind (rfold register_interface interfaces []) (\<lambda>d. Inr (fold register_snapshot all_loaded d))"

definition check_registered :: "deps \<Rightarrow> unit res" where
  "check_registered d = (case find (\<lambda>dep. dep \<notin> set (dict_keys d)) (concat (map snd d)) of
       Some dep \<Rightarrow> Inl (RuntimeError dep)
     | None \<Rightarrow> Inr ())"

definition dep_line :: "deps \<Rightarrow> string \<Rightarrow> string" where
  "dep_line d lib = lib @ '': '' @ py_join '' '' (the (map_of d lib))"

text \<open>The lines of \<^verbatim>\<open>dependencies.txt\<close>; \<^verbatim>\<open>None\<close> would be a sort that does not return.\<close>

definition dependency_lines :: "(deps \<Rightarrow> string list res option) \<Rightarrow> deps \<Rightarrow> string list res option" where
  "dependency_lines sort_libs d =
     (case check_registered d of
        Inl e \<Rightarrow> Some (Inl e)
      | Inr _ \<Rightarrow> map_option (\<lambda>r. rbind r (\<lambda>libs. Inr (map (dep_line d) libs))) (sort_libs d))"

definition generate_libraries_dependencies ::
  "AidlInterface dict \<Rightarrow> AidlInterface list \<Rightarrow> string list res option" where
  "generate_libraries_dependencies interfaces all_loaded =
     (case lib_deps_dict interfaces all_loaded of
        Inl e \<Rightarrow> Some (Inl e)
      | Inr d \<Rightarrow> dependency_lines topological_sort d)"

section \<open>The build order\<close>

lemma closed_deps_concat: "closed_deps d \<longleftrightarrow> set (concat (map snd d)) \<subseteq> set (dict_keys d)"
  unfolding closed_deps_def by fastforce

lemma check_registered_iff: "check_registered d = Inr () \<longleftrightarrow> closed_deps d"
proof -
  have "check_registered d = Inr () \<longleftrightarrow>
      find (\<lambda>dep. dep \<notin> set (dict_keys d)) (concat (map snd d)) = None"
    unfolding check_registered_def by (simp split: option.splits)
  also have "\<dots> \<longleftrightarrow> closed_deps d" unfolding find_None_iff closed_deps_concat by blast
  finally show ?thesis .
qed

lemma check_registered_error:
  assumes "check_registered d = Inl e"
  shows "\<exists>dep. dep \<in> set (concat (map snd d)) \<and> dep \<notin> set (dict_keys d) \<and> e = RuntimeError dep"
proof -
  obtain dep where dep: "find (\<lambda>dep. dep \<notin> set (dict_keys d)) (concat (map snd d)) = Some dep"
    "e = RuntimeError dep"
    using assms unfolding check_registered_def by (auto split: option.splits)
  then have "dep \<in> set (concat (map snd d))" "dep \<notin> set (dict_keys d)"
    unfolding find_Some_iff by (metis nth_mem, metis)
  with dep(2) show ?thesis by blast
qed

context build_order
begin

lemma lines_total: "wf_dict d \<Longrightarrow> \<exists>r. dependency_lines sort d = Some r"
  using total [of d] by (auto simp: dependency_lines_def split: sum.splits)

lemma lines_ok:
  assumes "wf_dict d" "dependency_lines sort d = Some (Inr ls)"
  shows "\<exists>libs. topo_order d libs \<and> ls = map (dep_line d) libs"
  using assms returns_order(1) [OF assms(1)]
  by (auto simp: dependency_lines_def rbind_eq_Inr split: sum.splits)

text \<open>An error is an unregistered target or a cycle, and never a \<^verbatim>\<open>KeyError\<close> of the sort.\<close>

lemma lines_error:
  assumes "wf_dict d" "dependency_lines sort d = Some (Inl e)"
  shows "\<not> closed_deps d \<and> (\<exists>dep. e = RuntimeError dep \<and> dep \<notin> set (dict_keys d)) \<or>
    closed_deps d \<and> \<not> acyclic (dep_edges d) \<and> e = ValueError ''Cycle detected in dependencies''"
proof (cases "closed_deps d")
  case True
  then have "check_registered d = Inr ()" by (simp add: check_registered_iff)
  then have "sort d = Some (Inl e)"
    using assms(2) by (auto simp: dependency_lines_def rbind_eq_Inl)
  then show ?thesis using order_ok [OF assms(1) True] order_cycle [OF assms(1) True] True by auto
next
  case False
  then obtain e' where "check_registered d = Inl e'"
    using check_registered_iff [of d] by (cases "check_registered d") auto
  then show ?thesis using check_registered_error [of d e'] assms(2) False
    by (auto simp: dependency_lines_def simp del: set_map)
qed

end

section \<open>What is registered\<close>

lemma foldl_targets_wf:
  "wf_dict d \<Longrightarrow> wf_dict (foldl (\<lambda>d (ver, libs). dict_set (f ver) (g libs) d) d vs)"
  by (induction vs arbitrary: d) auto

lemma register_interface_wf: "register_interface e d = Inr d' \<Longrightarrow> wf_dict d \<Longrightarrow> wf_dict d'"
  by (cases e) (auto simp: register_interface_def rbind_eq_Inr Let_def foldl_targets_wf)

lemma register_snapshot_wf: "wf_dict d \<Longrightarrow> wf_dict (register_snapshot s d)"
  by (simp add: register_snapshot_def Let_def)

lemma fold_snapshots_wf: "wf_dict d \<Longrightarrow> wf_dict (fold register_snapshot ss d)"
  by (induction ss arbitrary: d) (simp_all add: register_snapshot_wf)

lemma lib_deps_dict_wf: "lib_deps_dict interfaces all_loaded = Inr d \<Longrightarrow> wf_dict d"
  unfolding lib_deps_dict_def rbind_eq_Inr
  using rfold_invariant [where P = wf_dict and f = register_interface] register_interface_wf
  by (metis Inr_inject fold_snapshots_wf wf_dict_Nil)

text \<open>A snapshot never replaces what is registered, and is registered itself.\<close>

lemma register_snapshot_keeps: "map_of d t = Some ds \<Longrightarrow> map_of (register_snapshot s d) t = Some ds"
  using in_keys_iff [of t d] by (auto simp: register_snapshot_def Let_def simp del: set_map)

lemma fold_snapshots_keeps:
  "map_of d t = Some ds \<Longrightarrow> map_of (fold register_snapshot ss d) t = Some ds"
  by (induction ss arbitrary: d) (simp_all add: register_snapshot_keeps)

lemma register_snapshot_adds:
  assumes "path_basename (interface_root s) \<noteq> CURRENT_VERSION"
  shows "\<exists>ds. map_of (register_snapshot s d) (lib_target (base_name s) (path_basename (interface_root s))) = Some ds"
  using assms in_keys_iff [of "lib_target (base_name s) (path_basename (interface_root s))" d]
  by (auto simp: register_snapshot_def Let_def simp del: set_map)

lemma fold_snapshots_adds:
  assumes "s \<in> set ss" "path_basename (interface_root s) \<noteq> CURRENT_VERSION"
  shows "\<exists>ds. map_of (fold register_snapshot ss d) (lib_target (base_name s) (path_basename (interface_root s))) = Some ds"
  using assms(1)
proof (induction ss arbitrary: d)
  case (Cons s' ss)
  show ?case
  proof (cases "s = s'")
    case True
    obtain ds where "map_of (register_snapshot s d) (lib_target (base_name s) (path_basename (interface_root s))) = Some ds"
      using register_snapshot_adds [OF assms(2)] by blast
    from fold_snapshots_keeps [OF this] show ?thesis using True by simp
  next
    case False
    then show ?thesis using Cons by simp
  qed
qed simp

section \<open>The current interface wins\<close>

definition is_current :: "string \<Rightarrow> bool" where
  "is_current loc \<longleftrightarrow> path_basename (path_dirname loc) = ''current''"

lemma sorted_flags: "sorted (map (\<lambda>loc. fst (interface_sort_key loc)) (sort_key interface_sort_key locs))"
proof -
  have "sorted_wrt (\<lambda>x y. interface_sort_key x \<le> interface_sort_key y) (sort_key interface_sort_key locs)"
    using sorted_sort_key [of interface_sort_key locs] by (simp add: sorted_map)
  then have "sorted_wrt (\<lambda>x y. fst (interface_sort_key x) \<le> fst (interface_sort_key y))
      (sort_key interface_sort_key locs)"
    by (rule sorted_wrt_mono_rel [rotated]) (auto simp: less_eq_prod_def)
  then show ?thesis by (simp add: sorted_map)
qed

lemma flag_iff: "fst (interface_sort_key loc) = (if is_current loc then 1 else 0)"
  by (simp add: interface_sort_key_def is_current_def Let_def)

text \<open>In a list whose flagged elements come last, the last value stored for a key is a flagged one.\<close>

lemma flagged_last_wins:
  fixes fl :: "'a \<Rightarrow> nat"
  assumes "list_all2 (\<lambda>x y. g x = Inr y) xs ys" "sorted (map fl xs)"
    and "x \<in> set xs" "fl x = 1" "g x = Inr y" "\<forall>x \<in> set xs. fl x \<le> 1"
  shows "\<exists>x' \<in> set xs. fl x' = 1 \<and> (\<exists>z. g x' = Inr z \<and> f z = f y \<and>
    map_of (rev (map (\<lambda>i. (f i, i)) ys)) (f y) = Some z)"
  using assms
proof (induction xs arbitrary: ys rule: rev_induct)
  case (snoc x0 xs)
  obtain ys0 y0 where ys: "ys = ys0 @ [y0]" "list_all2 (\<lambda>x y. g x = Inr y) xs ys0" "g x0 = Inr y0"
    using snoc.prems(1) by (auto simp: list_all2_append1 list_all2_Cons1)
  show ?case
  proof (cases "f y0 = f y")
    case True
    have "fl x \<le> fl x0" using snoc.prems(2,3) by (auto simp: sorted_append)
    then have "fl x0 = 1" using snoc.prems(4,6) by fastforce
    then show ?thesis using True ys by (intro bexI [of _ x0]) auto
  next
    case False
    then have "x \<noteq> x0" using ys(3) snoc.prems(5) by auto
    then have "\<exists>x' \<in> set xs. fl x' = 1 \<and> (\<exists>z. g x' = Inr z \<and> f z = f y \<and>
        map_of (rev (map (\<lambda>i. (f i, i)) ys0)) (f y) = Some z)"
      using snoc.IH [OF ys(2)] snoc.prems by (auto simp: sorted_append)
    then show ?thesis using False ys(1) by auto
  qed
qed simp

lemma current_last:
  assumes "load_interfaces realpath env roots out fs = Inr d"
    and "loc \<in> set (interface_locations env roots fs)" "is_current loc"
    and "open_interface realpath fs roots out loc = Inr i"
  shows "\<exists>loc' \<in> set (interface_locations env roots fs). is_current loc' \<and>
    (\<exists>i'. open_interface realpath fs roots out loc' = Inr i' \<and> base_name i' = base_name i \<and>
       map_of d (base_name i) = Some i')"
proof -
  let ?locs = "sort_key interface_sort_key (interface_locations env roots fs)"
  obtain all where all: "rmap (open_interface realpath fs roots out) ?locs = Inr all" "d = by_base_name all"
    using assms(1) by (auto simp: load_interfaces_def load_all_def rbind_eq_Inr)
  have "\<exists>loc' \<in> set ?locs. fst (interface_sort_key loc') = 1 \<and>
      (\<exists>i'. open_interface realpath fs roots out loc' = Inr i' \<and> base_name i' = base_name i \<and>
        map_of (rev (map (\<lambda>i. (base_name i, i)) all)) (base_name i) = Some i')"
    by (rule flagged_last_wins [OF all(1) [unfolded rmap_eq_Inr_iff] sorted_flags])
       (use assms in \<open>simp_all add: flag_iff\<close>)
  then show ?thesis
    unfolding all(2) by_base_name_def map_of_dict_of by (auto simp: flag_iff split: if_splits)
qed

section \<open>Registered targets\<close>

lemma map_of_foldl_targets:
  assumes "inj f" "wf_dict vs"
  shows "map_of (foldl (\<lambda>d (ver, libs). dict_set (f ver) (g libs) d) d vs) (f v) =
    (case map_of vs v of Some libs \<Rightarrow> Some (g libs) | None \<Rightarrow> map_of d (f v))"
  using assms(2)
proof (induction vs arbitrary: d)
  case (Cons e vs)
  obtain u libs where e: "e = (u, libs)" by fastforce
  have wf: "wf_dict vs" and u: "map_of vs u = None"
    using Cons.prems e by (auto simp: wf_dict_def map_of_eq_None_iff)
  show ?case
    using Cons.IH [OF wf] assms(1) u e by (cases "v = u") (simp_all add: inj_eq split: option.splits)
qed simp

lemma lib_target_inj: "inj (lib_target name)"
  by (auto simp: inj_def lib_target_def)

text \<open>Registering one interface: its own targets are as its definition says.\<close>

lemma register_interface_targets:
  assumes "register_interface (name, i) d = Inr d'" "wf_dict (versions_with_info i)"
    and "\<forall>v. map_of (versions_with_info i) v \<noteq> None \<longrightarrow> v \<noteq> ''current''"
  shows "map_of (versions_with_info i) v = Some libs \<Longrightarrow>
      map_of d' (lib_target name v) = Some (map (\<lambda>lib. lib @ ''-cpp'') libs)"
    and "\<exists>libs. resolve_lib_deps_for_current i = Inr libs \<and> map_of d' (lib_target name ''current'') = Some libs"
proof -
  obtain libs' where r: "resolve_lib_deps_for_current i = Inr libs'"
    "d' = dict_set (lib_target name ''current'') libs'
      (foldl (\<lambda>d (ver, libs). dict_set (lib_target name ver) (map (\<lambda>lib. lib @ ''-cpp'') libs) d)
        d (versions_with_info i))"
    using assms(1) by (auto simp: register_interface_def rbind_eq_Inr Let_def)
  then show "\<exists>libs. resolve_lib_deps_for_current i = Inr libs \<and>
      map_of d' (lib_target name ''current'') = Some libs" by simp
  assume v: "map_of (versions_with_info i) v = Some libs"
  then have "v \<noteq> ''current''" using assms(3) by force
  then have "lib_target name v \<noteq> lib_target name ''current''"
    using lib_target_inj [of name] by (auto simp: inj_def)
  then show "map_of d' (lib_target name v) = Some (map (\<lambda>lib. lib @ ''-cpp'') libs)"
    using r(2) map_of_foldl_targets [OF lib_target_inj assms(2), of name "map (\<lambda>lib. lib @ ''-cpp'')" d v] v
    by simp
qed

text \<open>A frozen version links what it was frozen against; the current version links its pins.\<close>

lemma resolve_current_pins:
  assumes "next_version i = Inr nv" "map_of (versions_with_info i) nv = None"
    and "imp \<in> set (iface_imports i)" "resolve_lib_deps_for_current i = Inr libs"
  shows "lib_target imp (if import_pin i imp = IMPORT_VERSION_UNPINNED then ''current'' else import_pin i imp)
    \<in> set libs"
proof -
  let ?d = "dict_of (map (\<lambda>imp. (imp, import_pin i imp)) (iface_imports i))"
  have "map_of ?d imp = Some (import_pin i imp)"
    using assms(3) unfolding map_of_dict_of rev_map by (simp add: map_of_map_restrict)
  then have "(imp, import_pin i imp) \<in> set ?d" by (rule map_of_SomeD)
  moreover have "libs = map (\<lambda>(imprt, pin). if pin = IMPORT_VERSION_UNPINNED
      then lib_target imprt ''current'' else lib_target imprt pin) ?d"
    using assms by (simp add: resolve_lib_deps_for_current_def get_imports_next)
  ultimately show ?thesis by force
qed

end
