(* ===== verification/Import_Graph.thy ===== *)
theory Import_Graph
  imports Lib_Deps
begin

text \<open>
  Resolution of imports in \<^verbatim>\<open>host/aidl_interface.py\<close>: the versioned directories, \<^verbatim>\<open>get_path_for_files\<close>,
  the class \<^verbatim>\<open>ApiDependencies\<close>, \<^verbatim>\<open>aidl_gen_preprocessed\<close>, \<^verbatim>\<open>list_dependencies\<close>, the recursive
  \<^verbatim>\<open>process_imports\<close> and \<^verbatim>\<open>get_dependencies\<close>. The global \<^verbatim>\<open>rec_counter\<close> is part of the world. The
  recursion of \<^verbatim>\<open>process_imports\<close> ends with a \<^verbatim>\<open>RecursionError\<close> at the interpreter's recursion limit,
  which is an argument: the number of calls that may still be nested.
\<close>

section \<open>Directories and files\<close>

definition get_versioned_dir :: "AidlInterface \<Rightarrow> string \<Rightarrow> string" where
  "get_versioned_dir interface version = path_join (interface_root_stable interface) version"

definition get_preprocessed_dir :: "AidlInterface \<Rightarrow> string \<Rightarrow> string" where
  "get_preprocessed_dir interface version =
     path_join (path_join
       (path_join (path_join (path_join (workspace_root interface) ''out'') ''.preprocessed'') (base_name interface))
       (base_name interface @ ''_interface'')) version"

text \<open>\<^verbatim>\<open>get_path_for_files\<close>: with \<^verbatim>\<open>rec\<close>, the files below a directory whose names match; without, globbing.\<close>

definition find_files :: "fs \<Rightarrow> string \<Rightarrow> string \<Rightarrow> string list" where
  "find_files fs src pat = concat (map (\<lambda>d.
     map (path_join d) (filter (fnmatch pat) (map path_basename (dir_file_paths fs d)))) (walk_dirs [] fs src))"

definition glob_files :: "fs \<Rightarrow> string \<Rightarrow> string list \<Rightarrow> string list" where
  "glob_files fs src pats = concat (map (\<lambda>pat. filter (glob_match (path_join src pat)) (dict_keys fs)) pats)"

definition show_stability :: "AidlInterface \<Rightarrow> string" where
  "show_stability interface = the_default ''None'' (stability interface)"

section \<open>Dependencies\<close>

record dep_info =
  di_version :: string
  di_preprocessed :: string
  di_import :: string

record ApiDependencies =
  ad_name :: string
  ad_version :: string
  ad_type :: string
  ad_deps :: "dep_info dict"

definition list_dependencies :: "dep_info dict \<Rightarrow> string list \<times> string list \<times> string list" where
  "list_dependencies api_deps =
     (map (\<lambda>(n, d). path_join (di_preprocessed d) ''preprocessed.aidl'') api_deps,
      map (\<lambda>(n, d). di_import d) api_deps,
      map (\<lambda>(n, d). n @ ''-v'' @ di_version d) api_deps)"

definition import_dir :: "AidlInterface \<Rightarrow> string \<Rightarrow> string \<Rightarrow> string" where
  "import_dir interface nv version =
     get_versioned_dir interface (if version = nv then CURRENT_VERSION else version)"

definition preprocess_cmd :: "tools \<Rightarrow> AidlInterface \<Rightarrow> string \<Rightarrow> string \<Rightarrow> string list \<Rightarrow> string list \<Rightarrow> string list" where
  "preprocess_cmd t interface version imprt deps files =
     [t_cmd_aidl t, ''--preprocess'', path_join (get_preprocessed_dir interface version) ''preprocessed.aidl'']
     @ (if unstable interface then [] else [''--stability='' @ show_stability interface])
     @ map (\<lambda>dep. ''-p'' @ dep) deps @ [''--structured'', ''-I'' @ imprt] @ files"

definition aidl_gen_preprocessed :: "tools \<Rightarrow> AidlInterface \<Rightarrow> string \<Rightarrow> dep_info dict \<Rightarrow> unit io" where
  "aidl_gen_preprocessed t interface version api_deps =
     io_bind (io_res (next_version interface)) (\<lambda>nv.
       (let imprt = import_dir interface nv version in
        io_bind (io_gets (\<lambda>fs. glob_files fs imprt (srcs interface))) (\<lambda>files.
        io_bind (io_gets (\<lambda>fs. path_exists fs imprt)) (\<lambda>there.
        io_then (io_check there (AssertionError ''Failed with the above error.''))
        (io_bind (exec_cmd t (preprocess_cmd t interface version imprt (fst (list_dependencies api_deps)) files))
          (\<lambda>ok. io_check ok (AssertionError ''Command failed.'')))))))"

definition dict_del :: "string \<Rightarrow> 'v dict \<Rightarrow> 'v dict" where
  "dict_del k d = filter (\<lambda>(k', v). k' \<noteq> k) d"

text \<open>The part of \<^verbatim>\<open>add_dependency\<close> after the look-up: the dependency is stored.\<close>

definition store_dependency ::
  "tools \<Rightarrow> AidlInterface \<Rightarrow> string \<Rightarrow> ApiDependencies \<Rightarrow> ApiDependencies io" where
  "store_dependency t interface version ad =
     io_bind (io_res (next_version interface)) (\<lambda>nv.
     io_then (aidl_gen_preprocessed t interface version (ad_deps ad))
       (io_return (ad\<lparr>ad_deps := dict_set (base_name interface)
          \<lparr>di_version = version, di_preprocessed = get_preprocessed_dir interface version,
           di_import = import_dir interface nv version\<rparr> (ad_deps ad)\<rparr>)))"

definition add_dependency ::
  "tools \<Rightarrow> AidlInterface \<Rightarrow> string \<Rightarrow> ApiDependencies \<Rightarrow> ApiDependencies io" where
  "add_dependency t interface version ad =
     (case map_of (ad_deps ad) (base_name interface) of
        Some old \<Rightarrow>
          io_bind (io_res (py_int (di_version old))) (\<lambda>o_ver.
          io_bind (io_res (py_int version)) (\<lambda>n_ver.
            if o_ver \<ge> n_ver then io_return ad
            else store_dependency t interface version
                   (ad\<lparr>ad_deps := dict_del (base_name interface) (ad_deps ad)\<rparr>)))
      | None \<Rightarrow> store_dependency t interface version ad)"

section \<open>Processing imports\<close>

definition rec_add :: "int \<Rightarrow> unit io" where
  "rec_add k w = (Inr (), w\<lparr>w_rec := w_rec w + k\<rparr>)"

definition rec_get :: "int io" where
  "rec_get w = (Inr (w_rec w), w)"

text \<open>The version at which an unpinned import is taken in the \<^verbatim>\<open>latest\<close> mode.\<close>

definition latest_or_next :: "AidlInterface \<Rightarrow> string res" where
  "latest_or_next interface =
     (if latest_version interface = ''0'' then next_version interface else Inr (latest_version interface))"

text \<open>The imports that one call iterates over.\<close>

definition imports_of :: "string \<Rightarrow> int \<Rightarrow> AidlInterface \<Rightarrow> string \<Rightarrow> string dict res" where
  "imports_of ver_type counter interface version =
     (if ver_type = ''next'' then rbind (next_version interface) (get_imports interface)
      else if ver_type = ''latest'' then
        (if counter = 1 then rbind (next_version interface) (get_imports interface)
         else rbind (latest_or_next interface) (get_imports interface))
      else if ver_type = ''frozen'' then get_imports interface version
      else Inr [])"

text \<open>The version at which an imported interface is visited.\<close>

definition import_version :: "string \<Rightarrow> AidlInterface \<Rightarrow> string \<Rightarrow> string res" where
  "import_version ver_type imp_interface pin =
     (if ver_type = ''next'' then next_version imp_interface
      else if ver_type = ''latest'' \<and> pin = IMPORT_VERSION_UNPINNED then latest_or_next imp_interface
      else Inr pin)"

text \<open>The loop body: one import is visited by \<open>go\<close>.\<close>

abbreviation import_step ::
  "(AidlInterface \<Rightarrow> ApiDependencies \<Rightarrow> ApiDependencies io) \<Rightarrow> AidlInterface dict \<Rightarrow>
    string \<times> string \<Rightarrow> ApiDependencies \<Rightarrow> ApiDependencies io" where
  "import_step go interfaces \<equiv> (\<lambda>(imp, pin) ad'.
     io_bind (io_res (dict_get interfaces imp)) (\<lambda>imp_interface.
     io_bind (io_res (import_version (ad_type ad') imp_interface pin)) (\<lambda>v.
       go imp_interface (ad'\<lparr>ad_version := v, ad_name := base_name imp_interface\<rparr>))))"

fun process_imports ::
  "tools \<Rightarrow> nat \<Rightarrow> AidlInterface \<Rightarrow> AidlInterface dict \<Rightarrow> ApiDependencies \<Rightarrow> ApiDependencies io" where
  "process_imports t 0 interface interfaces ad = io_raise RecursionError"
| "process_imports t (Suc limit) interface interfaces ad =
     io_then (rec_add 1) (io_bind rec_get (\<lambda>counter.
     io_bind (io_res (imports_of (ad_type ad) counter interface (ad_version ad))) (\<lambda>imps.
     io_bind (io_fold (import_step (\<lambda>imp_interface. process_imports t limit imp_interface interfaces) interfaces)
         imps ad) (\<lambda>ad1.
     io_bind (if counter = 1 then io_return ad1
         else io_bind (add_dependency t interface (ad_version ad) ad1) (\<lambda>ad2.
           io_return (ad2\<lparr>ad_version := ad_version ad, ad_name := base_name interface\<rparr>))) (\<lambda>ad3.
     io_then (rec_add (-1)) (io_return ad3))))))"

definition get_dependencies ::
  "tools \<Rightarrow> nat \<Rightarrow> AidlInterface \<Rightarrow> AidlInterface dict \<Rightarrow> string \<Rightarrow> bool \<Rightarrow>
    (string list \<times> string list \<times> string list) io" where
  "get_dependencies t limit interface interfaces version is_freeze_api =
     io_bind (io_res (next_version interface)) (\<lambda>nv.
       (let ver_type = (if version = nv then (if is_freeze_api then ''latest'' else ''next'') else ''frozen'')
        in io_then (io_check (\<not> (ver_type = ''frozen'' \<and> version = [])) (AssertionError ''version needs to be provided''))
           (io_bind (process_imports t limit interface interfaces
               \<lparr>ad_name = base_name interface, ad_version = version, ad_type = ver_type, ad_deps = []\<rparr>)
             (\<lambda>ad. io_return (list_dependencies (ad_deps ad))))))"

section \<open>The import graph\<close>

abbreviation next_of :: "AidlInterface \<Rightarrow> string" where
  "next_of i \<equiv> str_of_nat (Suc (length (versions i)))"

text \<open>
  A set of interfaces as \<^verbatim>\<open>load_interfaces\<close> gives it, with stable interfaces only, where the next
  version of an interface is not frozen and every import is there.
\<close>

definition wf_interfaces :: "AidlInterface dict \<Rightarrow> bool" where
  "wf_interfaces d \<longleftrightarrow> wf_dict d \<and> list_all (\<lambda>(n, i). base_name i = n \<and> wf_interface i \<and> \<not> unstable i \<and>
     map_of (versions_with_info i) (next_of i) = None \<and> set (iface_imports i) \<subseteq> set (dict_keys d)) d"

definition import_edges :: "AidlInterface dict \<Rightarrow> (string \<times> string) set" where
  "import_edges d = {(n, m). \<exists>i. map_of d n = Some i \<and> m \<in> set (iface_imports i)}"

definition current_dirs :: "AidlInterface dict \<Rightarrow> fs \<Rightarrow> bool" where
  "current_dirs d fs \<longleftrightarrow> (\<forall>(n, i) \<in> set d. path_exists fs (get_versioned_dir i CURRENT_VERSION))"

text \<open>What was there is still there.\<close>

definition grows :: "fs \<Rightarrow> fs \<Rightarrow> bool" where
  "grows fs fs' \<longleftrightarrow> (\<forall>p. path_exists fs p \<longrightarrow> path_exists fs' p)"

text \<open>The compiler can preprocess what it is given, and no command deletes anything.\<close>

definition aidl_accepts :: "tools \<Rightarrow> bool" where
  "aidl_accepts t \<longleftrightarrow> (\<forall>args fs. fst (t_aidl t ([t_cmd_aidl t, ''--preprocess''] @ args) fs) = 0) \<and>
     (\<forall>cmd fs. grows fs (snd (t_aidl t cmd fs)))"

lemma wf_interfacesD:
  assumes "wf_interfaces d" "map_of d n = Some i"
  shows "base_name i = n" "next_version i = Inr (next_of i)"
    "map_of (versions_with_info i) (next_of i) = None" "set (iface_imports i) \<subseteq> set (dict_keys d)"
  using assms map_of_SomeD [OF assms(2)] next_version_wf [of i]
  by (auto simp: wf_interfaces_def list_all_iff simp del: set_map)

definition next_imports :: "AidlInterface \<Rightarrow> string dict" where
  "next_imports i = dict_of (map (\<lambda>imp. (imp, import_pin i imp)) (iface_imports i))"

lemma next_imports_keys: "fst ` set (next_imports i) = set (iface_imports i)"
  using set_keys_dict_of [of "map (\<lambda>imp. (imp, import_pin i imp)) (iface_imports i)"]
  by (simp add: next_imports_def image_image)

lemma imports_of_next:
  assumes "wf_interfaces d" "map_of d n = Some i"
  shows "imports_of ''next'' c i v = Inr (next_imports i)"
  using wf_interfacesD [OF assms] get_imports_next [of i] by (simp add: imports_of_def next_imports_def)

section \<open>One visit\<close>

text \<open>A dict of dependencies in which every interface comes after the interfaces it imports.\<close>

inductive ordered_deps :: "AidlInterface dict \<Rightarrow> dep_info dict \<Rightarrow> bool" for d where
  nil: "ordered_deps d []"
| snoc: "ordered_deps d D \<Longrightarrow> map_of d n = Some i \<Longrightarrow> di_version x = next_of i \<Longrightarrow>
    n \<notin> set (dict_keys D) \<Longrightarrow> set (iface_imports i) \<subseteq> set (dict_keys D) \<Longrightarrow> ordered_deps d (D @ [(n, x)])"

lemma ordered_deps_closed:
  assumes "ordered_deps d D" "n \<in> set (dict_keys D)" "(n, m) \<in> (import_edges d)\<^sup>*"
  shows "m \<in> set (dict_keys D)"
proof -
  have step: "b \<in> set (dict_keys D)" if "a \<in> set (dict_keys D)" "(a, b) \<in> import_edges d" for a b
    using assms(1) that
  proof (induction rule: ordered_deps.induct)
    case (snoc D n i x)
    then show ?case by (auto simp: import_edges_def simp del: set_map)
  qed simp
  show ?thesis using assms(3,2) by (induction rule: rtrancl_induct) (auto intro: step simp del: set_map)
qed

lemma ordered_deps_version:
  "ordered_deps d D \<Longrightarrow> map_of D n = Some x \<Longrightarrow> \<exists>i. map_of d n = Some i \<and> di_version x = next_of i"
proof (induction rule: ordered_deps.induct)
  case (snoc D m i y)
  then show ?case by (auto simp: map_add_def split: option.splits if_splits)
qed simp

lemma gen_preprocessed_returns:
  assumes "aidl_accepts t" "next_version i = Inr nv" "path_exists (w_fs w) (import_dir i nv v)"
  shows "\<exists>w'. aidl_gen_preprocessed t i v deps w = (Inr (), w') \<and> w_rec w' = w_rec w \<and> grows (w_fs w) (w_fs w')"
proof -
  obtain args where cmd: "aidl_gen_preprocessed t i v deps w =
      io_bind (exec_cmd t ([t_cmd_aidl t, ''--preprocess''] @ args)) (\<lambda>ok. io_check ok (AssertionError ''Command failed.'')) w"
    using assms(2,3)
    by (simp add: aidl_gen_preprocessed_def Let_def io_bind_def io_gets_def io_check_def io_return_def preprocess_cmd_def)
  obtain rc fs' where rc: "t_aidl t ([t_cmd_aidl t, ''--preprocess''] @ args) (w_fs w) = (rc, fs')" by fastforce
  then have "rc = 0" "grows (w_fs w) fs'"
    using assms(1) unfolding aidl_accepts_def by (metis fst_conv, metis snd_conv)
  then show ?thesis unfolding cmd using rc
    by (auto simp: exec_cmd_def run_aidl_def io_bind_def io_return_def io_check_def)
qed

lemma gen_preprocessed_ok:
  assumes "aidl_accepts t" "wf_interfaces d" "map_of d n = Some i" "current_dirs d (w_fs w)"
  shows "\<exists>w'. aidl_gen_preprocessed t i (next_of i) deps w = (Inr (), w') \<and> w_rec w' = w_rec w \<and>
    current_dirs d (w_fs w')"
proof -
  have nv: "next_version i = Inr (next_of i)" using wf_interfacesD [OF assms(2,3)] by simp
  have "path_exists (w_fs w) (import_dir i (next_of i) (next_of i))"
    using assms(4) map_of_SomeD [OF assms(3)] by (auto simp: current_dirs_def import_dir_def)
  from gen_preprocessed_returns [OF assms(1) nv this, of deps] show ?thesis
    using assms(4) by (fastforce simp: current_dirs_def grows_def)
qed

lemma add_dependency_ok:
  assumes "aidl_accepts t" "wf_interfaces d" "map_of d n = Some i" "current_dirs d (w_fs w)"
    and "ordered_deps d (ad_deps ad)" "set (iface_imports i) \<subseteq> set (dict_keys (ad_deps ad))"
  shows "\<exists>new w'. add_dependency t i (next_of i) ad w = (Inr (ad\<lparr>ad_deps := ad_deps ad @ new\<rparr>), w') \<and>
    w_rec w' = w_rec w \<and> current_dirs d (w_fs w') \<and> ordered_deps d (ad_deps ad @ new) \<and>
    set (dict_keys (ad_deps ad @ new)) = insert n (set (dict_keys (ad_deps ad)))"
proof -
  note base = wf_interfacesD(1,2) [OF assms(2,3)]
  show ?thesis
  proof (cases "map_of (ad_deps ad) n")
    case None
    obtain w' where w': "aidl_gen_preprocessed t i (next_of i) (ad_deps ad) w = (Inr (), w')"
      "w_rec w' = w_rec w" "current_dirs d (w_fs w')"
      using gen_preprocessed_ok [OF assms(1-4)] by blast
    define x where "x = \<lparr>di_version = next_of i, di_preprocessed = get_preprocessed_dir i (next_of i),
      di_import = import_dir i (next_of i) (next_of i)\<rparr>"
    have n: "n \<notin> set (dict_keys (ad_deps ad))" using None unfolding in_keys_iff by simp
    have "add_dependency t i (next_of i) ad w = (Inr (ad\<lparr>ad_deps := ad_deps ad @ [(n, x)]\<rparr>), w')"
      using None base w'(1) dict_set_fresh [OF n, of x]
      by (simp add: add_dependency_def store_dependency_def io_bind_step [where m = "aidl_gen_preprocessed _ _ _ _"]
          x_def io_return_def)
    moreover have "ordered_deps d (ad_deps ad @ [(n, x)])"
      by (rule ordered_deps.snoc [OF assms(5,3) _ n assms(6)]) (simp add: x_def)
    ultimately show ?thesis using w' by (intro exI [of _ "[(n, x)]"] exI [of _ w']) simp
  next
    case (Some x)
    then have "di_version x = next_of i" using ordered_deps_version [OF assms(5)] assms(3) by fastforce
    then have "add_dependency t i (next_of i) ad w = (Inr ad, w)"
      using Some base by (simp add: add_dependency_def py_int_str_of_nat io_return_def)
    moreover have "n \<in> set (dict_keys (ad_deps ad))" using Some unfolding in_keys_iff by blast
    ultimately show ?thesis using assms by (intro exI [of _ "[]"] exI [of _ w]) (simp add: insert_absorb del: set_map)
  qed
qed

section \<open>Enough recursion for acyclic imports\<close>

abbreviation import_rank :: "AidlInterface dict \<Rightarrow> string \<Rightarrow> nat" where
  "import_rank d n \<equiv> reach_rank (import_edges d) n"

lemma import_edges_sub:
  assumes "wf_interfaces d"
  shows "import_edges d \<subseteq> set (dict_keys d) \<times> set (dict_keys d)"
  using wf_interfacesD(4) [OF assms] in_keys_iff [of _ d]
  by (auto simp: import_edges_def simp del: set_map)

lemma import_reach_finite:
  assumes "wf_interfaces d"
  shows "(import_edges d)\<^sup>+ `` {n} \<subseteq> set (dict_keys d)" "finite ((import_edges d)\<^sup>+ `` {n})"
proof -
  show "(import_edges d)\<^sup>+ `` {n} \<subseteq> set (dict_keys d)"
    using trancl_subset_Sigma [OF import_edges_sub [OF assms]] by blast
  then show "finite ((import_edges d)\<^sup>+ `` {n})" by (rule finite_subset) simp
qed

lemma import_rank_bound: "wf_interfaces d \<Longrightarrow> import_rank d n \<le> length d"
  unfolding reach_rank_def
  using card_mono [OF _ import_reach_finite(1)] card_length [of "dict_keys d"]
  by (metis List.finite_set dual_order.trans length_map)

text \<open>No interface that \<open>n\<close> imports, directly or not, imports itself.\<close>

abbreviation acyclic_from :: "AidlInterface dict \<Rightarrow> string \<Rightarrow> bool" where
  "acyclic_from d n \<equiv> loop_free (import_edges d) n"

text \<open>What a finished visit leaves: everything reachable has been added, in order.\<close>

definition visited :: "AidlInterface dict \<Rightarrow> ApiDependencies \<Rightarrow> string set \<Rightarrow> int \<Rightarrow> ApiDependencies \<Rightarrow> world \<Rightarrow> bool" where
  "visited d ad S k ad' w' \<longleftrightarrow> w_rec w' = k \<and> current_dirs d (w_fs w') \<and> ad_type ad' = ''next'' \<and>
     ordered_deps d (ad_deps ad') \<and> prefix (ad_deps ad) (ad_deps ad') \<and>
     set (dict_keys (ad_deps ad')) = set (dict_keys (ad_deps ad)) \<union> (import_edges d)\<^sup>* `` S"

text \<open>The state of a resolution in the \<^verbatim>\<open>next\<close> mode, at one depth of the recursion.\<close>

definition resolves :: "AidlInterface dict \<Rightarrow> int \<Rightarrow> ApiDependencies \<Rightarrow> world \<Rightarrow> bool" where
  "resolves d k ad w \<longleftrightarrow> w_rec w = k \<and> current_dirs d (w_fs w) \<and> ad_type ad = ''next'' \<and> ordered_deps d (ad_deps ad)"

abbreviation import_loop ::
  "tools \<Rightarrow> nat \<Rightarrow> AidlInterface \<Rightarrow> AidlInterface dict \<Rightarrow> ApiDependencies \<Rightarrow> ApiDependencies io" where
  "import_loop t limit i d \<equiv> io_fold (import_step (\<lambda>j. process_imports t limit j d) d) (next_imports i)"

text \<open>A visited interface is added after its imports.\<close>

lemma process_added:
  assumes "aidl_accepts t" "wf_interfaces d" "map_of d n = Some i"
    and "w_rec w = k" "k \<ge> 1" "ad_type ad = ''next''" "ad_version ad = next_of i"
    and "import_loop t limit i d ad (w\<lparr>w_rec := k + 1\<rparr>) = (Inr a1, w1)"
    and "resolves d (k + 1) a1 w1" "set (iface_imports i) \<subseteq> set (dict_keys (ad_deps a1))"
  obtains new w2 where "process_imports t (Suc limit) i d ad w =
      (Inr (a1\<lparr>ad_deps := ad_deps a1 @ new, ad_version := next_of i, ad_name := base_name i\<rparr>), w2\<lparr>w_rec := k\<rparr>)"
    "current_dirs d (w_fs w2)" "ordered_deps d (ad_deps a1 @ new)"
    "set (dict_keys (ad_deps a1 @ new)) = insert n (set (dict_keys (ad_deps a1)))"
proof -
  obtain new w2 where add: "add_dependency t i (next_of i) a1 w1 = (Inr (a1\<lparr>ad_deps := ad_deps a1 @ new\<rparr>), w2)"
    "w_rec w2 = w_rec w1" "current_dirs d (w_fs w2)" "ordered_deps d (ad_deps a1 @ new)"
    "set (dict_keys (ad_deps a1 @ new)) = insert n (set (dict_keys (ad_deps a1)))"
    using add_dependency_ok [OF assms(1-3) _ _ assms(10), of w1] assms(9) by (auto simp: resolves_def simp del: set_map)
  have "process_imports t (Suc limit) i d ad w =
      (Inr (a1\<lparr>ad_deps := ad_deps a1 @ new, ad_version := next_of i, ad_name := base_name i\<rparr>), w2\<lparr>w_rec := k\<rparr>)"
    using assms(4-9) imports_of_next [OF assms(2,3)] add(1,2)
    by (simp add: rec_add_def rec_get_def io_bind_def io_return_def resolves_def)
  then show thesis using add(3-5) by (rule that)
qed

text \<open>The loop over the imports, given that each import can be visited.\<close>

lemma process_loop:
  assumes wf: "wf_interfaces d" and i: "map_of d n = Some i"
    and visit: "\<And>m j ad w. (n, m) \<in> import_edges d \<Longrightarrow> map_of d m = Some j \<Longrightarrow> w_rec w = k \<Longrightarrow>
      current_dirs d (w_fs w) \<Longrightarrow> ad_type ad = ''next'' \<Longrightarrow> ad_version ad = next_of j \<Longrightarrow>
      ordered_deps d (ad_deps ad) \<Longrightarrow>
      \<exists>ad' w'. process_imports t limit j d ad w = (Inr ad', w') \<and> visited d ad {m} k ad' w'"
    and st: "w_rec w = k" "current_dirs d (w_fs w)" "ad_type ad = ''next''" "ordered_deps d (ad_deps ad)"
  shows "\<exists>ad' w'. io_fold (import_step (\<lambda>j. process_imports t limit j d) d) (next_imports i) ad w = (Inr ad', w') \<and>
    visited d ad (set (iface_imports i)) k ad' w'" (is "\<exists>ad' w'. io_fold ?f _ _ _ = _ \<and> _")
proof -
  let ?P = "\<lambda>us ad' w'. visited d ad (fst ` set us) k ad' w'"
  have "\<exists>ad' w'. io_fold ?f (next_imports i) ad w = (Inr ad', w') \<and> ?P (next_imports i) ad' w'"
  proof (rule io_fold_steps [of ?P])
    show "?P [] ad w" using st by (simp add: visited_def)
    fix us x vs a v
    assume split: "next_imports i = us @ x # vs" and P: "?P us a v"
    obtain m pin where x: "x = (m, pin)" by fastforce
    have m: "m \<in> set (iface_imports i)" using split x next_imports_keys [of i] by force
    then have e: "(n, m) \<in> import_edges d" using i by (auto simp: import_edges_def)
    have "m \<in> set (dict_keys d)" using m wf_interfacesD(4) [OF wf i] by blast
    then obtain j where j: "map_of d m = Some j" unfolding in_keys_iff by blast
    let ?a = "a\<lparr>ad_version := next_of j, ad_name := base_name j\<rparr>"
    obtain a' v' where r: "process_imports t limit j d ?a v = (Inr a', v')" "visited d ?a {m} k a' v'"
      using visit [OF e j, of v ?a] P by (auto simp: visited_def)
    have "?f x a v = (Inr a', v')"
      using r(1) j P wf_interfacesD(2) [OF wf j] x by (simp add: dict_get_def import_version_def visited_def)
    moreover have "?P (us @ [x]) a' v'"
      using P r(2) x by (auto simp: visited_def simp del: set_map intro: prefix_order.trans)
    ultimately show "\<exists>a' v'. ?f x a v = (Inr a', v') \<and> ?P (us @ [x]) a' v'" by blast
  qed
  then show ?thesis by (simp only: next_imports_keys)
qed

lemma edges_Image: "map_of d n = Some i \<Longrightarrow> import_edges d `` {n} = set (iface_imports i)"
  by (auto simp: import_edges_def)

lemma process_next_visit:
  assumes "aidl_accepts t" "wf_interfaces d"
    and "map_of d n = Some i" "acyclic_from d n" "import_rank d n < limit"
    and "w_rec w = k" "k \<ge> 1" "current_dirs d (w_fs w)" "ad_type ad = ''next''" "ad_version ad = next_of i"
      "ordered_deps d (ad_deps ad)"
  shows "\<exists>ad' w'. process_imports t limit i d ad w = (Inr ad', w') \<and> visited d ad {n} k ad' w'"
  using assms(3-)
proof (induction limit arbitrary: n i ad w k)
  case (Suc limit)
  note wf = assms(2) and i = Suc.prems(1)
  let ?w = "w\<lparr>w_rec := k + 1\<rparr>"
  have "\<exists>ad' w'. process_imports t limit j d a v = (Inr ad', w') \<and> visited d a {m} (k + 1) ad' w'"
    if "(n, m) \<in> import_edges d" "map_of d m = Some j" "w_rec v = k + 1" "current_dirs d (w_fs v)"
      "ad_type a = ''next''" "ad_version a = next_of j" "ordered_deps d (ad_deps a)" for m j a v
  proof (rule Suc.IH [OF that(2) _ _ that(3) _ that(4-7)])
    show "acyclic_from d m" using Suc.prems(2) that(1) by (rule loop_free_step)
    have "import_rank d m < import_rank d n"
      using Suc.prems(2) that(1) by (rule reach_rank_less) (rule import_reach_finite [OF wf])
    then show "import_rank d m < limit" using Suc.prems(3) by simp
    show "k + 1 \<ge> 1" using Suc.prems(5) by simp
  qed
  then have "\<exists>a1 w1. import_loop t limit i d ad ?w = (Inr a1, w1) \<and>
      visited d ad (set (iface_imports i)) (k + 1) a1 w1"
    by (rule process_loop [OF wf i]) (use Suc.prems(6,7,9) in \<open>simp_all\<close>)
  then obtain a1 w1 where loop:
    "import_loop t limit i d ad ?w = (Inr a1, w1)"
    and v1: "visited d ad (set (iface_imports i)) (k + 1) a1 w1"
    by blast
  have imps: "set (iface_imports i) \<subseteq> set (dict_keys (ad_deps a1))" and r1: "resolves d (k + 1) a1 w1"
    using v1 unfolding visited_def resolves_def by (auto simp del: set_map)
  obtain new w2 where add: "process_imports t (Suc limit) i d ad w =
      (Inr (a1\<lparr>ad_deps := ad_deps a1 @ new, ad_version := next_of i, ad_name := base_name i\<rparr>), w2\<lparr>w_rec := k\<rparr>)"
    "current_dirs d (w_fs w2)" "ordered_deps d (ad_deps a1 @ new)"
    "set (dict_keys (ad_deps a1 @ new)) = insert n (set (dict_keys (ad_deps a1)))"
    by (rule process_added [OF assms(1,2) i Suc.prems(4,5,7,8) loop r1 imps])
  have "visited d ad {n} k (a1\<lparr>ad_deps := ad_deps a1 @ new, ad_version := next_of i, ad_name := base_name i\<rparr>) (w2\<lparr>w_rec := k\<rparr>)"
    using v1 add(2-4) rtrancl_Image_unfold [of "import_edges d" n] edges_Image [OF i]
    by (auto simp: visited_def simp del: set_map set_append)
  then show ?case using add(1) by blast
qed simp

text \<open>The first call, for the interface whose dependencies are asked for.\<close>

lemma process_next_start:
  assumes "aidl_accepts t" "wf_interfaces d" "map_of d n = Some i" "acyclic_from d n" "import_rank d n < limit"
    and "w_rec w = 0" "current_dirs d (w_fs w)" "ad_type ad = ''next''" "ad_deps ad = []"
  shows "\<exists>ad' w'. process_imports t limit i d ad w = (Inr ad', w') \<and> w_rec w' = 0 \<and>
    ordered_deps d (ad_deps ad') \<and> set (dict_keys (ad_deps ad')) = (import_edges d)\<^sup>+ `` {n}"
proof (cases limit)
  case (Suc l)
  note wf = assms(2) and i = assms(3)
  let ?w = "w\<lparr>w_rec := 1\<rparr>"
  have "\<exists>a1 w1. import_loop t l i d ad ?w = (Inr a1, w1) \<and>
      visited d ad (set (iface_imports i)) 1 a1 w1"
  proof (rule process_loop [OF wf i])
    fix m j and a :: ApiDependencies and v :: world
    assume m: "(n, m) \<in> import_edges d" "map_of d m = Some j" and st: "w_rec v = 1" "current_dirs d (w_fs v)"
      "ad_type a = ''next''" "ad_version a = next_of j" "ordered_deps d (ad_deps a)"
    have "import_rank d m < l"
      using reach_rank_less [OF assms(4) m(1) import_reach_finite(2) [OF wf]] assms(5) Suc by simp
    then show "\<exists>ad' w'. process_imports t l j d a v = (Inr ad', w') \<and> visited d a {m} 1 ad' w'"
      using loop_free_step [OF assms(4) m(1)] st by (intro process_next_visit [OF assms(1,2) m(2)]) simp_all
  qed (use assms in \<open>simp_all add: ordered_deps.nil\<close>)
  then obtain a1 w1 where loop:
    "import_loop t l i d ad ?w = (Inr a1, w1)"
    and v1: "visited d ad (set (iface_imports i)) 1 a1 w1" by blast
  have "process_imports t limit i d ad w = (Inr a1, w1\<lparr>w_rec := 0\<rparr>)"
    using assms imports_of_next [OF wf i] v1 Suc
    by (simp add: rec_add_def rec_get_def io_bind_def loop io_return_def visited_def)
  moreover have "(import_edges d)\<^sup>* `` set (iface_imports i) = (import_edges d)\<^sup>+ `` {n}"
    unfolding edges_Image [OF i, symmetric] by (auto simp: trancl_unfold_left)
  ultimately show ?thesis using v1 assms(9) by (auto simp: visited_def simp del: set_map)
qed (use assms(5) in simp)

section \<open>Cyclic imports\<close>

text \<open>
  With a compiler that accepts its input, resolution in the \<^verbatim>\<open>next\<close> mode either succeeds, and
  then there is no cycle, or runs out of recursion.
\<close>

definition resolved :: "AidlInterface dict \<Rightarrow> ApiDependencies \<Rightarrow> string set \<Rightarrow> int \<Rightarrow> ApiDependencies \<Rightarrow> world \<Rightarrow> bool" where
  "resolved d ad S k ad' w' \<longleftrightarrow> resolves d k ad' w' \<and> (\<forall>n \<in> S. acyclic_from d n) \<and>
     set (dict_keys (ad_deps ad)) \<subseteq> set (dict_keys (ad_deps ad'))"

abbreviation or_recursion :: "(ApiDependencies \<Rightarrow> bool) \<Rightarrow> ApiDependencies res \<Rightarrow> bool" where
  "or_recursion P r \<equiv> (\<exists>ad. r = Inr ad \<and> P ad) \<or> (\<exists>e. r = Inl e \<and> e = RecursionError)"

lemma resolve_loop:
  assumes wf: "wf_interfaces d" and i: "map_of d n = Some i" and st: "resolves d k ad w"
    and visit: "\<And>m j a v r v'. map_of d m = Some j \<Longrightarrow> resolves d k a v \<Longrightarrow> ad_version a = next_of j \<Longrightarrow>
      process_imports t limit j d a v = (r, v') \<Longrightarrow>
      or_recursion (\<lambda>a'. resolved d a {m} k a' v' \<and> m \<in> set (dict_keys (ad_deps a'))) r"
    and loop: "import_loop t limit i d ad w = (r, w')"
  shows "or_recursion (\<lambda>a. resolved d ad (set (iface_imports i)) k a w' \<and>
    set (iface_imports i) \<subseteq> set (dict_keys (ad_deps a))) r"
proof -
  let ?P = "\<lambda>us a v. resolved d ad (fst ` set us) k a v \<and> fst ` set us \<subseteq> set (dict_keys (ad_deps a))"
  let ?f = "import_step (\<lambda>j. process_imports t limit j d) d"
  have "or_recursion (\<lambda>a. ?P (next_imports i) a w') r"
  proof (rule io_fold_cases [OF loop, where P = ?P])
    show "?P [] ad w" using st by (simp add: resolved_def)
    fix us x vs a v r2 v2
    assume x: "next_imports i = us @ x # vs" and P: "?P us a v" and step: "?f x a v = (r2, v2)"
    obtain m pin where mp: "x = (m, pin)" by fastforce
    then have "m \<in> set (iface_imports i)" using x next_imports_keys [of i] by force
    then have "m \<in> set (dict_keys d)" using wf_interfacesD(4) [OF wf i] by blast
    then obtain j where j: "map_of d m = Some j" unfolding in_keys_iff by blast
    let ?a = "a\<lparr>ad_version := next_of j, ad_name := base_name j\<rparr>"
    have "process_imports t limit j d ?a v = (r2, v2)"
      using step j P wf_interfacesD(2) [OF wf j] mp
      by (simp add: dict_get_def import_version_def resolved_def resolves_def)
    moreover have "resolves d k ?a v" using P by (simp add: resolved_def resolves_def)
    ultimately consider a' where "r2 = Inr a'" "resolved d ?a {m} k a' v2" "m \<in> set (dict_keys (ad_deps a'))"
      | "r2 = Inl RecursionError"
      using visit [OF j, of ?a] by fastforce
    then show "or_recursion (\<lambda>a'. ?P (us @ [x]) a' v2) r2"
    proof cases
      case (1 a')
      then have sub: "set (dict_keys (ad_deps a)) \<subseteq> set (dict_keys (ad_deps a'))" by (simp add: resolved_def)
      then have "?P (us @ [x]) a' v2" using P 1(2,3) mp subset_trans [OF _ sub] by (simp add: resolved_def del: set_map)
      then show ?thesis using 1(1) by blast
    qed simp
  qed
  then show ?thesis by (simp only: next_imports_keys)
qed

lemma process_next_cases:
  assumes "aidl_accepts t" "wf_interfaces d"
    and "map_of d n = Some i" "k \<ge> 0" "resolves d k ad w" "ad_version ad = next_of i"
    and "process_imports t limit i d ad w = (r, w')"
  shows "or_recursion (\<lambda>ad'. resolved d ad {n} k ad' w' \<and> (k > 0 \<longrightarrow> n \<in> set (dict_keys (ad_deps ad')))) r"
  using assms(3-)
proof (induction limit arbitrary: n i ad w k r w')
  case (Suc limit)
  note wf = assms(2) and i = Suc.prems(1) and st = Suc.prems(3) [unfolded resolves_def]
  obtain r1 w1 where loop: "import_loop t limit i d ad (w\<lparr>w_rec := k + 1\<rparr>) = (r1, w1)" by fastforce
  have visit: "or_recursion (\<lambda>a'. resolved d a {m} (k + 1) a' v' \<and> m \<in> set (dict_keys (ad_deps a'))) r"
    if "map_of d m = Some j" "resolves d (k + 1) a v" "ad_version a = next_of j"
      "process_imports t limit j d a v = (r, v')" for m j a v r v'
    using Suc.IH [OF that(1) _ that(2-4)] Suc.prems(2) by simp
  have "resolves d (k + 1) ad (w\<lparr>w_rec := k + 1\<rparr>)" using st by (simp add: resolves_def)
  then have "or_recursion (\<lambda>a. resolved d ad (set (iface_imports i)) (k + 1) a w1 \<and>
      set (iface_imports i) \<subseteq> set (dict_keys (ad_deps a))) r1"
    by (rule resolve_loop [OF wf i _ _ loop]) (rule visit)
  then consider a1 where "r1 = Inr a1" "resolved d ad (set (iface_imports i)) (k + 1) a1 w1"
      "set (iface_imports i) \<subseteq> set (dict_keys (ad_deps a1))"
    | "r1 = Inl RecursionError"
    by blast
  then show ?case
  proof cases
    case (1 a1)
    have r1: "resolves d (k + 1) a1 w1" using 1(2) by (simp add: resolved_def)
    have ac: "acyclic_from d n"
      by (rule loop_free_predecessor) (use 1(2) edges_Image [OF i] in \<open>auto simp: resolved_def\<close>)
    show ?thesis
    proof (cases "k = 0")
      case True
      then have "r = Inr a1" "w' = w1\<lparr>w_rec := 0\<rparr>"
        using Suc.prems st imports_of_next [OF wf i] loop 1(1) r1
        by (simp_all add: rec_add_def rec_get_def io_bind_def io_return_def resolves_def)
      then show ?thesis using 1(2) ac True by (simp add: resolved_def resolves_def)
    next
      case False
      have c: "w_rec w = k" "k \<ge> 1" "ad_type ad = ''next''" using False Suc.prems(2) st by auto
      obtain new w2 where add: "process_imports t (Suc limit) i d ad w =
          (Inr (a1\<lparr>ad_deps := ad_deps a1 @ new, ad_version := next_of i, ad_name := base_name i\<rparr>), w2\<lparr>w_rec := k\<rparr>)"
        "current_dirs d (w_fs w2)" "ordered_deps d (ad_deps a1 @ new)"
        "set (dict_keys (ad_deps a1 @ new)) = insert n (set (dict_keys (ad_deps a1)))"
        by (rule process_added [OF assms(1,2) i c Suc.prems(4) loop [unfolded 1(1)] r1 1(3)])
      then show ?thesis
        using 1(2) ac Suc.prems(5) by (auto simp: resolved_def resolves_def simp del: set_map set_append process_imports.simps)
    qed
  next
    case 2
    then show ?thesis using Suc.prems st imports_of_next [OF wf i] loop
      by (simp add: rec_add_def rec_get_def io_bind_def io_return_def)
  qed
qed (simp add: io_raise_def)

text \<open>Dependencies of the next version of an interface.\<close>

lemma get_dependencies_next:
  assumes "aidl_accepts t" "wf_interfaces d" "map_of d n = Some i" "current_dirs d (w_fs w)" "w_rec w = 0"
    and "acyclic_from d n" "length d < limit"
  shows "\<exists>D w'. get_dependencies t limit i d (next_of i) False w = (Inr (list_dependencies D), w') \<and>
    w_rec w' = 0 \<and> ordered_deps d D \<and> set (dict_keys D) = (import_edges d)\<^sup>+ `` {n}"
proof -
  let ?ad = "\<lparr>ad_name = base_name i, ad_version = next_of i, ad_type = ''next'', ad_deps = []\<rparr>"
  have "import_rank d n < limit" using import_rank_bound [OF assms(2), of n] assms(7) by simp
  from process_next_start [OF assms(1-3,6) this assms(5,4), of ?ad] obtain ad' w' where
    p: "process_imports t limit i d ?ad w = (Inr ad', w')" and r: "w_rec w' = 0"
    "ordered_deps d (ad_deps ad')" "set (dict_keys (ad_deps ad')) = (import_edges d)\<^sup>+ `` {n}" by auto
  have "get_dependencies t limit i d (next_of i) False w = (Inr (list_dependencies (ad_deps ad')), w')"
    using wf_interfacesD(2) [OF assms(2,3)] p
    by (simp add: get_dependencies_def io_check_def io_bind_step io_return_def)
  then show ?thesis using r by blast
qed

lemma get_dependencies_cyclic:
  assumes "aidl_accepts t" "wf_interfaces d" "map_of d n = Some i" "current_dirs d (w_fs w)" "w_rec w = 0"
    and "\<not> acyclic_from d n"
  shows "fst (get_dependencies t limit i d (next_of i) False w) = Inl RecursionError"
proof -
  let ?ad = "\<lparr>ad_name = base_name i, ad_version = next_of i, ad_type = ''next'', ad_deps = []\<rparr>"
  obtain r w' where p: "process_imports t limit i d ?ad w = (r, w')" by fastforce
  have "r = Inl RecursionError"
    using process_next_cases [OF assms(1-3) _ _ _ p, of 0] assms(4-6) by (auto simp: resolved_def resolves_def ordered_deps.nil)
  then show ?thesis
    using wf_interfacesD(2) [OF assms(2,3)] p
    by (simp add: get_dependencies_def io_check_def io_bind_fail)
qed

end
