(* ===== verification/Api_Check.thy ===== *)
theory Api_Check
  imports Import_Graph
begin

text \<open>
  The checks of \<^verbatim>\<open>host/aidl_interface.py\<close> on the versions of an interface: \<^verbatim>\<open>check_integrity\<close> (the
  stored hash against the AIDL files), \<^verbatim>\<open>check_api\<close> and its callers (the compiler's \<^verbatim>\<open>--checkapi\<close>),
  \<^verbatim>\<open>check_for_development\<close> and \<^verbatim>\<open>validate_interface\<close>. The interface \<open>io_frame\<close> gives what an operation
  leaves alone from what its steps leave alone.
\<close>

section \<open>Dumps and hashes\<close>

record ApiDump =
  du_version :: string
  du_api_dir :: string
  du_files :: "string list"
  du_hash_file :: "string option"

definition node_text :: "node \<Rightarrow> string" where
  "node_text n = (case n of FFile s \<Rightarrow> s | _ \<Rightarrow> [])"

text \<open>\<^verbatim>\<open>find ./ -name "*.aidl"\<close> in a directory, sorted by bytes.\<close>

definition aidl_files :: "fs \<Rightarrow> string \<Rightarrow> string list" where
  "aidl_files fs d = sort (filter (\<lambda>p. under d p \<and> py_endswith p ''.aidl'' \<and> path_isfile fs p) (dict_keys fs))"

text \<open>The lines of \<^verbatim>\<open>xargs -0 sha1sum\<close>, which reads an empty input when there is no file.\<close>

definition sha1_lines :: "(string \<Rightarrow> string) \<Rightarrow> fs \<Rightarrow> string \<Rightarrow> string" where
  "sha1_lines sha1 fs d =
     (if aidl_files fs d = [] then sha1 [] @ ''  -'' @ [chr_nl]
      else concat (map (\<lambda>p. sha1 (node_text (the (map_of fs p))) @ ''  .'' @ drop (length d) p @ [chr_nl])
             (aidl_files fs d)))"

text \<open>The pipeline of \<^verbatim>\<open>aidl_hash_gen\<close> and of \<^verbatim>\<open>check_integrity\<close>.\<close>

definition api_hash :: "(string \<Rightarrow> string) \<Rightarrow> fs \<Rightarrow> string \<Rightarrow> string \<Rightarrow> string" where
  "api_hash sha1 fs d version = sha1 (sha1_lines sha1 fs d @ version @ [chr_nl])"

text \<open>\<^verbatim>\<open>tail -1\<close> without its line end.\<close>

definition last_line :: "string \<Rightarrow> string" where
  "last_line s = rev (takeWhile (\<lambda>c. c \<noteq> chr_nl)
     (rev (if s \<noteq> [] \<and> last s = chr_nl then butlast s else s)))"

text \<open>The words that the shell makes of the output of a command that is not quoted.\<close>

definition is_ifs :: "char \<Rightarrow> bool" where
  "is_ifs c \<longleftrightarrow> c = CHR '' '' \<or> c = CHR 0x09 \<or> c = chr_nl"

definition shell_words :: "string \<Rightarrow> string list" where
  "shell_words s = filter (\<lambda>w. w \<noteq> []) (py_split_on CHR '' '' (map (\<lambda>c. if is_ifs c then CHR '' '' else c) s))"

text \<open>The shell's comparison succeeds when both sides are the same single word.\<close>

definition integrity_ok :: "(string \<Rightarrow> string) \<Rightarrow> fs \<Rightarrow> string \<Rightarrow> string \<Rightarrow> string \<Rightarrow> bool" where
  "integrity_ok sha1 fs d version hash_file \<longleftrightarrow>
     (case map_of fs hash_file of
        Some n \<Rightarrow> shell_words (last_line (node_text n)) = shell_words (api_hash sha1 fs d version) \<and>
          length (shell_words (last_line (node_text n))) = 1
      | None \<Rightarrow> False)"

lemma shell_words_single:
  assumes "s \<noteq> []" "\<forall>c \<in> set s. \<not> is_ifs c"
  shows "shell_words s = [s]"
proof -
  have "map (\<lambda>c. if is_ifs c then CHR '' '' else c) s = s" using assms(2) by (induction s) auto
  moreover have "py_split_on CHR '' '' s = [s]" using assms(2) by (induction s) (auto simp: is_ifs_def)
  ultimately show ?thesis using assms(1) by (simp add: shell_words_def)
qed

definition check_integrity :: "tools \<Rightarrow> AidlInterface \<Rightarrow> ApiDump \<Rightarrow> unit io" where
  "check_integrity t interface dump =
     io_bind (io_res (version_for_hashgen (du_version dump))) (\<lambda>ver.
     io_bind (io_gets (\<lambda>fs. integrity_ok (t_sha1 t) fs (du_api_dir dump) ver (the_default ''None'' (du_hash_file dump))))
       (\<lambda>ok. io_check ok (RuntimeError (base_name interface))))"

section \<open>Compatibility\<close>

definition stability_flag :: "AidlInterface \<Rightarrow> string list" where
  "stability_flag interface =
     (if stability interface = Some [] \<or> unstable interface then []
      else [''--stability='' @ show_stability interface])"

definition os_touch :: "string \<Rightarrow> fs \<Rightarrow> fs" where
  "os_touch p fs = (if path_exists fs p then fs else fs @ [(p, FFile [])])"

definition timestamp_file :: "AidlInterface \<Rightarrow> ApiDump \<Rightarrow> string" where
  "timestamp_file interface dump = path_join (interface_api_dir_out interface)
     (''checkapi_'' @ path_basename (du_api_dir dump) @ ''.timestamp'')"

definition check_api ::
  "tools \<Rightarrow> nat \<Rightarrow> AidlInterface \<Rightarrow> AidlInterface dict \<Rightarrow> ApiDump \<Rightarrow> ApiDump \<Rightarrow> string \<Rightarrow> string io" where
  "check_api t limit interface interfaces oldDump newDump checkApiLevel =
     io_bind (get_dependencies t limit interface interfaces (du_version newDump) False) (\<lambda>(deps, imps, _).
     io_bind (run_aidl t ([t_cmd_aidl t, ''--checkapi='' @ checkApiLevel] @ stability_flag interface
         @ map (\<lambda>dep. ''-p '' @ dep) deps @ [du_api_dir oldDump, du_api_dir newDump])) (\<lambda>rc.
       io_then (io_check (rc = 0) (AssertionError ''Failed at check_api. Please update the module''))
       (io_then (io_modify (os_makedirs (path_dirname (timestamp_file interface newDump))))
       (io_then (io_modify (os_touch (timestamp_file interface newDump)))
         (io_return (timestamp_file interface newDump))))))"

definition check_compatibility ::
  "tools \<Rightarrow> nat \<Rightarrow> AidlInterface \<Rightarrow> AidlInterface dict \<Rightarrow> ApiDump \<Rightarrow> ApiDump \<Rightarrow> string io" where
  "check_compatibility t limit interface interfaces oldDump newDump =
     check_api t limit interface interfaces oldDump newDump ''compatible''"

text \<open>
  \<^verbatim>\<open>check_equality\<close>, which nothing calls: the message with the name of the interface filled in by
  \<^verbatim>\<open>sed\<close>, then the comparison. The code does not wait for \<^verbatim>\<open>sed\<close>; the file is read by nobody but the
  \<^verbatim>\<open>cat\<close> of a failing comparison.
\<close>

definition equality_message :: "AidlInterface \<Rightarrow> string" where
  "equality_message interface = path_join (interface_api_dir_out interface) ''message_check_equality.txt''"

definition check_equality ::
  "tools \<Rightarrow> nat \<Rightarrow> string \<Rightarrow> AidlInterface \<Rightarrow> AidlInterface dict \<Rightarrow> ApiDump \<Rightarrow> ApiDump \<Rightarrow> string io" where
  "check_equality t limit host_dir interface interfaces oldDump newDump =
     io_then (io_modify (os_makedirs (interface_api_dir_out interface)))
     (io_then (io_modify (\<lambda>fs. dict_set (equality_message interface)
         (FFile (case map_of fs (path_join host_dir ''message_check_equality.txt'') of
              Some m \<Rightarrow> py_replace ''%s'' (base_name interface) (node_text m) | None \<Rightarrow> [])) fs))
       (check_api t limit interface interfaces oldDump newDump ''equal''))"

section \<open>Validation\<close>

definition has_frozen_versions :: "fs \<Rightarrow> AidlInterface \<Rightarrow> bool" where
  "has_frozen_versions fs interface \<longleftrightarrow>
     path_exists fs (interface_root_stable interface) \<and>
     (\<exists>e \<in> set (os_listdir fs (interface_root_stable interface)).
        path_isdir fs (path_join (interface_root_stable interface) e) \<and> py_isdigit e)"

definition dump_of :: "fs \<Rightarrow> string \<Rightarrow> string \<Rightarrow> ApiDump" where
  "dump_of fs version dir = \<lparr>du_version = version, du_api_dir = dir,
     du_files = find_files fs dir ''*.aidl'', du_hash_file = Some (path_join dir ''.hash'')\<rparr>"

text \<open>The dumps of the frozen versions, when there are any on disk.\<close>

definition frozen_dumps :: "fs \<Rightarrow> AidlInterface \<Rightarrow> ApiDump list res" where
  "frozen_dumps fs interface =
     (if has_frozen_versions fs interface
      then rmap (\<lambda>ver. let dir = get_versioned_dir interface ver in
             if path_exists fs dir then Inr (dump_of fs ver dir) else Inl (RuntimeError ver)) (versions interface)
      else Inr [])"

text \<open>The loop body of the checks, at an index into the dumps.\<close>

definition validate_dump ::
  "tools \<Rightarrow> nat \<Rightarrow> AidlInterface \<Rightarrow> AidlInterface dict \<Rightarrow> ApiDump list \<Rightarrow> nat \<Rightarrow> unit io" where
  "validate_dump t limit interface interfaces dumps i =
     io_bind (io_gets (\<lambda>fs. path_exists fs (the_default ''None'' (du_hash_file (dumps ! i))))) (\<lambda>hashed.
     io_then (if hashed then check_integrity t interface (dumps ! i)
              else io_check (i = length dumps - 1) (AssertionError (du_version (dumps ! i))))
       (if i = 0 then io_return ()
        else io_bind (check_compatibility t limit interface interfaces (dumps ! (i - 1)) (dumps ! i))
               (\<lambda>_. io_return ())))"

definition validate_interface ::
  "tools \<Rightarrow> nat \<Rightarrow> AidlInterface \<Rightarrow> AidlInterface dict \<Rightarrow> ApiDump list io" where
  "validate_interface t limit interface interfaces =
     (let current_dir = get_versioned_dir interface CURRENT_VERSION in
      io_bind (io_gets (\<lambda>fs. path_exists fs current_dir)) (\<lambda>has_current.
      io_bind (io_res (if has_current then rbind (next_version interface) (\<lambda>nv. Inr [nv]) else Inr [])) (\<lambda>cur.
      io_bind (io_gets (\<lambda>fs. map (\<lambda>nv. dump_of fs nv current_dir) cur)) (\<lambda>cur_dumps.
      io_bind (io_gets (\<lambda>fs. frozen_dumps fs interface)) (\<lambda>r.
      io_bind (io_res r) (\<lambda>frozen.
        (let dumps = frozen @ cur_dumps in
         io_bind (io_fold (\<lambda>i _. validate_dump t limit interface interfaces dumps i) [0..<length dumps] ())
           (\<lambda>_. io_return dumps))))))))"

text \<open>
  Whether there is a change since the last frozen version: the content of the file
  \<^verbatim>\<open>has_development\<close>, which the shell command writes.
\<close>

definition has_dev_path :: "AidlInterface \<Rightarrow> string" where
  "has_dev_path interface = path_join (interface_api_dir_out interface) ''has_development''"

definition check_for_development ::
  "tools \<Rightarrow> nat \<Rightarrow> AidlInterface \<Rightarrow> AidlInterface dict \<Rightarrow> ApiDump option \<Rightarrow> ApiDump \<Rightarrow> string io" where
  "check_for_development t limit interface interfaces latest_dump tot_dump =
     io_then (io_modify (os_makedirs (interface_api_dir_out interface)))
     (io_bind (case latest_dump of
         Some latest \<Rightarrow>
           io_bind (get_dependencies t limit interface interfaces (du_version tot_dump) False) (\<lambda>(deps, imps, _).
             run_aidl t ([t_cmd_aidl t, ''--checkapi=equal''] @ stability_flag interface
               @ concat (map (\<lambda>dep. [''-p'', dep]) deps) @ [du_api_dir latest, du_api_dir tot_dump]))
       | None \<Rightarrow> io_return 1) (\<lambda>rc.
      io_then (io_modify (dict_set (has_dev_path interface) (FFile (str_of_int rc @ [chr_nl]))))
        (io_return (has_dev_path interface))))"

end
