(* ===== verification/Io_Frame.thy ===== *)
theory Io_Frame
  imports Api_Check
begin

text \<open>
  What the operations leave alone. \<open>io_keeps R m\<close> says that every run of \<open>m\<close>, also one that ends
  with an error, takes the file system to a related one; for a reflexive and transitive \<open>R\<close> the
  locale \<open>io_frame\<close> carries it through the operators, the import resolution and the checks. It is
  used for the relation that keeps everything below a directory.
\<close>

definition io_keeps :: "(fs \<Rightarrow> fs \<Rightarrow> bool) \<Rightarrow> 'a io \<Rightarrow> bool" where
  "io_keeps R m \<longleftrightarrow> (\<forall>w r w'. m w = (r, w') \<longrightarrow> R (w_fs w) (w_fs w'))"

locale io_frame =
  fixes R :: "fs \<Rightarrow> fs \<Rightarrow> bool"
  assumes keep_refl: "R fs fs"
    and keep_trans: "R fs1 fs2 \<Longrightarrow> R fs2 fs3 \<Longrightarrow> R fs1 fs3"
begin

lemma keeps_pure:
  "io_keeps R (io_return x)" "io_keeps R (io_raise e)" "io_keeps R (io_res r)"
  "io_keeps R (io_gets f)" "io_keeps R (io_check b e)" "io_keeps R (rec_add k)" "io_keeps R rec_get"
  by (auto simp: io_keeps_def io_defs rec_add_def rec_get_def keep_refl)

lemma keeps_modify: "(\<And>fs. R fs (f fs)) \<Longrightarrow> io_keeps R (io_modify f)"
  by (auto simp: io_keeps_def io_modify_def)

lemma keeps_bind:
  assumes "io_keeps R m" "\<And>x. io_keeps R (f x)"
  shows "io_keeps R (io_bind m f)"
  unfolding io_keeps_def
proof (intro allI impI)
  fix w r w' assume b: "io_bind m f w = (r, w')"
  obtain r1 w1 where m: "m w = (r1, w1)" by fastforce
  then have 1: "R (w_fs w) (w_fs w1)" using assms(1) by (auto simp: io_keeps_def)
  show "R (w_fs w) (w_fs w')"
  proof (cases r1)
    case (Inl e)
    then show ?thesis using b m 1 by (simp add: io_bind_def)
  next
    case (Inr x)
    then have "f x w1 = (r, w')" using b m by (simp add: io_bind_def)
    then show ?thesis using assms(2) [of x] 1 keep_trans by (auto simp: io_keeps_def)
  qed
qed

lemma keeps_catch:
  assumes "io_keeps R m" "\<And>e. io_keeps R (h e)"
  shows "io_keeps R (io_catch m h)"
  unfolding io_keeps_def
proof (intro allI impI)
  fix w r w' assume b: "io_catch m h w = (r, w')"
  obtain r1 w1 where m: "m w = (r1, w1)" by fastforce
  then have 1: "R (w_fs w) (w_fs w1)" using assms(1) by (auto simp: io_keeps_def)
  show "R (w_fs w) (w_fs w')"
  proof (cases r1)
    case (Inl e)
    then have "h e w1 = (r, w')" using b m by (simp add: io_catch_def)
    then show ?thesis using assms(2) [of e] 1 keep_trans by (auto simp: io_keeps_def)
  next
    case (Inr x)
    then show ?thesis using b m 1 by (simp add: io_catch_def)
  qed
qed

lemma keeps_fold: "(\<And>x s. x \<in> set xs \<Longrightarrow> io_keeps R (f x s)) \<Longrightarrow> io_keeps R (io_fold f xs s)"
  by (induction xs arbitrary: s) (auto intro!: keeps_bind keeps_pure)

lemmas keeps = keeps_pure keeps_bind keeps_catch

lemma keeps_exec: "(\<And>cmd. io_keeps R (run_aidl t cmd)) \<Longrightarrow> io_keeps R (exec_cmd t cmd)"
  unfolding exec_cmd_def by (intro keeps)

lemma keeps_add_dependency:
  assumes "\<And>cmd. io_keeps R (run_aidl t cmd)"
  shows "io_keeps R (add_dependency t i v ad)"
proof -
  have g: "io_keeps R (aidl_gen_preprocessed t i v deps)" for deps
    unfolding aidl_gen_preprocessed_def Let_def by (intro keeps keeps_exec assms)
  have "io_keeps R (store_dependency t i v ad)" for ad
    unfolding store_dependency_def by (intro keeps g)
  then show ?thesis
    unfolding add_dependency_def by (auto intro!: keeps split: option.splits)
qed

lemma keeps_process_imports:
  assumes "\<And>cmd. io_keeps R (run_aidl t cmd)"
  shows "io_keeps R (process_imports t limit i d ad)"
proof (induction limit arbitrary: i ad)
  case (Suc limit)
  have "io_keeps R (import_step (\<lambda>j. process_imports t limit j d) d x a)" for x a
    by (cases x) (auto intro!: keeps Suc.IH)
  moreover have "io_keeps R (if c = 1 then io_return a
      else io_bind (add_dependency t i v a) (\<lambda>a'. io_return (a'\<lparr>ad_version := v, ad_name := n\<rparr>)))" for c :: int and a v n
    by (simp add: keeps keeps_add_dependency assms)
  ultimately show ?case
    unfolding process_imports.simps by (intro keeps keeps_fold)
qed (simp add: keeps_pure)

lemma keeps_get_dependencies:
  assumes "\<And>cmd. io_keeps R (run_aidl t cmd)"
  shows "io_keeps R (get_dependencies t limit i d v fz)"
  unfolding get_dependencies_def Let_def by (intro keeps keeps_process_imports assms)

lemma keeps_check_api:
  assumes "\<And>cmd. io_keeps R (run_aidl t cmd)"
    and "\<And>fs. R fs (os_makedirs (path_dirname (timestamp_file i new)) fs)"
    and "\<And>fs. R fs (os_touch (timestamp_file i new) fs)"
  shows "io_keeps R (check_api t limit i d old new lvl)"
  unfolding check_api_def split_beta by (intro keeps keeps_modify keeps_get_dependencies assms)

lemma keeps_check_integrity: "io_keeps R (check_integrity t i dump)"
  unfolding check_integrity_def by (intro keeps)

end

section \<open>Everything below a directory\<close>

definition below :: "string \<Rightarrow> string \<Rightarrow> bool" where
  "below d p \<longleftrightarrow> p = d \<or> under d p"

definition same_below :: "string \<Rightarrow> fs \<Rightarrow> fs \<Rightarrow> bool" where
  "same_below d fs fs' \<longleftrightarrow> (wf_dict fs \<longrightarrow> wf_dict fs') \<and> (\<forall>p. below d p \<longrightarrow> map_of fs' p = map_of fs p)"

interpretation below: io_frame "same_below d" for d
  by unfold_locales (auto simp: same_below_def)

text \<open>The compiler writes nothing below a directory.\<close>

definition aidl_frame :: "tools \<Rightarrow> string \<Rightarrow> bool" where
  "aidl_frame t d \<longleftrightarrow> (\<forall>cmd fs. same_below d fs (snd (t_aidl t cmd fs)))"

lemma run_aidl_keeps: "aidl_frame t d \<Longrightarrow> io_keeps (same_below d) (run_aidl t cmd)"
  unfolding io_keeps_def run_aidl_def aidl_frame_def
  by (auto split: prod.splits) (metis snd_conv)

lemma mkdirs_wf: "wf_dict fs \<Longrightarrow> wf_dict (fold mkdir1 ps fs)"
proof (induction ps arbitrary: fs)
  case (Cons p ps)
  have "wf_dict (mkdir1 p fs)"
    using Cons.prems by (auto simp: mkdir1_def wf_dict_def path_exists_def map_of_eq_None_iff)
  then show ?case using Cons.IH by simp
qed simp

lemma below_trans: "below d q \<Longrightarrow> below q p \<Longrightarrow> below d p"
  by (auto simp: below_def under_def prefix_def)

lemma dirname_under:
  assumes "path_dirname p = q" "length q < length p" "\<not> list_all (\<lambda>c. c = CHR ''/'') q"
  shows "under q p"
proof -
  let ?slash = "\<lambda>c. c = CHR ''/''"
  let ?h = "path_head p"
  have ns: "\<not> list_all ?slash ?h" using assms by (auto simp: path_dirname_def Let_def split: if_splits)
  then have q: "q = rev (dropWhile ?slash (rev ?h))" using assms(1) by (simp add: path_dirname_def Let_def)
  define s where "s = rev (takeWhile ?slash (rev ?h))"
  have h: "?h = q @ s" unfolding q s_def by (simp flip: rev_append)
  have "?h \<noteq> []" using ns by auto
  then have l: "last ?h = CHR ''/''"
    using hd_dropWhile [of not_slash "rev p"] by (simp add: path_head_def hd_rev last_rev not_slash_def)
  have "s \<noteq> []"
  proof
    assume "s = []"
    then have "takeWhile ?slash (rev ?h) = []" by (simp add: s_def)
    moreover obtain r where "rev ?h = CHR ''/'' # r"
      using l \<open>?h \<noteq> []\<close> by (metis append_butlast_last_id rev.simps(2) rev_rev_ident)
    ultimately show False by simp
  qed
  moreover have "\<forall>c \<in> set s. c = CHR ''/''" unfolding s_def by (auto dest: set_takeWhileD)
  ultimately obtain s' where "s = CHR ''/'' # s'" by (cases s) auto
  then have "p = (q @ ''/'') @ s' @ path_basename p" using path_head_basename [of p] h by simp
  then show ?thesis unfolding under_def by (metis prefixI)
qed

lemma parents_below: "q \<in> set (parents n p) \<Longrightarrow> below q p \<or> list_all (\<lambda>c. c = CHR ''/'') q"
proof (induction n arbitrary: p)
  case (Suc n)
  show ?case
  proof (cases "q = p")
    case False
    then have l: "length (path_dirname p) < length p" and q: "q \<in> set (parents n (path_dirname p))"
      using Suc.prems by (auto split: if_splits)
    show ?thesis
    proof (cases "list_all (\<lambda>c. c = CHR ''/'') (path_dirname p)")
      case True
      have "prefix q (path_dirname p)" using parents_prefix [OF q] .
      then show ?thesis using True unfolding list_all_iff by (meson set_mono_prefix subsetD)
    next
      case False
      then have "below (path_dirname p) p" using dirname_under [OF refl l] by (simp add: below_def)
      then show ?thesis using Suc.IH [OF q] below_trans by blast
    qed
  qed (simp add: below_def)
qed (simp add: below_def)

lemma makedirs_same_below:
  assumes "plain_dir d" "\<not> below d p"
  shows "same_below d fs (os_makedirs p fs)"
  unfolding same_below_def os_makedirs_def
proof (intro conjI impI allI)
  fix q assume q: "below d q"
  have "prefix d q" using q by (auto simp: below_def under_def dest: append_prefixD)
  then have "last d \<in> set q" using assms(1) set_mono_prefix by (metis last_in_set plain_dir_def subsetD)
  then have "\<not> list_all (\<lambda>c. c = CHR ''/'') q"
    using assms(1) unfolding list_all_iff plain_dir_def not_slash_def by blast
  then have "q \<notin> set (parents (length p) p)"
    using parents_below below_trans [OF q] assms(2) by blast
  then show "map_of (fold mkdir1 (parents (length p) p) fs) q = map_of fs q"
    by (intro mkdirs_frame) simp
qed (rule mkdirs_wf)

lemma touch_same_below: "\<not> below d p \<Longrightarrow> same_below d fs (os_touch p fs)"
proof -
  assume d: "\<not> below d p"
  have "map_of (os_touch p fs) q = map_of fs q" if "below d q" for q
    using that d by (cases "map_of fs q") (auto simp: os_touch_def)
  moreover have "wf_dict fs \<Longrightarrow> wf_dict (os_touch p fs)"
    by (auto simp: os_touch_def path_exists_def wf_dict_def map_of_eq_None_iff)
  ultimately show ?thesis by (simp add: same_below_def)
qed

lemma dict_set_same_below: "\<not> below d p \<Longrightarrow> same_below d fs (dict_set p n fs)"
  by (auto simp: same_below_def)

section \<open>Validation\<close>

text \<open>The files that the checks write are not below a directory.\<close>

definition outputs_outside :: "AidlInterface \<Rightarrow> string \<Rightarrow> bool" where
  "outputs_outside i d \<longleftrightarrow>
     (\<forall>dump. \<not> below d (timestamp_file i dump) \<and> \<not> below d (path_dirname (timestamp_file i dump))) \<and>
     \<not> below d (interface_api_dir_out i) \<and> \<not> below d (has_dev_path i)"

lemma check_api_same:
  assumes "plain_dir d" "aidl_frame t d" "outputs_outside i d"
  shows "io_keeps (same_below d) (check_api t limit i ds old new lvl)"
  using assms unfolding outputs_outside_def
  by (intro below.keeps_check_api run_aidl_keeps makedirs_same_below touch_same_below) auto

lemma check_equality_same:
  assumes "plain_dir d" "aidl_frame t d" "outputs_outside i d" "\<not> below d (equality_message i)"
  shows "io_keeps (same_below d) (check_equality t limit host i ds old new)"
  unfolding check_equality_def
  using assms check_api_same [OF assms(1-3)]
  by (intro below.keeps below.keeps_modify makedirs_same_below dict_set_same_below) (auto simp: outputs_outside_def)

lemma validate_dump_same:
  assumes "plain_dir d" "aidl_frame t d" "outputs_outside i d"
  shows "io_keeps (same_below d) (validate_dump t limit i ds dumps k)"
  unfolding validate_dump_def check_compatibility_def
  using check_api_same [OF assms] by (auto intro!: below.keeps below.keeps_check_integrity)

lemma validate_interface_same:
  assumes "plain_dir d" "aidl_frame t d" "outputs_outside i d"
  shows "io_keeps (same_below d) (validate_interface t limit i ds)"
  unfolding validate_interface_def Let_def
  by (intro below.keeps below.keeps_fold validate_dump_same [OF assms])

lemma aidl_files_mem: "p \<in> set (aidl_files fs d) \<longleftrightarrow> under d p \<and> py_endswith p ''.aidl'' \<and> path_isfile fs p"
  using in_keys_iff [of p fs] by (auto simp: aidl_files_def path_isfile_def path_exists_def simp del: set_map)

text \<open>The hash depends on the AIDL files below the directory and on nothing else.\<close>

lemma api_hash_same:
  assumes "wf_dict fs" "wf_dict fs'" "\<And>p. under d p \<Longrightarrow> py_endswith p ''.aidl'' \<Longrightarrow> map_of fs' p = map_of fs p"
  shows "aidl_files fs' d = aidl_files fs d" "api_hash sha1 fs' d ver = api_hash sha1 fs d ver"
proof -
  show files: "aidl_files fs' d = aidl_files fs d"
  proof (rule sorted_distinct_set_unique)
    show "set (aidl_files fs' d) = set (aidl_files fs d)"
      using assms(3) by (auto simp: aidl_files_mem path_isfile_def path_exists_def path_isdir_def)
  qed (use assms(1,2) in \<open>simp_all add: aidl_files_def wf_dict_def\<close>)
  have "map (\<lambda>p. sha1 (node_text (the (map_of fs' p))) @ ''  .'' @ drop (length d) p @ [chr_nl]) (aidl_files fs d) =
      map (\<lambda>p. sha1 (node_text (the (map_of fs p))) @ ''  .'' @ drop (length d) p @ [chr_nl]) (aidl_files fs d)"
    using assms(3) by (intro map_cong refl) (simp add: aidl_files_mem)
  then have "sha1_lines sha1 fs' d = sha1_lines sha1 fs d"
    unfolding sha1_lines_def files by (simp only:)
  then show "api_hash sha1 fs' d ver = api_hash sha1 fs d ver" by (simp add: api_hash_def)
qed

lemma integrity_same:
  assumes "same_below s fs fs'" "wf_dict fs" "below s d" "below s h"
  shows "integrity_ok sha1 fs' d ver h \<longleftrightarrow> integrity_ok sha1 fs d ver h"
proof -
  have "map_of fs' p = map_of fs p" if "below d p" for p
    using assms(1) below_trans [OF assms(3) that] by (simp add: same_below_def)
  then have "api_hash sha1 fs' d ver = api_hash sha1 fs d ver"
    by (intro api_hash_same) (use assms(1,2) in \<open>auto simp: same_below_def below_def\<close>)
  moreover have "map_of fs' h = map_of fs h" using assms(1,4) by (simp add: same_below_def)
  ultimately show ?thesis by (simp add: integrity_ok_def split: option.splits)
qed

text \<open>What a passed check of one dump says of the file system it started from.\<close>

definition dump_intact :: "tools \<Rightarrow> fs \<Rightarrow> ApiDump \<Rightarrow> bool" where
  "dump_intact t fs dump \<longleftrightarrow> (\<exists>ver. version_for_hashgen (du_version dump) = Inr ver \<and>
     integrity_ok (t_sha1 t) fs (du_api_dir dump) ver (the_default ''None'' (du_hash_file dump)))"

lemma validate_dump_intact:
  assumes "validate_dump t limit i ds dumps k w = (Inr (), w')"
  shows "if path_exists (w_fs w) (the_default ''None'' (du_hash_file (dumps ! k)))
    then dump_intact t (w_fs w) (dumps ! k) else k = length dumps - 1"
proof (cases "path_exists (w_fs w) (the_default ''None'' (du_hash_file (dumps ! k)))")
  case True
  obtain w1 where "check_integrity t i (dumps ! k) w = (Inr (), w1)"
    using assms True by (auto simp: validate_dump_def io_gets_def io_bind_Inr)
  then have "dump_intact t (w_fs w) (dumps ! k)"
    by (cases "version_for_hashgen (du_version (dumps ! k))")
       (auto simp: check_integrity_def dump_intact_def io_gets_def io_bind_Inr io_check_def io_raise_def
         split: if_splits)
  then show ?thesis using True by simp
next
  case False
  then show ?thesis
    using assms by (auto simp: validate_dump_def io_gets_def io_bind_Inr io_check_def io_raise_def split: if_splits)
qed

lemma validate_loop_intact:
  assumes pl: "plain_dir s" and fr: "aidl_frame t s" and out: "outputs_outside i s"
    and wf: "wf_dict (w_fs w)"
    and dirs: "\<And>k. k < length dumps \<Longrightarrow> below s (du_api_dir (dumps ! k)) \<and>
      below s (the_default ''None'' (du_hash_file (dumps ! k)))"
    and run: "io_fold (\<lambda>k _. validate_dump t limit i ds dumps k) [0..<length dumps] () w = (Inr (), w')"
    and k: "k < length dumps"
  shows "if path_exists (w_fs w) (the_default ''None'' (du_hash_file (dumps ! k)))
    then dump_intact t (w_fs w) (dumps ! k) else k = length dumps - 1"
proof -
  let ?ok = "\<lambda>fs k. if path_exists fs (the_default ''None'' (du_hash_file (dumps ! k)))
    then dump_intact t fs (dumps ! k) else k = length dumps - 1"
  let ?P = "\<lambda>us x v. same_below s (w_fs w) (w_fs v) \<and> (\<forall>k \<in> set us. ?ok (w_fs w) k)"
  have "(\<exists>u. (Inr () :: unit res) = Inr u \<and> ?P [0..<length dumps] u w') \<or> (\<exists>e. (Inr () :: unit res) = Inl e \<and> True)"
  proof (rule io_fold_cases [OF run, where P = ?P and Q = "\<lambda>_. True"])
    show "?P [] () w" by (simp add: below.keep_refl)
    fix us k vs x v r v'
    assume split: "[0..<length dumps] = us @ k # vs" and P: "?P us x v"
      and step: "validate_dump t limit i ds dumps k v = (r, v')"
    show "(\<exists>u. r = Inr u \<and> ?P (us @ [k]) u v') \<or> (\<exists>e. r = Inl e \<and> True)"
    proof (cases r)
      case (Inr u)
      have kl: "k < length dumps" using split by (metis atLeastLessThan_iff in_set_conv_decomp set_upt)
      have same: "same_below s (w_fs w) (w_fs v)" using P by simp
      have "same_below s (w_fs v) (w_fs v')"
        using validate_dump_same [OF pl fr out] step by (auto simp: io_keeps_def)
      then have "same_below s (w_fs w) (w_fs v')" using same below.keep_trans by blast
      moreover have "?ok (w_fs v) k" using step Inr by (intro validate_dump_intact) simp
      moreover have "dump_intact t (w_fs v) (dumps ! k) \<longleftrightarrow> dump_intact t (w_fs w) (dumps ! k)"
        unfolding dump_intact_def using dirs [OF kl] integrity_same [OF same wf] by simp
      moreover have "path_exists (w_fs v) (the_default ''None'' (du_hash_file (dumps ! k))) \<longleftrightarrow>
          path_exists (w_fs w) (the_default ''None'' (du_hash_file (dumps ! k)))"
        using same dirs [OF kl] by (simp add: path_exists_def same_below_def)
      ultimately show ?thesis using P Inr by auto
    qed simp
  qed
  then have "\<forall>k \<in> set [0..<length dumps]. ?ok (w_fs w) k" by blast
  then show ?thesis using k by (metis atLeastLessThan_iff set_upt zero_le)
qed

lemma str_of_nat_plain: "plain_name (str_of_nat n)"
proof -
  have "CHR ''/'' \<notin> set (str_of_nat n)"
    using str_of_nat_digits [of "CHR ''/''" n] by (auto simp: is_dec_def Let_def)
  then show ?thesis by (auto simp: plain_name_def list_all_iff not_slash_def)
qed

lemma version_dir_below:
  assumes "plain_dir s" "plain_name v"
  shows "below s (path_join s v)" "below s (path_join (path_join s v) ''.hash'')"
proof -
  show b: "below s (path_join s v)"
    using assms by (simp add: path_join_plain below_def under_def)
  have "plain_name ''.hash''" by (simp add: plain_name_def not_slash_def)
  then have "below (path_join s v) (path_join (path_join s v) ''.hash'')"
    using path_join_plain [OF plain_dir_join [OF assms]] by (simp add: below_def under_def)
  then show "below s (path_join (path_join s v) ''.hash'')" using b below_trans by blast
qed

lemma versions_plain: "wf_interface i \<Longrightarrow> v \<in> set (versions i) \<Longrightarrow> plain_name v"
  unfolding wf_interface_def by (metis (mono_tags, lifting) imageE list.set_map str_of_nat_plain)

lemma current_plain: "plain_name CURRENT_VERSION"
  by (simp add: plain_name_def CURRENT_VERSION_def not_slash_def)

lemma frozen_dumps_Inr:
  assumes "frozen_dumps fs i = Inr dumps"
  shows "dumps = (if has_frozen_versions fs i then map (\<lambda>v. dump_of fs v (get_versioned_dir i v)) (versions i) else [])"
proof (cases "has_frozen_versions fs i")
  case True
  let ?g = "\<lambda>ver. let dir = get_versioned_dir i ver in
      if path_exists fs dir then Inr (dump_of fs ver dir) else Inl (RuntimeError ver)"
  have r: "rmap ?g (versions i) = Inr dumps" using assms True by (simp add: frozen_dumps_def)
  then have d: "dumps = map (\<lambda>v. projr (?g v)) (versions i)" "\<forall>v \<in> set (versions i). ?g v = Inr (projr (?g v))"
    using rmap_projr [OF r] by blast+
  have "projr (?g v) = dump_of fs v (get_versioned_dir i v)" if "v \<in> set (versions i)" for v
    using d(2) that by (fastforce simp: Let_def split: if_splits)
  then have "map (\<lambda>v. projr (?g v)) (versions i) = map (\<lambda>v. dump_of fs v (get_versioned_dir i v)) (versions i)"
    by (intro map_cong refl)
  then show ?thesis using d(1) True by simp
qed (use assms in \<open>simp add: frozen_dumps_def\<close>)

text \<open>A validation that passes: the dumps are the frozen versions and the current one, all intact.\<close>

lemma validate_passes:
  assumes wf: "wf_interface i" "wf_dict (w_fs w)" and s: "plain_dir (interface_root_stable i)"
    and fr: "aidl_frame t (interface_root_stable i)" "outputs_outside i (interface_root_stable i)"
    and run: "validate_interface t limit i ds w = (Inr dumps, w')"
  shows "\<exists>cur. dumps = (if has_frozen_versions (w_fs w) i
        then map (\<lambda>v. dump_of (w_fs w) v (get_versioned_dir i v)) (versions i) else []) @ cur \<and>
      (if path_exists (w_fs w) (get_versioned_dir i CURRENT_VERSION)
       then \<exists>nv. next_version i = Inr nv \<and> cur = [dump_of (w_fs w) nv (get_versioned_dir i CURRENT_VERSION)]
       else cur = [])"
    and "k < length dumps \<Longrightarrow> path_exists (w_fs w) (the_default ''None'' (du_hash_file (dumps ! k))) \<Longrightarrow>
      dump_intact t (w_fs w) (dumps ! k)"
    and "k < length dumps - 1 \<Longrightarrow> path_exists (w_fs w) (the_default ''None'' (du_hash_file (dumps ! k)))"
proof -
  let ?cd = "get_versioned_dir i CURRENT_VERSION"
  let ?has = "path_exists (w_fs w) ?cd"
  obtain cs frozen where cs: "(if ?has then rbind (next_version i) (\<lambda>nv. Inr [nv]) else Inr []) = Inr cs"
    and frozen: "frozen_dumps (w_fs w) i = Inr frozen"
    and d: "dumps = frozen @ map (\<lambda>nv. dump_of (w_fs w) nv ?cd) cs"
    and loop: "io_fold (\<lambda>k _. validate_dump t limit i ds dumps k) [0..<length dumps] () w = (Inr (), w')"
    using run unfolding validate_interface_def Let_def
    by (auto simp: io_bind_Inr io_gets_def io_res_def io_return_def)
  let ?cur = "map (\<lambda>nv. dump_of (w_fs w) nv ?cd) cs"
  have cur: "if ?has then \<exists>nv. next_version i = Inr nv \<and> ?cur = [dump_of (w_fs w) nv ?cd] else ?cur = []"
    using cs by (auto simp: rbind_eq_Inr split: if_splits)
  show "\<exists>cur. dumps = (if has_frozen_versions (w_fs w) i
        then map (\<lambda>v. dump_of (w_fs w) v (get_versioned_dir i v)) (versions i) else []) @ cur \<and>
      (if ?has then \<exists>nv. next_version i = Inr nv \<and> cur = [dump_of (w_fs w) nv ?cd] else cur = [])"
    using d frozen_dumps_Inr [OF frozen] cur by blast
  have "below (interface_root_stable i) (du_api_dir x) \<and>
      below (interface_root_stable i) (the_default ''None'' (du_hash_file x))" if x: "x \<in> set dumps" for x
  proof -
    obtain v ver where "plain_name v" "x = dump_of (w_fs w) ver (get_versioned_dir i v)"
    proof -
      have "x \<in> (\<lambda>v. dump_of (w_fs w) v (get_versioned_dir i v)) ` set (versions i) \<or>
          x \<in> (\<lambda>nv. dump_of (w_fs w) nv ?cd) ` set cs"
        using x unfolding d frozen_dumps_Inr [OF frozen] by (auto split: if_splits)
      then show thesis using that versions_plain [OF wf(1)] current_plain by blast
    qed
    then show ?thesis
      using version_dir_below [OF s] by (simp add: dump_of_def get_versioned_dir_def the_default_def)
  qed
  then have ok: "if path_exists (w_fs w) (the_default ''None'' (du_hash_file (dumps ! k)))
      then dump_intact t (w_fs w) (dumps ! k) else k = length dumps - 1" if "k < length dumps" for k
    by (intro validate_loop_intact [OF s fr wf(2) _ loop that]) simp
  show "k < length dumps \<Longrightarrow> path_exists (w_fs w) (the_default ''None'' (du_hash_file (dumps ! k))) \<Longrightarrow>
      dump_intact t (w_fs w) (dumps ! k)" using ok [of k] by simp
  assume k: "k < length dumps - 1"
  then have "k < length dumps" by simp
  from ok [OF this] show "path_exists (w_fs w) (the_default ''None'' (du_hash_file (dumps ! k)))"
    using k by (metis less_irrefl)
qed

end
