(* ===== verification/Py_Getopt.thy ===== *)
theory Py_Getopt
  imports Py_Str
begin

text \<open>
  What the command lines use of \<^verbatim>\<open>getopt\<close>: short options that may be grouped, long options that may
  be abbreviated, values in the same or in the next argument; the first argument that is no
  option ends them.
\<close>

text \<open>Short options are a list of letters with whether they take a value; long ones of names.\<close>

definition short_takes :: "(char \<times> bool) list \<Rightarrow> char \<Rightarrow> bool res" where
  "short_takes shorts c = (case map_of shorts c of Some b \<Rightarrow> Inr b | None \<Rightarrow> Inl (GetoptError [c]))"

definition long_takes :: "(string \<times> bool) list \<Rightarrow> string \<Rightarrow> (bool \<times> string) res" where
  "long_takes longs opt =
     (let ps = filter (\<lambda>(n, b). prefix opt n) longs in
      case map_of ps opt of
        Some b \<Rightarrow> Inr (b, opt)
      | None \<Rightarrow> (case ps of [(n, b)] \<Rightarrow> Inr (b, n) | _ \<Rightarrow> Inl (GetoptError opt)))"

fun do_shorts :: "(char \<times> bool) list \<Rightarrow> (string \<times> string) list \<Rightarrow> string \<Rightarrow> string list \<Rightarrow>
    ((string \<times> string) list \<times> string list) res" where
  "do_shorts shorts opts [] args = Inr (opts, args)"
| "do_shorts shorts opts (c # s) args = rbind (short_takes shorts c) (\<lambda>takes.
     if takes
     then (if s \<noteq> [] then Inr (opts @ [([CHR ''-'', c], s)], args)
           else (case args of
                   [] \<Rightarrow> Inl (GetoptError [c])
                 | a # as \<Rightarrow> Inr (opts @ [([CHR ''-'', c], a)], as)))
     else do_shorts shorts (opts @ [([CHR ''-'', c], [])]) s args)"

definition do_longs :: "(string \<times> bool) list \<Rightarrow> (string \<times> string) list \<Rightarrow> string \<Rightarrow> string list \<Rightarrow>
    ((string \<times> string) list \<times> string list) res" where
  "do_longs longs opts s args =
     (case py_partition ''='' s of (opt, eq, val) \<Rightarrow>
      rbind (long_takes longs opt) (\<lambda>(takes, name).
        if takes
        then (if eq \<noteq> [] then Inr (opts @ [(''--'' @ name, val)], args)
              else (case args of
                      [] \<Rightarrow> Inl (GetoptError opt)
                    | a # as \<Rightarrow> Inr (opts @ [(''--'' @ name, a)], as)))
        else if eq \<noteq> [] then Inl (GetoptError opt)
        else Inr (opts @ [(''--'' @ name, [])], args)))"

text \<open>A \<^verbatim>\<open>GetoptError\<close> carries the option it is about.\<close>

function getopt :: "(char \<times> bool) list \<Rightarrow> (string \<times> bool) list \<Rightarrow> (string \<times> string) list \<Rightarrow> string list \<Rightarrow>
    ((string \<times> string) list \<times> string list) res" where
  "getopt shorts longs opts [] = Inr (opts, [])"
| "getopt shorts longs opts (a # args) =
     (if \<not> py_startswith a ''-'' \<or> a = ''-'' then Inr (opts, a # args)
      else if a = ''--'' then Inr (opts, args)
      else (case (if py_startswith a ''--'' then do_longs longs opts (drop 2 a) args
                  else do_shorts shorts opts (drop 1 a) args) of
              Inl e \<Rightarrow> Inl e
            | Inr (opts', args') \<Rightarrow>
                if length args' \<le> length args then getopt shorts longs opts' args' else Inl (GetoptError a)))"
  by pat_completeness auto
termination by (relation "measure (\<lambda>(s, l, d, xs). length xs)") auto

section \<open>The arguments that are left\<close>

lemma do_shorts_none: "do_shorts shorts opts s [] = Inr (opts', args') \<Longrightarrow> args' = []"
  by (induction shorts opts s "[] :: string list" rule: do_shorts.induct)
     (auto simp: rbind_eq_Inr split: if_splits)

lemma do_longs_none: "do_longs longs opts s [] = Inr (opts', args') \<Longrightarrow> args' = []"
  by (auto simp: do_longs_def rbind_eq_Inr split: if_splits prod.splits)

text \<open>The last argument is an option, or it is left over.\<close>

lemma getopt_single:
  assumes "getopt shorts longs opts [a] = Inr (opts', args)"
  shows "args = [a] \<or> args = []"
proof -
  consider "\<not> py_startswith a ''-'' \<or> a = ''-''" | "a = ''--''"
    | o1 args1 where "py_startswith a ''-''" "a \<noteq> ''-''" "a \<noteq> ''--''"
        "(if py_startswith a ''--'' then do_longs longs opts (drop 2 a) []
          else do_shorts shorts opts (drop 1 a) []) = Inr (o1, args1)"
    using assms by (auto split: if_splits sum.splits)
  then show ?thesis
  proof cases
    case (3 o1 args1)
    then have "args1 = []" using do_longs_none do_shorts_none by (metis (full_types))
    then show ?thesis using assms 3 by auto
  qed (use assms in auto)
qed

end
