(* ===== verification/Iface_Update.thy ===== *)
theory Iface_Update
  imports Lib_Deps Py_Getopt
begin

text \<open>
  \<^verbatim>\<open>host/interface-update.py\<close>: the tool that adds a version to the \<^verbatim>\<open>versions_with_info\<close> of a
  definition file, with what it uses of \<^verbatim>\<open>ast.literal_eval\<close>: string, list and dict displays.
\<close>

section \<open>Literals\<close>

datatype lit = LStr string | LList "lit list" | LDict "(lit \<times> lit) list"

definition skip_blank :: "string \<Rightarrow> string" where
  "skip_blank s = dropWhile (\<lambda>c. c = CHR '' '' \<or> c = chr_nl) s"

text \<open>A string display without escapes, after its opening quote.\<close>

definition read_string :: "char \<Rightarrow> string \<Rightarrow> (string \<times> string) option" where
  "read_string q s =
     (let body = takeWhile (\<lambda>c. c \<noteq> q) s
      in if q \<in> set s \<and> chr_bslash \<notin> set body \<and> chr_nl \<notin> set body
         then Some (body, drop (Suc (length body)) s) else None)"

text \<open>
  Displays, by recursive descent; every call uses up one of the steps, and a text needs no more
  steps than it has characters.
\<close>

fun read_lit :: "nat \<Rightarrow> string \<Rightarrow> (lit \<times> string) option"
  and read_items :: "nat \<Rightarrow> string \<Rightarrow> (lit list \<times> string) option"
  and read_pairs :: "nat \<Rightarrow> string \<Rightarrow> ((lit \<times> lit) list \<times> string) option" where
  "read_lit 0 s = None"
| "read_lit (Suc n) s = (case skip_blank s of
     [] \<Rightarrow> None
   | c # r \<Rightarrow>
       if c = chr_quote \<or> c = CHR 0x27 then map_option (\<lambda>(x, r'). (LStr x, r')) (read_string c r)
       else if c = CHR ''['' then map_option (\<lambda>(xs, r'). (LList xs, r')) (read_items n r)
       else if c = CHR ''{'' then map_option (\<lambda>(xs, r'). (LDict xs, r')) (read_pairs n r)
       else None)"
| "read_items 0 s = None"
| "read_items (Suc n) s = (case skip_blank s of
     [] \<Rightarrow> None
   | c # r \<Rightarrow>
       if c = CHR '']'' then Some ([], r)
       else (case read_lit n s of
          None \<Rightarrow> None
        | Some (x, r1) \<Rightarrow> (case skip_blank r1 of
            [] \<Rightarrow> None
          | c1 # r2 \<Rightarrow>
              if c1 = CHR '','' then map_option (\<lambda>(xs, r'). (x # xs, r')) (read_items n r2)
              else if c1 = CHR '']'' then Some ([x], r2) else None)))"
| "read_pairs 0 s = None"
| "read_pairs (Suc n) s = (case skip_blank s of
     [] \<Rightarrow> None
   | c # r \<Rightarrow>
       if c = CHR ''}'' then Some ([], r)
       else (case read_lit n s of
          None \<Rightarrow> None
        | Some (k, r1) \<Rightarrow> (case skip_blank r1 of
            [] \<Rightarrow> None
          | c1 # r2 \<Rightarrow> if c1 \<noteq> CHR '':'' then None else (case read_lit n r2 of
              None \<Rightarrow> None
            | Some (v, r3) \<Rightarrow> (case skip_blank r3 of
                [] \<Rightarrow> None
              | c3 # r4 \<Rightarrow>
                  if c3 = CHR '','' then map_option (\<lambda>(xs, r'). ((k, v) # xs, r')) (read_pairs n r4)
                  else if c3 = CHR ''}'' then Some ([(k, v)], r4) else None)))))"

definition literal_eval :: "string \<Rightarrow> lit res" where
  "literal_eval s = (case read_lit (Suc (length s)) s of
       Some (x, r) \<Rightarrow> if skip_blank r = [] then Inr x else Inl (ValueError s)
     | None \<Rightarrow> Inl (ValueError s))"

section \<open>The tool\<close>

type_synonym version_info = "string \<times> string list"

record update_args =
  ua_modules :: "string list"
  ua_write :: bool
  ua_literal :: string
  ua_property :: "string option"
  ua_remove :: bool
  ua_inputs :: "string list"

definition no_args :: update_args where
  "no_args = \<lparr>ua_modules = [], ua_write = False, ua_literal = [], ua_property = None,
     ua_remove = False, ua_inputs = []\<rparr>"

definition lit_string :: "lit \<Rightarrow> string res" where
  "lit_string x = (case x of LStr s \<Rightarrow> Inr s | _ \<Rightarrow> Inl (ValueError ''not a string''))"

definition lit_strings :: "lit \<Rightarrow> string list res" where
  "lit_strings x = (case x of LList xs \<Rightarrow> rmap lit_string xs | _ \<Rightarrow> Inl (ValueError ''not a list''))"

definition lit_get :: "lit \<Rightarrow> string \<Rightarrow> lit res" where
  "lit_get x k = (case x of
       LDict ps \<Rightarrow> (case map_of (rev ps) (LStr k) of Some v \<Rightarrow> Inr v | None \<Rightarrow> Inl (KeyError k))
     | _ \<Rightarrow> Inl (ValueError k))"

text \<open>The versions of a document; \<^const>\<open>None\<close> is a field without a value, which has no length.\<close>

definition update_versions_with_info :: "version_info list option \<Rightarrow> string \<Rightarrow> version_info list res" where
  "update_versions_with_info versionWithInfo addLiteral =
     rbind (literal_eval addLiteral) (\<lambda>dict.
     rbind (rbind (lit_get dict ''version'') lit_string) (\<lambda>version.
     rbind (rbind (lit_get dict ''imports'') lit_strings) (\<lambda>imps.
       (case versionWithInfo of
          None \<Rightarrow> Inl (TypeError ''NoneType'')
        | Some info \<Rightarrow> Inr (info @ [(version, imps)])))))"

text \<open>One module name: a document of another name, and another property, are left alone.\<close>

definition update_module :: "string option \<Rightarrow> string \<Rightarrow> string \<Rightarrow> interface_def \<Rightarrow> interface_def res" where
  "update_module propertyName addLiteral moduleName data =
     (if df_name data \<noteq> moduleName then Inr data
      else if propertyName = Some ''versions_with_info''
      then rbind (update_versions_with_info (case df_versions_with_info data of
               Absent \<Rightarrow> Some [] | Null \<Rightarrow> None | Present info \<Rightarrow> Some info) addLiteral)
             (\<lambda>info. Inr (data\<lparr>df_versions_with_info := Present info\<rparr>))
      else Inr data)"

definition definition_file :: "fs \<Rightarrow> string \<Rightarrow> string option" where
  "definition_file fs file =
     (if path_exists fs (file @ ''.json'') then Some (file @ ''.json'')
      else if path_exists fs (file @ ''.yaml'') then Some (file @ ''.yaml'')
      else None)"

definition process_file :: "string option \<Rightarrow> string \<Rightarrow> string list \<Rightarrow> string \<Rightarrow> fs \<Rightarrow> fs res" where
  "process_file propertyName addLiteral moduleNames file fs =
     (case definition_file fs file of
        None \<Rightarrow> Inr fs
      | Some f \<Rightarrow> (case map_of fs f of
          Some (FDef data) \<Rightarrow> rbind (rfold (update_module propertyName addLiteral) moduleNames data)
            (\<lambda>data'. Inr (dict_set f (FDef data') fs))
        | _ \<Rightarrow> Inl (ValueError f)))"

text \<open>The option loop and the checks of \<^verbatim>\<open>main\<close>.\<close>

definition update_option :: "string \<times> string \<Rightarrow> update_args \<Rightarrow> update_args res" where
  "update_option oa args = (case oa of (opt, a) \<Rightarrow>
     if opt = ''-m'' then Inr (args\<lparr>ua_modules := py_split (py_replace '','' '' '' a)\<rparr>)
     else if opt = ''-w'' then Inr (args\<lparr>ua_write := True\<rparr>)
     else if opt = ''--add-literal'' then Inr (args\<lparr>ua_literal := a\<rparr>)
     else if opt = ''--property'' \<or> opt = ''--parameter'' then Inr (args\<lparr>ua_property := Some a\<rparr>)
     else if opt = ''--remove-property'' then Inr (args\<lparr>ua_remove := True\<rparr>)
     else if opt = ''--help'' then Inr args
     else Inl (AssertionError opt))"

definition UPDATE_SHORTS :: "(char \<times> bool) list" where
  "UPDATE_SHORTS = [(CHR ''m'', True), (CHR ''w'', False)]"

definition UPDATE_LONGS :: "(string \<times> bool) list" where
  "UPDATE_LONGS = [(''add-literal'', True), (''parameter'', True), (''property'', True),
     (''remove-property'', False), (''help'', False)]"

definition update_file :: "update_args \<Rightarrow> string \<Rightarrow> unit io" where
  "update_file args file =
     io_bind (io_gets (process_file (ua_property args) (ua_literal args) (ua_modules args) file)) (\<lambda>r.
     io_bind (io_res r) (\<lambda>fs'. io_modify (\<lambda>fs. fs')))"

definition update_main :: "string list \<Rightarrow> unit io" where
  "update_main argv =
     io_bind (io_res (getopt UPDATE_SHORTS UPDATE_LONGS [] argv)) (\<lambda>(opts, inputs).
     io_bind (io_res (rfold update_option opts (no_args\<lparr>ua_inputs := inputs\<rparr>))) (\<lambda>args.
       io_then (io_check (ua_property args \<noteq> None) (AssertionError ''parameter/property name is required''))
       (io_then (io_check (ua_modules args \<noteq> []) (AssertionError ''-m parameter is required''))
       (io_then (io_check (ua_remove args \<or> ua_literal args \<noteq> [])
           (AssertionError ''--add-literal, or --remove-property is required''))
       (io_then (io_check (ua_inputs args \<noteq> []) (AssertionError ''Input file is required''))
         (io_fold (\<lambda>file _. update_file args file) (ua_inputs args) ()))))))"

text \<open>The literal that \<^verbatim>\<open>append_version\<close> of \<^verbatim>\<open>aidl_api.py\<close> prints.\<close>

definition quoted :: "string \<Rightarrow> string" where
  "quoted s = [chr_quote] @ s @ [chr_quote]"

definition version_literal :: "string \<Rightarrow> string list \<Rightarrow> string" where
  "version_literal version imps =
     ''{'' @ quoted ''version'' @ '': '' @ quoted version @ '', '' @ quoted ''imports'' @ '': ['' @
       py_join '','' (map quoted imps) @ '']}''"

definition quotable :: "string \<Rightarrow> bool" where
  "quotable s \<longleftrightarrow> chr_quote \<notin> set s \<and> chr_bslash \<notin> set s \<and> chr_nl \<notin> set s"

lemma skip_blank_char [simp]: "c \<noteq> CHR '' '' \<Longrightarrow> c \<noteq> chr_nl \<Longrightarrow> skip_blank (c # s) = c # s"
  by (simp add: skip_blank_def)

lemma skip_blank_space [simp]: "skip_blank (CHR '' '' # s) = skip_blank s" "skip_blank [] = []"
  by (simp_all add: skip_blank_def)

lemma chr_quote_facts [simp]: "chr_quote \<noteq> CHR '' ''" "chr_quote \<noteq> chr_nl" "chr_quote \<noteq> CHR '']''" "chr_quote \<noteq> CHR ''}''"
  "CHR '']'' \<noteq> chr_nl" "CHR '','' \<noteq> chr_nl" "CHR '':'' \<noteq> chr_nl" "CHR ''}'' \<noteq> chr_nl" "CHR ''['' \<noteq> chr_nl" "CHR ''{'' \<noteq> chr_nl"
  "CHR ''['' \<noteq> chr_quote" "CHR ''{'' \<noteq> chr_quote"
  by simp_all

lemma read_quoted:
  assumes "quotable x"
  shows "read_lit (Suc n) (chr_quote # x @ chr_quote # r) = Some (LStr x, r)"
proof -
  have "takeWhile (\<lambda>c. c \<noteq> chr_quote) (x @ chr_quote # r) = x"
    using assms by (subst takeWhile_append2) (auto simp: quotable_def)
  then have "read_string chr_quote (x @ chr_quote # r) = Some (x, r)"
    using assms unfolding read_string_def by (simp add: quotable_def)
  then show ?thesis by simp
qed

lemma read_items_quoted:
  assumes "quotable x"
  shows "read_items (Suc (Suc m)) (quoted x @ CHR '','' # r) = map_option (\<lambda>(xs, r'). (LStr x # xs, r')) (read_items (Suc m) r)"
    and "read_items (Suc (Suc m)) (quoted x @ CHR '']'' # r) = Some ([LStr x], r)"
proof -
  have q: "quoted x @ s = chr_quote # x @ chr_quote # s" for s by (simp add: quoted_def)
  show "read_items (Suc (Suc m)) (quoted x @ CHR '','' # r) = map_option (\<lambda>(xs, r'). (LStr x # xs, r')) (read_items (Suc m) r)"
    unfolding q using read_quoted [OF assms, of m "CHR '','' # r"]
    by (subst read_items.simps(2)) (simp del: read_lit.simps read_items.simps)
  show "read_items (Suc (Suc m)) (quoted x @ CHR '']'' # r) = Some ([LStr x], r)"
    unfolding q using read_quoted [OF assms, of m "CHR '']'' # r"]
    by (subst read_items.simps(2)) (simp del: read_lit.simps read_items.simps)
qed

lemma read_quoted_items:
  assumes "list_all quotable imps" "length imps < n"
  shows "read_items n (py_join '','' (map quoted imps) @ CHR '']'' # r) = Some (map LStr imps, r)"
  using assms
proof (induction imps arbitrary: n)
  case Nil
  then show ?case by (cases n) simp_all
next
  case (Cons x xs)
  obtain m where n: "n = Suc (Suc m)" using Cons.prems(2) by (cases n; cases "n - 1") auto
  have x: "quotable x" using Cons.prems(1) by simp
  have IH: "read_items (Suc m) (py_join '','' (map quoted xs) @ CHR '']'' # r) = Some (map LStr xs, r)"
    using Cons.IH [of "Suc m"] Cons.prems n by simp
  show ?case
  proof (cases xs)
    case Nil
    then show ?thesis using read_items_quoted(2) [OF x, of m r] by (simp add: n del: read_items.simps)
  next
    case (Cons y ys)
    then have "py_join '','' (map quoted (x # xs)) @ CHR '']'' # r =
        quoted x @ CHR '','' # py_join '','' (map quoted xs) @ CHR '']'' # r" by simp
    then show ?thesis
      using read_items_quoted(1) [OF x, of m "py_join '','' (map quoted xs) @ CHR '']'' # r"] IH
      by (simp only: n option.map prod.case list.map)
  qed
qed

text \<open>The pairs of a version literal are read one after the other.\<close>

lemma read_pair:
  assumes "quotable k" "read_lit (Suc n) (v @ c # r) = Some (x, c # r)" "c = CHR '','' \<or> c = CHR ''}''"
  shows "read_pairs (Suc (Suc n)) (quoted k @ '': '' @ v @ c # r) =
    (if c = CHR '','' then map_option (\<lambda>(xs, r'). ((LStr k, x) # xs, r')) (read_pairs (Suc n) r) else Some ([(LStr k, x)], r))"
proof -
  have "read_lit (Suc n) (CHR '' '' # v @ c # r) = read_lit (Suc n) (v @ c # r)"
    by (simp add: read_lit.simps(2))
  then have v: "read_lit (Suc n) (CHR '' '' # v @ c # r) = Some (x, c # r)" using assms(2) by simp
  have c: "skip_blank (c # r) = c # r" using assms(3) by auto
  have "read_pairs (Suc (Suc n)) (quoted k @ '': '' @ v @ c # r) =
      read_pairs (Suc (Suc n)) (chr_quote # k @ chr_quote # CHR '':'' # CHR '' '' # v @ c # r)"
    by (simp add: quoted_def del: read_pairs.simps)
  also have "\<dots> = (if c = CHR '','' then map_option (\<lambda>(xs, r'). ((LStr k, x) # xs, r')) (read_pairs (Suc n) r)
      else Some ([(LStr k, x)], r))"
    using read_quoted [OF assms(1), of n "CHR '':'' # CHR '' '' # v @ c # r"] v c assms(3)
    by (subst read_pairs.simps(2)) (auto simp del: read_lit.simps read_pairs.simps)
  finally show ?thesis .
qed

lemma read_pairs_space: "read_pairs (Suc n) (CHR '' '' # s) = read_pairs (Suc n) s"
proof -
  have "read_lit n (CHR '' '' # s) = read_lit n s" by (cases n) (simp_all only: read_lit.simps skip_blank_space)
  then show ?thesis by (simp only: read_pairs.simps skip_blank_space)
qed

lemma quotable_keys: "quotable ''version''" "quotable ''imports''"
  by (simp_all add: quotable_def)

lemma literal_eval_version:
  assumes "quotable v" "list_all quotable imps"
  shows "literal_eval (version_literal v imps) =
    Inr (LDict [(LStr ''version'', LStr v), (LStr ''imports'', LList (map LStr imps))])"
proof -
  let ?tail = "py_join '','' (map quoted imps) @ '']}''"
  let ?second = "quoted ''imports'' @ '': '' @ (CHR ''['' # ?tail)"
  let ?lit = "version_literal v imps"
  have lit: "?lit = CHR ''{'' # quoted ''version'' @ '': '' @ quoted v @ CHR '','' # CHR '' '' # ?second"
    by (simp add: version_literal_def)
  have len: "length (map quoted imps) \<le> length (py_join '','' (map quoted imps))" for imps
  proof (induction imps)
    case (Cons x xs)
    then show ?case by (cases xs) (auto simp: quoted_def)
  qed simp
  define n where "n = length ?lit - 4"
  have n: "length ?lit = Suc (Suc (Suc (Suc n)))" "length imps < n"
    using len [of imps] by (simp_all add: n_def version_literal_def quoted_def)
  let ?list = "CHR ''['' # py_join '','' (map quoted imps) @ [CHR '']'']"
  have second: "?second = quoted ''imports'' @ '': '' @ ?list @ CHR ''}'' # []" by simp
  have items: "read_lit (Suc (Suc n)) (?list @ CHR ''}'' # []) = Some (LList (map LStr imps), ''}'')"
    using read_quoted_items [OF assms(2), of "Suc n" "''}''"] n(2) by simp
  have 2: "read_pairs (Suc (Suc (Suc n))) (CHR '' '' # ?second) = Some ([(LStr ''imports'', LList (map LStr imps))], [])"
    unfolding read_pairs_space second using read_pair [OF quotable_keys(2) items] by simp
  have v: "read_lit (Suc (Suc (Suc n))) (quoted v @ CHR '','' # CHR '' '' # ?second) =
      Some (LStr v, CHR '','' # CHR '' '' # ?second)"
    using read_quoted [OF assms(1), of "Suc (Suc n)" "CHR '','' # CHR '' '' # ?second"]
    by (simp add: quoted_def del: read_lit.simps)
  have 1: "read_pairs (Suc (Suc (Suc (Suc n)))) (quoted ''version'' @ '': '' @ quoted v @ CHR '','' # CHR '' '' # ?second) =
      Some ([(LStr ''version'', LStr v), (LStr ''imports'', LList (map LStr imps))], [])"
    using read_pair [OF quotable_keys(1) v] 2 by (simp del: read_pairs.simps)
  have "read_lit (Suc (Suc (Suc (Suc (Suc n))))) ?lit =
      Some (LDict [(LStr ''version'', LStr v), (LStr ''imports'', LList (map LStr imps))], [])"
    unfolding lit using 1 by (subst read_lit.simps(2)) (simp del: read_lit.simps read_pairs.simps)
  then show ?thesis unfolding literal_eval_def n(1) by (simp del: read_lit.simps)
qed

section \<open>Facts\<close>

lemma definition_file_json:
  "path_exists fs (d @ ''.json'') \<Longrightarrow> definition_file fs d = Some (d @ ''.json'')"
  by (simp add: definition_file_def)

lemma update_versions_literal:
  assumes "quotable v" "list_all quotable imps"
  shows "update_versions_with_info (Some info) (version_literal v imps) = Inr (info @ [(v, imps)])"
proof -
  have "rmap lit_string (map LStr xs) = Inr xs" for xs
    by (induction xs) (simp_all add: lit_string_def)
  then show ?thesis
    using literal_eval_version [OF assms]
    by (simp add: update_versions_with_info_def lit_get_def lit_strings_def lit_string_def)
qed

text \<open>A freeze adds one entry, for the interface of the document, and keeps the others.\<close>

lemma process_file_adds:
  assumes "definition_file fs file = Some f" "map_of fs f = Some (FDef data)" "df_name data = name"
    and "quotable v" "list_all quotable imps" "df_versions_with_info data \<noteq> Null"
  shows "process_file (Some ''versions_with_info'') (version_literal v imps) [name] file fs =
    Inr (dict_set f (FDef (data\<lparr>df_versions_with_info :=
      Present (field_list (df_versions_with_info data) @ [(v, imps)])\<rparr>)) fs)"
  using assms(1-3,6) update_versions_literal [OF assms(4,5)]
  by (cases "df_versions_with_info data") (simp_all add: process_file_def update_module_def)

text \<open>
  Loading the document again: one version more, counted on from the last one, with the imports
  it was given.
\<close>

lemma reload_versions:
  assumes "load_interface realpath roots dir out data = Inr i" "\<not> unstable i"
    and "next_version i = Inr nv" "map_of (versions_with_info i) nv = None"
    and "load_interface realpath roots dir out (data\<lparr>df_versions_with_info :=
      Present (field_list (df_versions_with_info data) @ [(nv, imps)])\<rparr>) = Inr i'"
  shows "versions i' = versions i @ [nv]" "latest_version i' = nv"
    "get_imports i' nv = Inr (dict_of (map split_versioned imps))"
    "\<And>v. v \<noteq> nv \<Longrightarrow> map_of (versions_with_info i') v = map_of (versions_with_info i) v"
    "next_version i' = Inr (str_of_nat (length (versions i) + 2))"
proof -
  let ?info = "field_list (df_versions_with_info data)"
  have i: "versions i = map (\<lambda>k. str_of_nat (k + 1)) [0..<length ?info]" "versions_with_info i = dict_of ?info"
    "stability i = df_stability data"
    using assms(1) by (auto simp: load_interface_def rbind_eq_Inr Let_def split: if_splits)
  have i': "versions i' = map (\<lambda>k. str_of_nat (k + 1)) [0..<Suc (length ?info)]"
    "versions_with_info i' = dict_of (?info @ [(nv, imps)])" "stability i' = df_stability data"
    using assms(5) by (auto simp: load_interface_def rbind_eq_Inr Let_def the_default_def split: if_splits)
  have nv: "nv = str_of_nat (Suc (length (versions i)))"
    using next_version_wf [OF load_interface_wf [OF assms(1)] assms(2)] assms(3) by simp
  show v: "versions i' = versions i @ [nv]" using i(1) i'(1) nv by simp
  have u: "\<not> unstable i'" using assms(2) i(3) i'(3) by (simp add: unstable_def)
  then show "latest_version i' = nv" using v by (simp add: latest_version_def)
  show "next_version i' = Inr (str_of_nat (length (versions i) + 2))"
    using next_version_wf [OF load_interface_wf [OF assms(5)] u] v by simp
  have "versions_with_info i' = dict_set nv imps (versions_with_info i)"
    using i(2) i'(2) by (simp add: dict_of_snoc)
  then show "get_imports i' nv = Inr (dict_of (map split_versioned imps))"
    "\<And>v. v \<noteq> nv \<Longrightarrow> map_of (versions_with_info i') v = map_of (versions_with_info i) v"
    by (simp_all add: get_imports_def)
qed

end
