(* ===== verification/Api_Freeze.thy ===== *)
theory Api_Freeze
  imports Io_Frame Iface_Update
begin

text \<open>
  The life cycle of an interface, \<^verbatim>\<open>host/aidl_api.py\<close>: \<^verbatim>\<open>update_hash_for_current_api\<close>,
  \<^verbatim>\<open>make_api_dump_as_version\<close>, \<^verbatim>\<open>append_version\<close>, \<^verbatim>\<open>dependecies_check_for_freeze\<close>,
  \<^verbatim>\<open>handle_update_api\<close>, \<^verbatim>\<open>handle_freeze_api\<close> and \<^verbatim>\<open>aidl_api\<close>. The shell commands the code runs (copy,
  remove, make a directory, hash) are functions on the file system; a failing command is not
  noticed, as in the code, where the result of \<^verbatim>\<open>subprocess.call\<close> is dropped.
\<close>

section \<open>Operations\<close>

definition append_file :: "string \<Rightarrow> string \<Rightarrow> fs \<Rightarrow> fs" where
  "append_file p s fs = dict_set p (FFile (node_text (the_default (FFile []) (map_of fs p)) @ s)) fs"

text \<open>\<^verbatim>\<open>aidl_hash_gen <api_path> <latest-version> <hash_file_path>\<close>\<close>

definition aidl_hash_gen :: "tools \<Rightarrow> string \<Rightarrow> string \<Rightarrow> string \<Rightarrow> fs \<Rightarrow> fs" where
  "aidl_hash_gen t dir version hash_file fs =
     append_file hash_file (api_hash (t_sha1 t) fs dir version @ [chr_nl]) fs"

definition update_hash_for_current_api :: "tools \<Rightarrow> AidlInterface \<Rightarrow> unit io" where
  "update_hash_for_current_api t interface =
     io_bind (io_res (next_version interface)) (\<lambda>nv.
     io_bind (io_res (version_for_hashgen nv)) (\<lambda>hashgen_version.
       (let dir = get_versioned_dir interface CURRENT_VERSION; hash_file = path_join dir ''.hash'' in
        io_then (io_modify (\<lambda>fs. if path_exists fs hash_file then os_remove hash_file fs else fs))
          (io_modify (aidl_hash_gen t dir hashgen_version hash_file)))))"

text \<open>\<^verbatim>\<open>"$(cat file)" = "1"\<close>\<close>

definition cat_text :: "fs \<Rightarrow> string \<Rightarrow> string" where
  "cat_text fs p = rev (dropWhile (\<lambda>c. c = chr_nl) (rev (node_text (the_default (FFile []) (map_of fs p)))))"

definition visible :: "string \<Rightarrow> string \<Rightarrow> bool" where
  "visible d p \<longleftrightarrow> under d p \<and> \<not> py_startswith (drop (Suc (length d)) p) ''.''"

text \<open>The commands of \<^verbatim>\<open>make_api_dump_as_version\<close>, for a new version and for the current one.\<close>

definition freeze_copy :: "string \<Rightarrow> string \<Rightarrow> fs \<Rightarrow> fs" where
  "freeze_copy src target fs =
     os_remove (target @ ''/interface.json'') (os_remove (target @ ''/interface.yaml'')
       (copy_below all_nodes src target (os_makedirs target fs)))"

definition update_copy :: "string \<Rightarrow> string \<Rightarrow> fs \<Rightarrow> fs" where
  "update_copy src target fs =
     copy_below (\<lambda>p n. visible src p) src target
       (filter (\<lambda>(p, n). \<not> visible target p) (os_makedirs target fs))"

definition make_api_dump_as_version ::
  "AidlInterface \<Rightarrow> ApiDump \<Rightarrow> string \<Rightarrow> string \<Rightarrow> unit io" where
  "make_api_dump_as_version interface dump version has_development =
     (let target = get_versioned_dir interface version in
      if version \<noteq> CURRENT_VERSION
      then io_modify (\<lambda>fs. if cat_text fs has_development = ''1'' then freeze_copy (du_api_dir dump) target fs else fs)
      else io_modify (update_copy (du_api_dir dump) target))"

definition frozen_imports :: "AidlInterface dict \<Rightarrow> AidlInterface \<Rightarrow> string list res" where
  "frozen_imports interfaces interface = rmap (\<lambda>imprt. rbind (dict_get interfaces imprt)
     (\<lambda>j. Inr (versioned_name j (latest_version j)))) (iface_imports interface)"

text \<open>The arguments of the command that \<^verbatim>\<open>append_version\<close> runs, after the shell has split it.\<close>

definition append_argv :: "AidlInterface \<Rightarrow> string \<Rightarrow> string list \<Rightarrow> string list" where
  "append_argv interface version imps =
     [''-w'', ''-m'', base_name interface, ''--parameter'', ''versions_with_info'',
      ''--add-literal'', version_literal version imps, interface_root interface @ ''/interface'']"

definition append_version :: "AidlInterface \<Rightarrow> AidlInterface dict \<Rightarrow> string \<Rightarrow> string \<Rightarrow> unit io" where
  "append_version interface interfaces version has_development =
     io_bind (io_res (frozen_imports interfaces interface)) (\<lambda>imps.
     io_bind (io_gets (\<lambda>fs. cat_text fs has_development = ''1'')) (\<lambda>dev.
       if dev then io_catch (update_main (append_argv interface version imps)) (\<lambda>e. io_return ())
       else io_return ()))"

text \<open>The flags are one argument of the command, with the blanks between them.\<close>

definition freeze_flags :: "AidlInterface \<Rightarrow> string list \<Rightarrow> string" where
  "freeze_flags interface deps =
     (if unstable interface then [] else ''--stability='' @ show_stability interface @ '' '') @
     (if deps = [] then [] else py_join '' '' (map (\<lambda>dep. ''-p'' @ dep) deps) @ '' '')"

definition dependecies_check_for_freeze ::
  "tools \<Rightarrow> nat \<Rightarrow> AidlInterface \<Rightarrow> AidlInterface dict \<Rightarrow> unit io" where
  "dependecies_check_for_freeze t limit interface interfaces =
     io_bind (io_res (next_version interface)) (\<lambda>nv.
     io_bind (get_dependencies t limit interface interfaces nv True) (\<lambda>(deps, imps, _).
     io_bind (io_gets (\<lambda>fs. glob_files fs (interface_root interface) (srcs interface))) (\<lambda>files.
       (let imprt = get_versioned_dir interface CURRENT_VERSION in
        io_bind (io_gets (\<lambda>fs. path_exists fs imprt)) (\<lambda>there.
        io_then (io_check there (AssertionError ''Failed with the above error.''))
        (io_bind (exec_cmd t ([t_cmd_aidl t, ''--preprocess'',
              path_join (get_preprocessed_dir interface nv) ''preprocessed.aidl'',
              freeze_flags interface deps, ''--structured'', ''-I'' @ imprt] @ files))
          (\<lambda>ok. io_check ok (AssertionError ''Dependencies are not fullfilled''))))))))"

text \<open>\<^verbatim>\<open>except (AssertionError, RuntimeError)\<close>; a \<^verbatim>\<open>RecursionError\<close> is a \<^verbatim>\<open>RuntimeError\<close>.\<close>

definition is_check_error :: "py_error \<Rightarrow> bool" where
  "is_check_error e = (case e of AssertionError _ \<Rightarrow> True | RuntimeError _ \<Rightarrow> True | RecursionError \<Rightarrow> True | _ \<Rightarrow> False)"

definition pre_validate ::
  "tools \<Rightarrow> nat \<Rightarrow> AidlInterface \<Rightarrow> AidlInterface dict \<Rightarrow> unit io" where
  "pre_validate t limit interface interfaces =
     (let dir = get_versioned_dir interface CURRENT_VERSION; root = interface_root interface in
      io_bind (io_gets (\<lambda>fs. path_exists fs dir \<and> has_frozen_versions fs interface)) (\<lambda>enforce.
        if \<not> enforce then io_return ()
        else io_bind (io_res (next_version interface)) (\<lambda>nv.
          io_bind (io_gets (\<lambda>fs. (dump_of fs nv dir, (dump_of fs nv root)\<lparr>du_hash_file := None\<rparr>))) (\<lambda>(old, new).
            io_catch (io_bind (check_compatibility t limit interface interfaces old new) (\<lambda>_. io_return ()))
              (\<lambda>e. if is_check_error e
                   then io_raise (RuntimeError ''Compatibility validation failed - aborting update to prevent data corruption'')
                   else io_raise e)))))"

definition copy_sources :: "AidlInterface \<Rightarrow> fs \<Rightarrow> fs" where
  "copy_sources interface fs =
     (let dir = get_versioned_dir interface CURRENT_VERSION
      in copy_below aidl_or_dir (interface_root interface) dir (os_makedirs dir fs))"

definition handle_update_api :: "tools \<Rightarrow> nat \<Rightarrow> string \<Rightarrow> AidlInterface dict \<Rightarrow> unit io" where
  "handle_update_api t limit interface_name interfaces =
     io_bind (io_res (dict_get interfaces interface_name)) (\<lambda>interface.
       if layout interface = ''module-local'' then io_return ()
       else io_then (pre_validate t limit interface interfaces)
           (io_then (io_modify (copy_sources interface))
           (io_then (update_hash_for_current_api t interface)
           (io_bind (validate_interface t limit interface interfaces) (\<lambda>_. io_return ())))))"

definition handle_freeze_api :: "tools \<Rightarrow> nat \<Rightarrow> string \<Rightarrow> AidlInterface dict \<Rightarrow> unit io" where
  "handle_freeze_api t limit interface_name interfaces =
     io_bind (io_res (dict_get interfaces interface_name)) (\<lambda>interface.
     io_bind (validate_interface t limit interface interfaces) (\<lambda>api_dumps.
     io_bind (io_res (next_version interface)) (\<lambda>nv.
       if api_dumps = [] \<or> du_version (last api_dumps) \<noteq> nv then io_raise (SystemExit 1)
       else (let current = last api_dumps;
                 latest = (if length api_dumps > 1 then Some (api_dumps ! (length api_dumps - 2)) else None)
             in io_then (update_hash_for_current_api t interface)
                (io_bind (check_for_development t limit interface interfaces latest current) (\<lambda>has_development.
                 io_then (dependecies_check_for_freeze t limit interface interfaces)
                 (io_then (make_api_dump_as_version interface current nv has_development)
                   (append_version interface interfaces nv has_development))))))))"

text \<open>\<^verbatim>\<open>aidl_api\<close>: the interfaces are loaded, then the operation runs.\<close>

definition aidl_api ::
  "tools \<Rightarrow> nat \<Rightarrow> (string \<Rightarrow> string) \<Rightarrow> string \<Rightarrow> string \<Rightarrow> string \<Rightarrow> string list \<Rightarrow> string \<Rightarrow> unit io" where
  "aidl_api t limit realpath env interface_name operation roots out_dir =
     io_bind (io_gets (load_interfaces realpath env roots out_dir)) (\<lambda>r. io_bind (io_res r) (\<lambda>interfaces.
       if interfaces = [] then io_raise (SystemExit 1)
       else if interface_name \<notin> set (dict_keys interfaces) then io_raise (SystemExit 1)
       else if operation = ''update_api'' then handle_update_api t limit interface_name interfaces
       else if operation = ''freeze_api'' then handle_freeze_api t limit interface_name interfaces
       else io_return ()))"

end
