(* ===== verification/Py_Re.thy ===== *)
theory Py_Re
  imports Py_Str
begin

text \<open>
  The part of Python's \<^verbatim>\<open>re\<close> module the sources use, as a backtracking matcher. A position of the
  subject is a configuration: the character before it (\<open>None\<close> at the start), the text after it
  and the groups captured so far. \<open>re_run r\<close> lists the configurations a pattern can end in,
  in the order in which the engine of \<^verbatim>\<open>re\<close> tries them, so the match Python reports is the first one:
  a greedy star lists longer iterations first, a lazy one shorter ones first, an alternative its
  left branch first.
\<close>

section \<open>Patterns and the matcher\<close>

datatype re =
    Cls "char \<Rightarrow> bool"        \<comment> \<open>one character of a class\<close>
  | Seq re re                 \<comment> \<open>concatenation\<close>
  | Alt re re                 \<comment> \<open>\<^verbatim>\<open>a|b\<close>\<close>
  | Star re                   \<comment> \<open>\<^verbatim>\<open>a*\<close>\<close>
  | LStar re                  \<comment> \<open>\<^verbatim>\<open>a*?\<close>\<close>
  | Opt re                    \<comment> \<open>\<^verbatim>\<open>a?\<close>\<close>
  | Grp nat re                \<comment> \<open>\<^verbatim>\<open>(a)\<close>\<close>
  | Bol                       \<comment> \<open>\<^verbatim>\<open>^\<close> under \<^verbatim>\<open>re.M\<close>\<close>
  | Eos                       \<comment> \<open>\<^verbatim>\<open>$\<close>\<close>

type_synonym groups = "(nat \<times> string) list"
type_synonym conf = "char option \<times> string \<times> groups"

fun star_run :: "(conf \<Rightarrow> conf list) \<Rightarrow> nat \<Rightarrow> conf \<Rightarrow> conf list" where
  "star_run f 0 x = [x]"
| "star_run f (Suc n) x =
     concat (map (\<lambda>y. if length (fst (snd y)) < length (fst (snd x)) then star_run f n y else [])
                 (f x)) @ [x]"

fun lstar_run :: "(conf \<Rightarrow> conf list) \<Rightarrow> nat \<Rightarrow> conf \<Rightarrow> conf list" where
  "lstar_run f 0 x = [x]"
| "lstar_run f (Suc n) x =
     x # concat (map (\<lambda>y. if length (fst (snd y)) < length (fst (snd x)) then lstar_run f n y
                          else []) (f x))"

definition grp_add :: "nat \<Rightarrow> string \<Rightarrow> conf \<Rightarrow> conf" where
  "grp_add k s y = (case y of (p, r, g) \<Rightarrow> (p, r, (k, take (length s - length r) s) # g))"

primrec re_run :: "re \<Rightarrow> conf \<Rightarrow> conf list" where
  "re_run (Cls P) x = (case x of (p, s, g) \<Rightarrow>
     (case s of [] \<Rightarrow> [] | c # cs \<Rightarrow> if P c then [(Some c, cs, g)] else []))"
| "re_run (Seq a b) x = concat (map (re_run b) (re_run a x))"
| "re_run (Alt a b) x = re_run a x @ re_run b x"
| "re_run (Star a) x = star_run (re_run a) (length (fst (snd x))) x"
| "re_run (LStar a) x = lstar_run (re_run a) (length (fst (snd x))) x"
| "re_run (Opt a) x = re_run a x @ [x]"
| "re_run (Grp k a) x = map (grp_add k (fst (snd x))) (re_run a x)"
| "re_run Bol x = (case fst x of None \<Rightarrow> [x] | Some c \<Rightarrow> if c = chr_nl then [x] else [])"
| "re_run Eos x = (if fst (snd x) = [] \<or> fst (snd x) = [chr_nl] then [x] else [])"

definition Lit :: "char \<Rightarrow> re" where
  "Lit c = Cls (\<lambda>x. x = c)"

fun Word :: "string \<Rightarrow> re" where
  "Word [] = Cls (\<lambda>_. False)"
| "Word [c] = Lit c"
| "Word (c # d # w) = Seq (Lit c) (Word (d # w))"

definition Plus :: "re \<Rightarrow> re" where
  "Plus a = Seq a (Star a)"

abbreviation ReS :: re where "ReS \<equiv> Cls is_space"   \<comment> \<open>\<^verbatim>\<open>\s\<close>\<close>
abbreviation ReW :: re where "ReW \<equiv> Cls is_word"    \<comment> \<open>\<^verbatim>\<open>\w\<close>\<close>
abbreviation ReD :: re where "ReD \<equiv> Cls is_dec"     \<comment> \<open>\<^verbatim>\<open>\d\<close>\<close>

section \<open>The entry points\<close>

text \<open>
  A match at a position: the text it consumed, the position after it and its groups.
\<close>

definition re_at :: "re \<Rightarrow> char option \<Rightarrow> string \<Rightarrow> (string \<times> char option \<times> string \<times> groups) option" where
  "re_at r p s = (case re_run r (p, s, []) of
       [] \<Rightarrow> None
     | (q, t, g) # _ \<Rightarrow> Some (take (length s - length t) s, q, t, g))"

text \<open>\<^verbatim>\<open>re.match\<close>: at the start of the string. The result is the matched text, the rest and the groups.\<close>

definition re_match :: "re \<Rightarrow> string \<Rightarrow> (string \<times> string \<times> groups) option" where
  "re_match r s = (case re_at r None s of
       None \<Rightarrow> None
     | Some (m, q, t, g) \<Rightarrow> Some (m, t, g))"

text \<open>\<^verbatim>\<open>re.search\<close>: the groups of the leftmost match.\<close>

fun re_search_from :: "re \<Rightarrow> char option \<Rightarrow> string \<Rightarrow> groups option" where
  "re_search_from r p [] = (case re_at r p [] of None \<Rightarrow> None | Some (m, q, t, g) \<Rightarrow> Some g)"
| "re_search_from r p (c # s) = (case re_at r p (c # s) of
       Some (m, q, t, g) \<Rightarrow> Some g
     | None \<Rightarrow> re_search_from r (Some c) s)"

definition re_search :: "re \<Rightarrow> string \<Rightarrow> groups option" where
  "re_search r s = re_search_from r None s"

text \<open>
  \<^verbatim>\<open>re.sub\<close> with a replacement computed from the groups. A match consumes at least one character
  in every pattern of the sources; where it would not, one character is copied and the scan goes on.
\<close>

function re_sub_from :: "re \<Rightarrow> (groups \<Rightarrow> string) \<Rightarrow> char option \<Rightarrow> string \<Rightarrow> string" where
  "re_sub_from r f p s =
     (case s of [] \<Rightarrow> []
      | c # cs \<Rightarrow>
        (case re_at r p s of
           None \<Rightarrow> c # re_sub_from r f (Some c) cs
         | Some (m, q, t, g) \<Rightarrow>
             if length t < length s then f g @ re_sub_from r f q t
             else f g @ c # re_sub_from r f (Some c) cs))"
  by pat_completeness auto
termination by (relation "measure (\<lambda>(r, f, p, s). length s)") auto

declare re_sub_from.simps [simp del]

definition re_sub :: "re \<Rightarrow> (groups \<Rightarrow> string) \<Rightarrow> string \<Rightarrow> string" where
  "re_sub r f s = re_sub_from r f None s"

text \<open>\<^verbatim>\<open>m.group(k)\<close> where the group took part in the match.\<close>

definition group :: "groups \<Rightarrow> nat \<Rightarrow> string" where
  "group g k = (case map_of g k of None \<Rightarrow> [] | Some s \<Rightarrow> s)"

definition has_group :: "groups \<Rightarrow> nat \<Rightarrow> bool" where
  "has_group g k \<longleftrightarrow> map_of g k \<noteq> None"

section \<open>Lemmas\<close>

fun lastc :: "char option \<Rightarrow> string \<Rightarrow> char option" where
  "lastc p [] = p"
| "lastc p (c # w) = lastc (Some c) w"

lemma lastc_append [simp]: "lastc p (v @ w) = lastc (lastc p v) w"
  by (induction v arbitrary: p) auto

lemma run_cls [simp, re_simps]:
  "re_run (Cls P) (p, [], g) = []"
  "re_run (Cls P) (p, c # cs, g) = (if P c then [(Some c, cs, g)] else [])"
  by simp_all

lemma run_seq_cls [simp, re_simps]:
  "re_run (Seq (Cls P) b) (p, [], g) = []"
  "re_run (Seq (Cls P) b) (p, c # cs, g) = (if P c then re_run b (Some c, cs, g) else [])"
  by simp_all

lemma run_lit [simp, re_simps]:
  "re_run (Lit d) (p, [], g) = []"
  "re_run (Lit d) (p, c # cs, g) = (if c = d then [(Some c, cs, g)] else [])"
  "re_run (Seq (Lit d) b) (p, [], g) = []"
  "re_run (Seq (Lit d) b) (p, c # cs, g) = (if c = d then re_run b (Some c, cs, g) else [])"
  by (simp_all add: Lit_def)

lemma run_seq_assoc: "re_run (Seq (Seq a b) c) x = re_run (Seq a (Seq b c)) x"
proof -
  have "concat (map f (concat (map h ys))) = concat (map (\<lambda>y. concat (map f (h y))) ys)"
    for f :: "conf \<Rightarrow> conf list" and h ys
    by (induction ys) auto
  then have "re_run (Seq (Seq a b) c) x =
      concat (map (\<lambda>y. concat (map (re_run c) (re_run b y))) (re_run a x))"
    by simp
  moreover have "re_run (Seq b c) = (\<lambda>y. concat (map (re_run c) (re_run b y)))"
    by (rule ext) simp
  ultimately show ?thesis by simp
qed

declare re_run.simps(1,2,4,5) [simp del]

lemma star_run_cls:
  "length s \<le> n \<Longrightarrow> star_run (re_run (Cls P)) n (p, s, g) = star_run (re_run (Cls P)) (length s) (p, s, g)"
proof (induction n arbitrary: p s)
  case (Suc n)
  show ?case
  proof (cases s)
    case (Cons c cs)
    with Suc show ?thesis by simp
  qed simp
qed simp

lemma run_star_cls [simp, re_simps]:
  "re_run (Star (Cls P)) (p, [], g) = [(p, [], g)]"
  "re_run (Star (Cls P)) (p, c # cs, g) =
     (if P c then re_run (Star (Cls P)) (Some c, cs, g) else []) @ [(p, c # cs, g)]"
  by (simp_all add: re_run.simps(4))

lemma run_lstar_cls [simp, re_simps]:
  "re_run (LStar (Cls P)) (p, [], g) = [(p, [], g)]"
  "re_run (LStar (Cls P)) (p, c # cs, g) =
     (p, c # cs, g) # (if P c then re_run (LStar (Cls P)) (Some c, cs, g) else [])"
  by (simp_all add: re_run.simps(5))

text \<open>
  A greedy run over a class followed by a pattern that cannot start inside the class: the
  only candidate is the longest run.
\<close>

lemma run_star_then:
  assumes "\<And>p c cs g. P c \<Longrightarrow> re_run b (p, c # cs, g) = []"
  shows "re_run (Seq (Star (Cls P)) b) (p, s, g) =
     re_run b (lastc p (takeWhile P s), dropWhile P s, g)"
proof (induction s arbitrary: p)
  case (Cons c s)
  then show ?case using assms by (auto simp: re_run.simps(2) concat_eq_Nil_conv)
qed (simp add: re_run.simps(2))

lemma run_star_first:
  "\<exists>ys. re_run (Star (Cls P)) (p, s, g) = (lastc p (takeWhile P s), dropWhile P s, g) # ys"
proof (induction s arbitrary: p)
  case (Cons c s)
  obtain ys where "re_run (Star (Cls P)) (Some c, s, g) =
      (lastc (Some c) (takeWhile P s), dropWhile P s, g) # ys"
    using Cons.IH by blast
  then show ?case by simp
qed simp

text \<open>A greedy run followed by anything that matches after the longest run.\<close>

lemma run_star_hit:
  assumes "re_run b (lastc p (takeWhile P s), dropWhile P s, g) = z # zs"
  shows "\<exists>ys. re_run (Seq (Star (Cls P)) b) (p, s, g) = z # ys"
  using assms run_star_first [of P p s g] by (auto simp: re_run.simps(2))

lemma run_plus_then:
  assumes "\<And>p c cs g. P c \<Longrightarrow> re_run b (p, c # cs, g) = []"
  shows "re_run (Seq (Plus (Cls P)) b) (p, c # s, g) =
     (if P c then re_run b (lastc (Some c) (takeWhile P s), dropWhile P s, g) else [])"
  using run_star_then [OF assms] by (simp add: Plus_def run_seq_assoc)

lemma run_plus_hit:
  assumes "P c" "re_run b (lastc (Some c) (takeWhile P s), dropWhile P s, g) = z # zs"
  shows "\<exists>ys. re_run (Seq (Plus (Cls P)) b) (p, c # s, g) = z # ys"
  using run_star_hit [OF assms(2)] assms(1)
  by (simp add: Plus_def run_seq_assoc)

lemma run_plus_Nil [simp]: "re_run (Seq (Plus (Cls P)) b) (p, [], g) = []"
  by (simp add: Plus_def run_seq_assoc)

lemma run_plus_not: "\<not> P c \<Longrightarrow> re_run (Seq (Plus (Cls P)) b) (p, c # s, g) = []"
  by (simp add: Plus_def run_seq_assoc)

lemma re_at_hit:
  "re_run r (p, s, []) = (q, t, g) # ys \<Longrightarrow> re_at r p s = Some (take (length s - length t) s, q, t, g)"
  by (simp add: re_at_def)

lemma re_sub_from_Nil [simp]: "re_sub_from r f p [] = []"
  by (simp add: re_sub_from.simps)

lemma re_sub_from_miss:
  "re_run r (p, c # s, []) = [] \<Longrightarrow> re_sub_from r f p (c # s) = c # re_sub_from r f (Some c) s"
  by (subst re_sub_from.simps) (simp add: re_at_def)

lemma re_sub_from_hit:
  assumes "re_run r (p, s, []) = (q, t, g) # ys" "length t < length s"
  shows "re_sub_from r f p s = f g @ re_sub_from r f q t"
proof (cases s)
  case (Cons c cs)
  with assms show ?thesis
    using re_at_hit [OF assms(1)] by (subst re_sub_from.simps) (simp add: Cons)
qed (use assms in simp)

text \<open>A match never lengthens the rest, and one character of a class shortens it.\<close>

lemma star_run_shorter:
  assumes "\<And>x y. y \<in> set (f x) \<Longrightarrow> length (fst (snd y)) \<le> length (fst (snd x))"
  shows "y \<in> set (star_run f n x) \<Longrightarrow> length (fst (snd y)) \<le> length (fst (snd x))"
    and "y \<in> set (lstar_run f n x) \<Longrightarrow> length (fst (snd y)) \<le> length (fst (snd x))"
  by (induction n arbitrary: x) (fastforce split: if_splits)+

lemma re_run_shorter:
  "y \<in> set (re_run r x) \<Longrightarrow> length (fst (snd y)) \<le> length (fst (snd x))"
proof (induction r arbitrary: x y)
  case (Seq a b)
  then obtain z where "z \<in> set (re_run a x)" "y \<in> set (re_run b z)" by (auto simp: re_run.simps(2))
  then show ?case using Seq.IH by (meson le_trans)
next
  case (Cls P)
  then show ?case by (auto simp: re_run.simps(1) split: prod.splits list.splits if_splits)
next
  case (Star r)
  show ?case
    using star_run_shorter(1) [of "re_run r", OF Star.IH] Star.prems by (simp add: re_run.simps(4))
next
  case (LStar r)
  show ?case
    using star_run_shorter(2) [of "re_run r", OF LStar.IH] LStar.prems by (simp add: re_run.simps(5))
next
  case (Grp k r)
  then obtain z where z: "z \<in> set (re_run r x)" "y = grp_add k (fst (snd x)) z" by auto
  have "fst (snd y) = fst (snd z)" using z(2) by (simp add: grp_add_def split: prod.splits)
  then show ?case using Grp.IH [OF z(1)] by simp
qed (fastforce split: option.splits if_splits)+

lemma re_match_shorter:
  assumes "re_match (Seq (Cls P) r) s = Some (m, t, g)"
  shows "length t < length s"
proof (cases s)
  case (Cons c cs)
  with assms obtain q ys where "re_run r (Some c, cs, []) = (q, t, g) # ys"
    by (auto simp: re_match_def re_at_def split: list.splits if_splits option.splits prod.splits)
  then have "(q, t, g) \<in> set (re_run r (Some c, cs, []))" by simp
  from re_run_shorter [OF this] show ?thesis using Cons by simp
qed (use assms in \<open>simp add: re_match_def re_at_def\<close>)

end
