(* ===== verification/Gen_Rule.thy ===== *)
theory Gen_Rule
  imports Io_Frame Py_Re
begin

text \<open>
  Generation of the C++ sources, \<^verbatim>\<open>host/aidl_gen_rule.py\<close>: the emitted version, the compiler command,
  the checks before it, the build order (\<^verbatim>\<open>aidl_gen_deps\<close>), and the search for imported files. The
  command is a text that the shell splits at blanks.
\<close>

section \<open>Imported files\<close>

function re_findall_from :: "re \<Rightarrow> char option \<Rightarrow> string \<Rightarrow> string list" where
  "re_findall_from r p s =
     (case s of [] \<Rightarrow> []
      | c # cs \<Rightarrow>
        (case re_at r p s of
           None \<Rightarrow> re_findall_from r (Some c) cs
         | Some (m, q, t, g) \<Rightarrow>
             if length t < length s then group g 1 # re_findall_from r q t
             else group g 1 # re_findall_from r (Some c) cs))"
  by pat_completeness auto
termination by (relation "measure (\<lambda>(r, p, s). length s)") auto

declare re_findall_from.simps [simp del]

definition IMPORT_RE :: re where
  "IMPORT_RE = Seq (Word ''import'') (Seq (Plus ReS)
     (Seq (Grp 1 (Plus (Cls (\<lambda>c. is_word c \<or> c = CHR ''.'')))) (Lit CHR '';'')))"

text \<open>The import statements of a file, line by line, as relative paths.\<close>

definition imports_path :: "string \<Rightarrow> string list" where
  "imports_path text = map (\<lambda>imprt. py_replace ''.'' ''/'' imprt @ ''.aidl'')
     (concat (map (re_findall_from IMPORT_RE None) (py_split_on chr_nl text)))"

definition imports_found :: "fs \<Rightarrow> string list \<Rightarrow> string list \<Rightarrow> string list" where
  "imports_found fs dirs rels = concat (map (\<lambda>dir.
     filter (path_isfile fs) (map (path_join dir) rels)) dirs)"

text \<open>
  \<open>order\<close> is the order in which Python lists a set; the accumulators are the found files and the
  found top-of-tree files.
\<close>

fun get_imports_file ::
  "(string list \<Rightarrow> string list) \<Rightarrow> nat \<Rightarrow> fs \<Rightarrow> string list \<Rightarrow> string list \<Rightarrow> string list \<Rightarrow> string \<Rightarrow>
    string list \<times> string list \<Rightarrow> (string list \<times> string list) res" where
  "get_imports_file order 0 fs search_srcs dirs dirs_tot src acc = Inl RecursionError"
| "get_imports_file order (Suc limit) fs search_srcs dirs dirs_tot src acc =
     (let rels = imports_path (universal_newlines (node_text (the_default (FFile []) (map_of fs src))));
          found = imports_found fs dirs rels;
          found_tot = imports_found fs dirs_tot rels
      in rbind (if dirs_tot = [] then Inr acc
           else rfold (\<lambda>next acc. if next = src then Inr acc
                  else rbind (get_imports_file order limit fs search_srcs dirs dirs_tot next acc)
                         (\<lambda>(files, tot). Inr (files, tot @ [next])))
                (filter (\<lambda>p. p \<notin> set search_srcs \<and> p \<notin> set (snd acc)) (order found_tot)) acc) (\<lambda>acc1.
         rfold (\<lambda>next acc.
             rbind (if dirs_tot = [] \<and> next \<noteq> src
                    then get_imports_file order limit fs search_srcs dirs dirs_tot next acc
                    else Inr acc) (\<lambda>(files, tot). Inr (files @ [next], tot)))
           (filter (\<lambda>p. p \<notin> set search_srcs \<and> p \<notin> set (fst acc1)) (order found)) acc1))"

definition get_aidl_files_for_imports ::
  "(string list \<Rightarrow> string list) \<Rightarrow> nat \<Rightarrow> fs \<Rightarrow> string list \<Rightarrow> string list \<Rightarrow> string list res" where
  "get_aidl_files_for_imports order limit fs imports_dir files =
     rbind (rfold (get_imports_file order limit fs files imports_dir []) files ([], []))
       (\<lambda>(found, tot). Inr (filter (\<lambda>f. f \<notin> set files) found))"

definition check_for_sources :: "fs \<Rightarrow> string \<Rightarrow> bool" where
  "check_for_sources fs d \<longleftrightarrow> path_isdir fs d \<and> os_listdir fs d \<noteq> []"

section \<open>The emitted version\<close>

definition yaml_str :: "yaml \<Rightarrow> string" where
  "yaml_str v = (case v of YStr s \<Rightarrow> s | YInt i \<Rightarrow> str_of_int i | YOther s \<Rightarrow> s)"

definition resolve_emit_version ::
  "string \<Rightarrow> yaml option \<Rightarrow> string \<Rightarrow> string \<Rightarrow> string \<Rightarrow> string res" where
  "resolve_emit_version lay modver gen_version hash_gen name = (case modver of
       None \<Rightarrow> Inr gen_version
     | Some mv \<Rightarrow>
         if lay \<noteq> ''module-local'' then Inr gen_version
         else (let mv_str = py_strip (yaml_str mv) in
           rbind (if \<not> py_isdigit mv_str then Inr True else rbind (py_int mv_str) (\<lambda>i. Inr (i < 1))) (\<lambda>bad.
             if bad then Inl (RuntimeError name)
             else if hash_gen = ''notfrozen'' then Inl (RuntimeError name)
             else Inr mv_str)))"

section \<open>Generation\<close>

definition gen_version_dir :: "AidlInterface \<Rightarrow> string \<Rightarrow> string \<Rightarrow> string" where
  "gen_version_dir interface nv gen_version =
     (if layout interface = ''module-local'' then path_basename (interface_root interface)
      else if gen_version = nv then CURRENT_VERSION else gen_version)"

definition gen_cmd ::
  "tools \<Rightarrow> AidlInterface \<Rightarrow> string list \<Rightarrow> string \<Rightarrow> string \<Rightarrow> string \<Rightarrow> string \<Rightarrow> string list \<Rightarrow> string" where
  "gen_cmd t interface imps inc_dir emit_version hash_gen src_dir files =
     t_cmd_aidl t @ '' --lang=cpp --structured --min_sdk_version=33 '' @
     py_join '' '' ((if unstable interface then [] else [''--stability='' @ show_stability interface])
        @ map (\<lambda>imprt. ''-I'' @ imprt) imps) @
     '' -h '' @ inc_dir @ '' --version='' @ emit_version @ '' --hash='' @ hash_gen @
     '' --out='' @ src_dir @ '' '' @ py_join '' '' files @ '' ''"

definition read_hash :: "fs \<Rightarrow> string \<Rightarrow> string" where
  "read_hash fs p = (case map_of fs p of
       None \<Rightarrow> ''notfrozen''
     | Some n \<Rightarrow> filter (\<lambda>c. c \<noteq> chr_nl) (universal_newlines (node_text n)))"

definition gen_cpp_sources ::
  "tools \<Rightarrow> nat \<Rightarrow> string \<Rightarrow> AidlInterface dict \<Rightarrow> string option \<Rightarrow> string option \<Rightarrow> unit io" where
  "gen_cpp_sources t limit interface_name interfaces gen_dir version =
     io_bind (io_res (dict_get interfaces interface_name)) (\<lambda>interface.
     io_bind (io_res (next_version interface)) (\<lambda>nv.
       (let gen_version = the_default nv version;
            version_dir = gen_version_dir interface nv gen_version;
            base = path_join (interface_gen_dir interface) version_dir;
            src_dir = the_default (path_join base ''src'') gen_dir;
            inc_dir = (case gen_dir of None \<Rightarrow> path_join base ''include'' | Some d \<Rightarrow> path_join d ''include'');
            api_dir = get_versioned_dir interface version_dir
        in io_bind (io_gets (\<lambda>fs. path_exists fs api_dir \<and> find_files fs api_dir ''*.aidl'' \<noteq> [])) (\<lambda>has_files.
           io_then (io_check has_files (AssertionError api_dir))
           (io_bind (io_gets (\<lambda>fs. find_files fs api_dir ''*.aidl'')) (\<lambda>files.
            io_bind (get_dependencies t limit interface interfaces gen_version False) (\<lambda>(deps, imps, _).
            io_bind (io_gets (\<lambda>fs. read_hash fs (path_join api_dir ''.hash''))) (\<lambda>hash_gen.
            io_bind (io_res (resolve_emit_version (layout interface) (module_version interface)
                gen_version hash_gen (base_name interface))) (\<lambda>emit_version.
            io_bind (run_aidl t (py_split (gen_cmd t interface (api_dir # imps) inc_dir emit_version hash_gen src_dir files)))
              (\<lambda>rc. io_check (rc = 0) (RuntimeError ''AIDL compilation failed'')))))))))))"

definition check_gen_version :: "AidlInterface \<Rightarrow> string \<Rightarrow> string \<Rightarrow> unit res" where
  "check_gen_version interface nv v =
     (if layout interface = ''module-local'' then Inl (SystemExit 1)
      else rbind (py_int v) (\<lambda>i.
        if i < 1 then Inl (AssertionError v)
        else rbind (py_int nv) (\<lambda>k. if i > k then Inl (AssertionError v) else Inr ())))"

definition handle_source_gen ::
  "tools \<Rightarrow> nat \<Rightarrow> string \<Rightarrow> AidlInterface dict \<Rightarrow> string option \<Rightarrow> string option \<Rightarrow> unit io" where
  "handle_source_gen t limit interface_name interfaces gen_dir gen_version =
     io_bind (io_res (dict_get interfaces interface_name)) (\<lambda>interface.
     io_bind (validate_interface t limit interface interfaces) (\<lambda>api_dumps.
     io_bind (io_res (next_version interface)) (\<lambda>nv.
       if api_dumps = [] \<or> du_version (last api_dumps) \<noteq> nv then io_raise (SystemExit 1)
       else if unstable interface then io_return ()
       else io_then (io_res (case gen_version of None \<Rightarrow> Inr () | Some v \<Rightarrow> check_gen_version interface nv v))
              (gen_cpp_sources t limit interface_name interfaces gen_dir gen_version))))"

definition aidl_gen_rule ::
  "tools \<Rightarrow> nat \<Rightarrow> (string \<Rightarrow> string) \<Rightarrow> string \<Rightarrow> string \<Rightarrow> string list \<Rightarrow> string \<Rightarrow> string option \<Rightarrow> string option \<Rightarrow> unit io" where
  "aidl_gen_rule t limit realpath env interface_name roots out_dir gen_dir gen_version =
     io_bind (io_gets (load_interfaces realpath env roots out_dir)) (\<lambda>r. io_bind (io_res r) (\<lambda>interfaces.
       if interfaces = [] \<or> interface_name \<notin> set (dict_keys interfaces) then io_raise (SystemExit 1)
       else handle_source_gen t limit interface_name interfaces gen_dir gen_version))"

text \<open>
  \<^verbatim>\<open>aidl_gen_deps\<close>: the lines go to \<^verbatim>\<open>dependencies.txt\<close> in the output directory; without lines there
  is no file. The sort always returns, so the branch for \<^const>\<open>None\<close> is not taken.
\<close>

definition write_lines :: "string \<Rightarrow> string list \<Rightarrow> fs \<Rightarrow> fs" where
  "write_lines p ls fs = (if ls = [] then fs else dict_set p (FFile (concat (map (\<lambda>l. l @ [chr_nl]) ls))) fs)"

definition aidl_gen_deps ::
  "(string \<Rightarrow> string) \<Rightarrow> string \<Rightarrow> string list \<Rightarrow> string \<Rightarrow> unit io" where
  "aidl_gen_deps realpath env roots out_dir =
     (let dep_file = path_join out_dir ''dependencies.txt'' in
      io_bind (io_gets (load_all realpath env roots out_dir)) (\<lambda>r. io_bind (io_res r) (\<lambda>all_loaded.
      io_then (io_modify (\<lambda>fs. os_makedirs out_dir (os_remove dep_file fs)))
      (case generate_libraries_dependencies (by_base_name all_loaded) all_loaded of
         None \<Rightarrow> io_raise RecursionError
       | Some r' \<Rightarrow> io_bind (io_res r') (\<lambda>ls. io_then (io_modify (write_lines dep_file ls))
           (if all_loaded = [] then io_raise (SystemExit 1) else io_return ()))))))"

section \<open>Facts\<close>

lemma dec_digits_all_dec: "dec_digits s \<Longrightarrow> CHR ''_'' \<notin> set s \<Longrightarrow> \<forall>c \<in> set s. is_dec c"
  by (induction s rule: dec_digits.induct) auto

lemma isdigit_no_sign:
  assumes "py_isdigit s"
  shows "rev (dropWhile int_blank (rev (dropWhile int_blank s))) = s" "split_sign s = (1, s)" "CHR ''_'' \<notin> set s"
proof -
  have d: "is_dec c \<or> (of_char c :: nat) \<in> {178, 179, 185}" if "c \<in> set s" for c
    using assms that by (auto simp: py_isdigit_def)
  have nb: "\<not> int_blank c" if "c \<in> set s" for c
    using d [OF that] is_dec_facts(2) by (auto simp: int_blank_def is_space_def Let_def)
  have "dropWhile int_blank xs = xs" if "set xs = set s" for xs
    using that nb by (cases xs) auto
  then have "dropWhile int_blank s = s" "dropWhile int_blank (rev s) = rev s" by (blast, metis set_rev)
  then show "rev (dropWhile int_blank (rev (dropWhile int_blank s))) = s" by (metis rev_rev_ident)
  have sg: "c \<noteq> CHR ''+'' \<and> c \<noteq> CHR ''-'' \<and> c \<noteq> CHR ''_''" if "c \<in> set s" for c
    using d [OF that] is_dec_facts [of c] by auto
  then show "split_sign s = (1, s)" by (cases s) (auto simp: split_sign_def)
  show "CHR ''_'' \<notin> set s" using sg by blast
qed

text \<open>A digit string that \<^verbatim>\<open>int\<close> accepts has decimal digits only; the others raise \<^verbatim>\<open>ValueError\<close>.\<close>

lemma isdigit_int:
  assumes "py_isdigit s"
  shows "py_int s = (if \<forall>c \<in> set s. is_dec c then Inr (int (digits_val 10 s)) else Inl (ValueError s))"
proof (cases "\<forall>c \<in> set s. is_dec c")
  case True
  then show ?thesis using assms py_int_digits [of s] by (simp add: py_isdigit_def)
next
  case False
  then have "\<not> dec_digits s" using dec_digits_all_dec isdigit_no_sign(3) [OF assms] by blast
  then show ?thesis using False isdigit_no_sign(1,2) [OF assms] by (simp add: py_int_def Let_def)
qed

text \<open>A pinned version that is emitted is a positive decimal number of a frozen contract.\<close>

lemma resolve_emit_pinned:
  assumes "resolve_emit_version ''module-local'' (Some mv) gv h name = Inr v"
  shows "v = py_strip (yaml_str mv)" "v \<noteq> []" "\<forall>c \<in> set v. is_dec c" "digits_val 10 v \<ge> 1" "h \<noteq> ''notfrozen''"
proof -
  let ?s = "py_strip (yaml_str mv)"
  have d: "py_isdigit ?s" using assms by (auto simp: resolve_emit_version_def Let_def split: if_splits)
  obtain i where i: "py_int ?s = Inr i" "\<not> i < 1" "h \<noteq> ''notfrozen''" "v = ?s"
    using assms d by (auto simp: resolve_emit_version_def Let_def rbind_eq_Inr split: if_splits)
  then show "v = ?s" "h \<noteq> ''notfrozen''" by simp_all
  show "v \<noteq> []" using d i(4) by (simp add: py_isdigit_def)
  show "\<forall>c \<in> set v. is_dec c" "digits_val 10 v \<ge> 1"
    using isdigit_int [OF d] i by (simp_all split: if_splits)
qed

lemma resolve_emit_accepts:
  assumes "py_strip s = s" "s \<noteq> []" "\<forall>c \<in> set s. is_dec c" "digits_val 10 s \<ge> 1" "h \<noteq> ''notfrozen''"
  shows "resolve_emit_version ''module-local'' (Some (YStr s)) gv h name = Inr s"
proof -
  have "py_isdigit s" using assms by (simp add: py_isdigit_def)
  then show ?thesis
    using assms isdigit_int [of s] by (simp add: resolve_emit_version_def yaml_str_def Let_def)
qed

text \<open>A dotted version is refused by the range check with a \<^verbatim>\<open>ValueError\<close>.\<close>

lemma dotted_not_int: "CHR ''.'' \<in> set v \<Longrightarrow> py_int v = Inl (ValueError v)"
proof -
  assume dot: "CHR ''.'' \<in> set v"
  have nb: "\<not> int_blank (CHR ''.'')" by (simp add: int_blank_def is_space_def)
  have keep: "CHR ''.'' \<in> set (dropWhile int_blank xs)" if "CHR ''.'' \<in> set xs" for xs
    using that nb by (induction xs) auto
  let ?t = "rev (dropWhile int_blank (rev (dropWhile int_blank v)))"
  have t: "CHR ''.'' \<in> set ?t" using dot keep by simp
  obtain sg r where sr: "split_sign ?t = (sg, r)" by fastforce
  then have r: "CHR ''.'' \<in> set r"
    using t by (auto simp: split_sign_def split: list.splits if_splits)
  have "dec_digits xs \<Longrightarrow> CHR ''.'' \<notin> set xs" for xs
    by (induction xs rule: dec_digits.induct) (auto simp: is_dec_def)
  then have "\<not> dec_digits r" using r by blast
  then show ?thesis using sr by (simp add: py_int_def Let_def)
qed

lemma gen_dotted_version:
  assumes "map_of ds n = Some i" "layout i \<noteq> ''module-local''" "\<not> unstable i" "CHR ''.'' \<in> set v"
  shows "\<exists>e w'. handle_source_gen t limit n ds gen_dir (Some v) w = (Inl e, w')"
proof -
  obtain r w1 where val: "validate_interface t limit i ds w = (r, w1)" by fastforce
  have c: "check_gen_version i nv v = Inl (ValueError v)" for nv
    using assms(2) dotted_not_int [OF assms(4)] by (simp add: check_gen_version_def)
  show ?thesis
  proof (cases r)
    case (Inl e)
    then show ?thesis using val assms(1) by (simp add: handle_source_gen_def dict_get_def io_bind_fail)
  next
    case (Inr dumps)
    then show ?thesis using val assms(1,3) c
      by (cases "next_version i")
         (auto simp: handle_source_gen_def dict_get_def io_bind_step io_raise_def)
  qed
qed

end
