(* ===== verification/Surface_Lex.thy ===== *)
theory Surface_Lex
  imports Py_Str
begin

text \<open>
  The lexical layer of \<^verbatim>\<open>host/aidl_surface.py\<close>: \<^verbatim>\<open>_string_end\<close> and \<^verbatim>\<open>strip_comments\<close>. The scanning
  loops of the source keep an index \<^verbatim>\<open>i\<close> into a fixed text; the model passes the text from \<^verbatim>\<open>i\<close> on,
  so \<^verbatim>\<open>text[i:j]\<close> and the rest from \<^verbatim>\<open>j\<close> are \<^const>\<open>take\<close> and \<^const>\<open>drop\<close>. The interface
  \<open>literal_end\<close> says what the loops need from \<^verbatim>\<open>_string_end\<close>.
\<close>

section \<open>String literals\<close>

function string_loop :: "string \<Rightarrow> nat \<Rightarrow> nat" where
  "string_loop text j =
     (if j < length text \<and> text ! j \<noteq> chr_quote
      then string_loop text (if text ! j = chr_bslash then j + 2 else j + 1)
      else j)"
  by pat_completeness auto
termination by (relation "measure (\<lambda>(text, j). length text - j)") auto

declare string_loop.simps [simp del]

text \<open>Index just past the string literal starting at position \<open>i\<close>.\<close>

definition string_end :: "string \<Rightarrow> nat \<Rightarrow> nat" where
  "string_end text i = min (string_loop text (i + 1) + 1) (length text)"

text \<open>The literal at the head of a text is closed: its end quote is there.\<close>

definition lit_closed :: "string \<Rightarrow> bool" where
  "lit_closed text \<longleftrightarrow> string_loop text 1 < length text"

locale literal_end =
  fixes lit_end :: "string \<Rightarrow> nat \<Rightarrow> nat"
    and closed :: "string \<Rightarrow> bool"
  assumes progress: "i < length t \<Longrightarrow> i < lit_end t i \<and> lit_end t i \<le> length t"
    and rebase: "i < length t \<Longrightarrow> lit_end t i = i + lit_end (drop i t) 0"
    and stable: "t \<noteq> [] \<Longrightarrow> closed t \<Longrightarrow>
          lit_end (take (lit_end t 0) t @ r) 0 = lit_end t 0 \<and> closed (take (lit_end t 0) t @ r)"
    and unclosed: "t \<noteq> [] \<Longrightarrow> \<not> closed t \<Longrightarrow> lit_end t 0 = length t"
begin

lemma rest_shorter: "t \<noteq> [] \<Longrightarrow> length (drop (lit_end t 0) t) < length t"
  using progress [of 0 t] by simp

lemma lit_nonempty: "t \<noteq> [] \<Longrightarrow> take (lit_end t 0) t \<noteq> []"
  using progress [of 0 t] by (cases t) auto

lemma lit_head: "t \<noteq> [] \<Longrightarrow> hd (take (lit_end t 0) t) = hd t"
  using progress [of 0 t] by (cases t) auto

lemma take_lit: "t \<noteq> [] \<Longrightarrow> closed t \<Longrightarrow>
    take (lit_end t 0) (take (lit_end t 0) t @ r) = take (lit_end t 0) t"
  using progress [of 0 t] by (simp add: min_absorb2)

lemma drop_lit: "t \<noteq> [] \<Longrightarrow> closed t \<Longrightarrow> drop (lit_end t 0) (take (lit_end t 0) t @ r) = r"
  using progress [of 0 t] by (simp add: min_absorb2)

text \<open>A closed literal is found again, with the same end, whatever follows it.\<close>

lemma closed_append:
  assumes "t \<noteq> []" "closed t"
  shows "lit_end (t @ r) 0 = lit_end t 0 \<and> closed (t @ r)"
  using stable [OF assms, of "drop (lit_end t 0) t @ r"] by (simp add: append_assoc [symmetric] del: append_assoc)

end

text \<open>The loop, counted from the character after the opening quote.\<close>

fun lit_len :: "string \<Rightarrow> nat" where
  "lit_len [] = 0"
| "lit_len (c # s) =
     (if c = chr_quote then 0 else if c = chr_bslash then 2 + lit_len (tl s) else 1 + lit_len s)"

lemma string_loop_lit_len: "j \<le> length t \<Longrightarrow> string_loop t j = j + lit_len (drop j t)"
proof (induction t j rule: string_loop.induct)
  case (1 t j)
  show ?case
  proof (cases "j < length t")
    case True
    then have d: "drop j t = t ! j # drop (Suc j) t" by (simp add: Cons_nth_drop_Suc)
    have t: "tl (drop (Suc j) t) = drop (Suc (Suc j)) t" by (simp add: tl_drop drop_Suc)
    show ?thesis
    proof (cases "Suc (Suc j) \<le> length t")
      case True
      with 1 \<open>j < length t\<close> d t show ?thesis by (subst string_loop.simps) auto
    next
      case False
      then have "length t = Suc j" using \<open>j < length t\<close> by simp
      then show ?thesis
        using 1 d by (subst string_loop.simps) (auto simp: string_loop.simps [of t "Suc (Suc j)"])
    qed
  next
    case False
    with 1 show ?thesis by (subst string_loop.simps) simp
  qed
qed

lemma string_end_0: "string_end (c # s) 0 = min (lit_len s + 2) (Suc (length s))"
  by (simp add: string_end_def string_loop_lit_len)

lemma lit_closed_Cons: "lit_closed (c # s) \<longleftrightarrow> lit_len s < length s"
  by (simp add: lit_closed_def string_loop_lit_len)

lemma lit_len_closed:
  "lit_len s < length s \<Longrightarrow> lit_len (take (Suc (lit_len s)) s @ r) = lit_len s"
proof (induction s rule: lit_len.induct)
  case (2 c s)
  show ?case
  proof (cases "c = chr_bslash")
    case True
    with 2 show ?thesis by (cases s) auto
  next
    case False
    with 2 show ?thesis by auto
  qed
qed simp

interpretation lit: literal_end string_end lit_closed
proof unfold_locales
  fix i :: nat and t :: string
  assume i: "i < length t"
  show "i < string_end t i \<and> string_end t i \<le> length t"
    using i by (simp add: string_end_def string_loop_lit_len)
  show "string_end t i = i + string_end (drop i t) 0"
    using i by (simp add: string_end_def string_loop_lit_len)
next
  fix t r :: string
  assume t: "t \<noteq> []" "lit_closed t"
  then obtain c s where cs: "t = c # s" by (cases t) auto
  with t have len: "lit_len s < length s" by (simp add: lit_closed_Cons)
  then have e: "string_end t 0 = Suc (Suc (lit_len s))" by (simp add: cs string_end_0)
  have "lit_len (take (Suc (lit_len s)) s @ r) = lit_len s" using len by (rule lit_len_closed)
  then show "string_end (take (string_end t 0) t @ r) 0 = string_end t 0 \<and>
      lit_closed (take (string_end t 0) t @ r)"
    using len unfolding e by (simp add: cs string_end_0 lit_closed_Cons)
next
  fix t :: string
  assume "t \<noteq> []" "\<not> lit_closed t"
  then show "string_end t 0 = length t"
    by (cases t) (auto simp: string_end_0 lit_closed_Cons)
qed

section \<open>Comments\<close>

text \<open>Remove \<^verbatim>\<open>//\<close> and \<^verbatim>\<open>/* */\<close> comments, preserving string literals.\<close>

function strip_comments :: "string \<Rightarrow> string" where
  "strip_comments [] = []"
| "strip_comments (ch # r) =
     (let text = ch # r in
      if ch = chr_quote
      then (let j = string_end text 0 in take j text @ strip_comments (drop j text))
      else if py_startswith text ''//''
      then (case py_find [chr_nl] text of
              None \<Rightarrow> []
            | Some j \<Rightarrow> strip_comments (drop j text))
      else if py_startswith text ''/*''
      then CHR '' '' # (case py_find ''*/'' (drop 2 text) of
              None \<Rightarrow> []
            | Some j \<Rightarrow> strip_comments (drop (2 + j + 2) text))
      else ch # strip_comments r)"
  by pat_completeness auto
termination
proof (relation "measure length")
  fix ch r x j
  assume "x = ch # r" "py_startswith x ''//''" "py_find [chr_nl] x = Some j"
  then have "j \<noteq> 0" by (auto simp: prefix_def split: if_splits)
  with \<open>x = ch # r\<close> show "(drop j x, ch # r) \<in> measure length" by simp
next
  fix ch r x j
  assume "x = ch # r" "j = string_end x 0"
  then show "(drop j x, ch # r) \<in> measure length"
    using lit.rest_shorter [of "ch # r"] by simp
qed auto

declare strip_comments.simps(2) [simp del]

text \<open>One equation per branch of the scan.\<close>

definition comment_start :: "string \<Rightarrow> bool" where
  "comment_start t \<longleftrightarrow> prefix ''//'' t \<or> prefix ''/*'' t"

lemma strip_lit:
  "strip_comments (chr_quote # r) =
     take (string_end (chr_quote # r) 0) (chr_quote # r) @
     strip_comments (drop (string_end (chr_quote # r) 0) (chr_quote # r))"
  by (simp add: strip_comments.simps(2) Let_def)

lemma strip_line:
  "strip_comments (CHR ''/'' # CHR ''/'' # r) =
     (case py_find [chr_nl] r of None \<Rightarrow> [] | Some j \<Rightarrow> strip_comments (drop j r))"
  by (simp add: strip_comments.simps(2) Let_def option.map_sel split: option.splits)

lemma strip_block:
  "strip_comments (CHR ''/'' # CHR ''*'' # r) =
     CHR '' '' # (case py_find ''*/'' r of None \<Rightarrow> [] | Some j \<Rightarrow> strip_comments (drop (j + 2) r))"
  by (simp add: strip_comments.simps(2) Let_def split: option.splits)

lemma strip_other:
  "c \<noteq> chr_quote \<Longrightarrow> \<not> comment_start (c # r) \<Longrightarrow> strip_comments (c # r) = c # strip_comments r"
  by (subst strip_comments.simps(2), unfold comment_start_def Let_def) (simp only: if_False de_Morgan_disj)

lemmas strip_branches = strip_lit strip_line strip_block strip_other

text \<open>Computation induction with the branches of the scan as cases.\<close>

lemma strip_cases [case_names Nil lit line block other]:
  assumes "t = [] \<Longrightarrow> P"
    and "\<And>r. t = chr_quote # r \<Longrightarrow> P"
    and "\<And>r. t = CHR ''/'' # CHR ''/'' # r \<Longrightarrow> P"
    and "\<And>r. t = CHR ''/'' # CHR ''*'' # r \<Longrightarrow> P"
    and "\<And>c r. t = c # r \<Longrightarrow> c \<noteq> chr_quote \<Longrightarrow> \<not> comment_start (c # r) \<Longrightarrow> P"
  shows P
proof (cases t)
  case (Cons c r)
  then show ?thesis
    using assms by (cases r) (auto simp: comment_start_def)
qed (use assms in blast)

lemma strip_head:
  assumes "strip_comments r = c # s" "c = CHR ''/'' \<or> c = CHR ''*''" "\<not> comment_start r"
  shows "\<exists>r'. r = c # r'"
proof (cases r rule: strip_cases)
  case (lit r')
  have "hd (strip_comments r) = chr_quote"
    using lit lit.lit_nonempty [of r] lit.lit_head [of r] by (simp add: strip_lit)
  with assms show ?thesis by auto
qed (use assms in \<open>auto simp: strip_branches comment_start_def\<close>)

lemma strip_not_start:
  "\<not> comment_start (c # r) \<Longrightarrow> \<not> comment_start (c # strip_comments r)"
proof
  assume n: "\<not> comment_start (c # r)" and "comment_start (c # strip_comments r)"
  then obtain d s where c: "c = CHR ''/''" and s: "strip_comments r = d # s"
    and d: "d = CHR ''/'' \<or> d = CHR ''*''"
    by (cases "strip_comments r") (auto simp: comment_start_def)
  have "\<not> comment_start r"
    using n c by (cases r) (auto simp: comment_start_def)
  then obtain r' where "r = d # r'" using strip_head [OF s d] by blast
  with n c d show False by (auto simp: comment_start_def)
qed

text \<open>Stripping leaves nothing to strip.\<close>

lemma strip_comments_idem: "strip_comments (strip_comments t) = strip_comments t"
proof (induction t rule: length_induct)
  case (1 t)
  show ?case
  proof (cases t rule: strip_cases)
    case (lit r)
    let ?j = "string_end t 0"
    let ?rest = "strip_comments (drop ?j t)"
    have IH: "strip_comments ?rest = ?rest"
      using 1 lit.rest_shorter [of t] lit by auto
    show ?thesis
    proof (cases "lit_closed t")
      case True
      have ne: "t \<noteq> []" using lit by simp
      obtain v where v: "take ?j t = chr_quote # v"
        using lit.lit_nonempty [OF ne] lit.lit_head [OF ne] lit
        by (metis list.collapse list.sel(1))
      have "strip_comments (take ?j t @ ?rest) = take ?j t @ strip_comments ?rest"
        using lit.stable [OF ne True, of ?rest] lit.take_lit [OF ne True, of ?rest]
          lit.drop_lit [OF ne True, of ?rest]
        by (simp add: v strip_lit)
      then show ?thesis using IH by (simp add: lit strip_lit)
    next
      case False
      then have "?j = length t" using lit by (simp add: lit.unclosed)
      then show ?thesis using lit by (simp add: strip_lit)
    qed
  next
    case (line r)
    then show ?thesis using 1 by (auto simp: strip_line split: option.splits)
  next
    case (block r)
    have "\<not> comment_start (CHR '' '' # s)" for s by (simp add: comment_start_def)
    then show ?thesis using 1 block by (auto simp: strip_branches split: option.splits)
  next
    case (other c r)
    then show ?thesis using 1 by (simp add: strip_other strip_not_start)
  qed simp
qed

text \<open>
  A text that the scan leaves outside of literals and comments, with no \<^verbatim>\<open>/\<close> pending: what
  follows it is scanned on its own.
\<close>

function scan_outside :: "string \<Rightarrow> bool" where
  "scan_outside [] = True"
| "scan_outside (ch # r) =
     (let text = ch # r in
      if ch = chr_quote
      then lit_closed text \<and> scan_outside (drop (string_end text 0) text)
      else if prefix ''//'' text
      then (case py_find [chr_nl] text of None \<Rightarrow> False | Some j \<Rightarrow> scan_outside (drop j text))
      else if prefix ''/*'' text
      then (case py_find ''*/'' (drop 2 text) of
              None \<Rightarrow> False
            | Some j \<Rightarrow> scan_outside (drop (2 + j + 2) text))
      else (if r = [] then ch \<noteq> CHR ''/'' else scan_outside r))"
  by pat_completeness auto
termination
proof (relation "measure length")
  fix ch r x j
  assume "x = ch # r" "prefix ''//'' x" "py_find [chr_nl] x = Some j"
  then have "j \<noteq> 0" by (auto simp: prefix_def split: if_splits)
  with \<open>x = ch # r\<close> show "(drop j x, ch # r) \<in> measure length" by simp
next
  fix ch :: char and r x :: string
  assume "x = ch # r"
  then show "(drop (string_end x 0) x, ch # r) \<in> measure length"
    using lit.rest_shorter [of "ch # r"] by simp
qed auto

declare scan_outside.simps(2) [simp del]

lemma outside_branches:
  "scan_outside (chr_quote # r) \<longleftrightarrow> lit_closed (chr_quote # r) \<and>
     scan_outside (drop (string_end (chr_quote # r) 0) (chr_quote # r))"
  "scan_outside (CHR ''/'' # CHR ''/'' # r) \<longleftrightarrow>
     (case py_find [chr_nl] r of None \<Rightarrow> False | Some j \<Rightarrow> scan_outside (drop j r))"
  "scan_outside (CHR ''/'' # CHR ''*'' # r) \<longleftrightarrow>
     (case py_find ''*/'' r of None \<Rightarrow> False | Some j \<Rightarrow> scan_outside (drop (j + 2) r))"
  "c \<noteq> chr_quote \<Longrightarrow> \<not> comment_start (c # r) \<Longrightarrow>
     scan_outside (c # r) \<longleftrightarrow> (if r = [] then c \<noteq> CHR ''/'' else scan_outside r)"
  by (auto simp: scan_outside.simps(2) comment_start_def Let_def split: option.splits)

lemma py_find_append: "py_find sub s = Some i \<Longrightarrow> py_find sub (s @ r) = Some i"
proof (induction sub s arbitrary: i rule: py_find.induct)
  case (1 sub)
  then show ?case by (cases r) (auto split: if_splits)
next
  case (2 sub c s)
  show ?case
  proof (cases "prefix sub (c # s)")
    case True
    then have "prefix sub (c # s @ r)" by (metis append_Cons prefix_append)
    with 2 True show ?thesis by simp
  next
    case False
    with 2 obtain k where k: "py_find sub s = Some k" "i = Suc k" by auto
    then have "length sub \<le> length (c # s)"
      using py_find_Some [OF k(1)] by (auto dest: prefix_length_le)
    then have "\<not> prefix sub (c # s @ r)"
      using False prefix_length_prefix [of sub "c # s @ r" "c # s"] by auto
    with 2 False k show ?thesis by simp
  qed
qed

text \<open>A scanned-off part and what follows are stripped independently of each other.\<close>

text \<open>A literal that is closed in a text ends at the same place when more text follows.\<close>

lemma strip_lit_append:
  assumes "t = chr_quote # r" "lit_closed t" "strip_comments (drop (string_end t 0) t @ x) =
    strip_comments (drop (string_end t 0) t) @ strip_comments x"
  shows "strip_comments (t @ x) = strip_comments t @ strip_comments x"
proof -
  let ?j = "string_end t 0"
  have ne: "t \<noteq> []" using assms(1) by simp
  have e: "string_end (t @ x) 0 = ?j" using lit.closed_append [OF ne assms(2)] by simp
  have le: "?j \<le> length t" using lit.progress [of 0 t] ne by simp
  have "strip_comments (t @ x) = take ?j (t @ x) @ strip_comments (drop ?j (t @ x))"
    using e assms(1) strip_lit [of "r @ x"] by simp
  also have "\<dots> = take ?j t @ strip_comments (drop ?j t @ x)" using le by simp
  finally show ?thesis using assms(1,3) by (simp add: strip_lit)
qed

lemma strip_other_append:
  assumes "scan_outside (c # r)" "c \<noteq> chr_quote" "\<not> comment_start (c # r)"
    and "scan_outside r \<Longrightarrow> strip_comments (r @ x) = strip_comments r @ strip_comments x"
  shows "strip_comments (c # r @ x) = strip_comments (c # r) @ strip_comments x"
proof (cases r)
  case Nil
  with assms have "c \<noteq> CHR ''/''" by (simp add: outside_branches)
  then have "\<not> comment_start (c # x)" by (simp add: comment_start_def)
  with assms Nil show ?thesis by (simp add: strip_other)
next
  case (Cons d s)
  then have "\<not> comment_start (c # r @ x)" using assms(3) by (auto simp: comment_start_def)
  moreover have "scan_outside r" using assms(1-3) Cons by (simp add: outside_branches)
  ultimately show ?thesis using assms by (simp add: strip_other)
qed

lemma strip_comments_append:
  "scan_outside t \<Longrightarrow> strip_comments (t @ x) = strip_comments t @ strip_comments x"
proof (induction t rule: length_induct)
  case (1 t)
  show ?case
  proof (cases t rule: strip_cases)
    case (lit r)
    have c: "lit_closed t" "scan_outside (drop (string_end t 0) t)"
      using 1(2) lit by (auto simp: outside_branches)
    then show ?thesis using 1(1) lit.rest_shorter [of t] lit by (intro strip_lit_append [OF lit]) auto
  next
    case (line r)
    then obtain j where j: "py_find [chr_nl] r = Some j" "scan_outside (drop j r)"
      using 1(2) by (auto simp: outside_branches split: option.splits)
    then show ?thesis
      using 1(1) line py_find_append [OF j(1), of x] py_find_Some [OF j(1)]
      by (simp add: strip_line)
  next
    case (block r)
    then obtain j where j: "py_find ''*/'' r = Some j" "scan_outside (drop (j + 2) r)"
      using 1(2) by (auto simp: outside_branches split: option.splits)
    have "j + 2 \<le> length r"
      using py_find_Some [OF j(1)] by (auto dest!: prefix_length_le)
    then show ?thesis
      using 1(1) block py_find_append [OF j(1), of x] j
      by (simp add: strip_block)
  next
    case (other c r)
    then show ?thesis using 1 strip_other_append [of c r x] by simp
  qed simp
qed

lemma find_block_end: "py_find ''*/'' c = None \<Longrightarrow> py_find ''*/'' (c @ ''*/'' @ s) = Some (length c)"
proof (induction c)
  case (Cons a c)
  then have n: "\<not> prefix ''*/'' (a # c)" "py_find ''*/'' c = None" by (auto split: if_splits)
  have "\<not> prefix ''*/'' (a # c @ ''*/'' @ s)" using n(1) by (cases c) auto
  with Cons n show ?case by simp
qed simp

text \<open>
  What the scan makes of each kind of segment at a place outside of literals and comments: a
  block comment becomes one blank, a line comment disappears up to its line break, a closed
  literal is kept as it is.
\<close>

lemma strip_comments_block:
  assumes "scan_outside t" "py_find ''*/'' c = None"
  shows "strip_comments (t @ ''/*'' @ c @ ''*/'' @ s) =
    strip_comments t @ CHR '' '' # strip_comments s"
  using find_block_end [OF assms(2), of s]
  by (simp add: strip_comments_append [OF assms(1)] strip_block)

lemma strip_comments_line:
  assumes "scan_outside t" "chr_nl \<notin> set c"
  shows "strip_comments (t @ ''//'' @ c @ chr_nl # s) =
    strip_comments t @ chr_nl # strip_comments s"
proof -
  have "\<not> comment_start (chr_nl # s)" by (simp add: comment_start_def)
  then have "strip_comments (chr_nl # s) = chr_nl # strip_comments s"
    by (simp add: strip_other)
  then show ?thesis
    using py_find_char_Some [OF assms(2), of s]
    by (simp add: strip_comments_append [OF assms(1)] strip_line)
qed

lemma strip_comments_literal:
  assumes "scan_outside t" "lit_closed q" "hd q = chr_quote" "string_end q 0 = length q"
  shows "strip_comments (t @ q @ s) = strip_comments t @ q @ strip_comments s"
proof -
  obtain v where q: "q = chr_quote # v"
    using assms(2,3) by (cases q) (auto simp: lit_closed_def)
  have "string_end (q @ s) 0 = length q"
    using lit.closed_append [of q s] assms(2,4) q by simp
  then have "strip_comments (q @ s) = q @ strip_comments s"
    using strip_lit [of "v @ s"] by (simp add: q)
  then show ?thesis by (simp add: strip_comments_append [OF assms(1)])
qed

end
