(* ===== verification/Surface_Parse.thy ===== *)
theory Surface_Parse
  imports Surface_Lex Py_Re
begin

text \<open>
  The parser of \<^verbatim>\<open>host/aidl_surface.py\<close>: statement normalisation, splitting of declaration
  bodies, annotations, enum values, type declarations, whole files, and the canonical dump of a
  tree of \<^verbatim>\<open>.aidl\<close> files. A type is a record, the \<^verbatim>\<open>types\<close> dict an association list in insertion
  order, and \<^verbatim>\<open>ValueError\<close> (from \<^verbatim>\<open>int(expr, 0)\<close>) the left of a result.
\<close>

section \<open>Patterns\<close>

definition DECL_RE :: re where
  "DECL_RE = Seq (Opt (Grp 1 (Seq (Word ''oneway'') (Plus ReS))))
     (Seq (Grp 2 (Alt (Word ''interface'') (Alt (Word ''parcelable'') (Alt (Word ''union'') (Word ''enum'')))))
     (Seq (Plus ReS)
     (Seq (Grp 3 (Plus ReW))
     (Seq (Star ReS)
          (Grp 4 (Cls (\<lambda>c. c = CHR ''{'' \<or> c = CHR '';'')))))))"

definition ANNOTATION_RE :: re where
  "ANNOTATION_RE = Seq (Cls (\<lambda>c. c = CHR ''@'')) (Seq (Plus ReW)
     (Opt (Grp 1 (Seq (Star ReS) (Seq (Lit CHR ''('')
        (Seq (Star (Cls (\<lambda>c. c \<noteq> CHR '')''))) (Lit CHR '')'')))))))"

definition INT_RE :: re where
  "INT_RE = Seq (Opt (Cls (\<lambda>c. c = CHR ''+'' \<or> c = CHR ''-'')))
     (Seq (Grp 1 (Alt (Seq (Lit CHR ''0'') (Seq (Cls (\<lambda>c. c = CHR ''x'' \<or> c = CHR ''X'')) (Plus (Cls is_hex))))
                      (Plus ReD)))
          Eos)"

section \<open>Normalisation\<close>

definition is_punct :: "char \<Rightarrow> bool" where
  "is_punct c \<longleftrightarrow> c \<in> set ''(),;=[]''"

definition flush :: "string \<Rightarrow> string" where
  "flush segment =
     (let s1 = re_sub (Plus ReS) (\<lambda>_. '' '') segment;
          s2 = re_sub (Seq (Star ReS) (Seq (Grp 1 (Cls is_punct)) (Star ReS))) (\<lambda>g. group g 1) s1;
          s3 = py_replace ''='' '' = '' (py_replace '','' '', '' s2)
      in re_sub (Seq (Lit CHR '']'') (Grp 1 ReW)) (\<lambda>g. ''] '' @ group g 1) s3)"

function normalize_loop :: "string \<Rightarrow> string \<Rightarrow> string \<Rightarrow> string" where
  "normalize_loop [] buf out = py_strip (out @ flush buf)"
| "normalize_loop (c # r) buf out =
     (let stmt = c # r in
      if c = chr_quote
      then (let j = string_end stmt 0
            in normalize_loop (drop j stmt) [] (out @ flush buf @ take j stmt))
      else normalize_loop r (buf @ [c]) out)"
  by pat_completeness auto
termination
proof (relation "measure (\<lambda>(s, b, u). length s)")
  fix c :: char and r buf out x :: string and j
  assume "x = c # r" "j = string_end x 0"
  then show "((drop j x, [], out @ flush buf @ take j x), c # r, buf, out)
      \<in> measure (\<lambda>(s, b, u). length s)"
    using lit.rest_shorter [of "c # r"] by simp
qed auto

declare normalize_loop.simps(2) [simp del]

definition normalize :: "string \<Rightarrow> string" where
  "normalize stmt = normalize_loop stmt [] []"

section \<open>Statements\<close>

datatype item = Decl string string | Stmt string

text \<open>
  The number of characters after an opening brace up to and including the matching one; all
  of them when there is none.
\<close>

function brace_len :: "string \<Rightarrow> nat \<Rightarrow> nat" where
  "brace_len [] depth = 0"
| "brace_len (c # r) depth =
     (if depth = 0 then 0
      else if c = chr_quote
      then (let j = string_end (c # r) 0 in j + brace_len (drop j (c # r)) depth)
      else Suc (brace_len r (if c = CHR ''{'' then depth + 1
                             else if c = CHR ''}'' then depth - 1 else depth)))"
  by pat_completeness auto
termination
proof (relation "measure (\<lambda>(s, d). length s)")
  fix c :: char and r :: string and depth j :: nat
  assume "j = string_end (c # r) 0"
  then show "((drop j (c # r), depth), c # r, depth) \<in> measure (\<lambda>(s, d). length s)"
    using lit.rest_shorter [of "c # r"] by simp
qed auto

declare brace_len.simps(2) [simp del]

definition flush_stmt :: "string \<Rightarrow> item list" where
  "flush_stmt buf = (if py_strip buf \<noteq> [] then [Stmt (py_strip buf)] else [])"

function split_loop :: "string \<Rightarrow> string \<Rightarrow> item list" where
  "split_loop [] buf = flush_stmt buf"
| "split_loop (ch # r) buf =
     (if ch = chr_quote
      then (let j = string_end (ch # r) 0
            in split_loop (drop j (ch # r)) (buf @ take j (ch # r)))
      else if ch = CHR ''{''
      then (let k = brace_len r 1
            in Decl (py_strip buf) (take (k - 1) r) # split_loop (drop k r) [])
      else if ch = CHR '';''
      then flush_stmt buf @ split_loop r []
      else split_loop r (buf @ [ch]))"
  by pat_completeness auto
termination
proof (relation "measure (\<lambda>(s, b). length s)")
  fix ch :: char and r buf :: string and j :: nat
  assume "j = string_end (ch # r) 0"
  then show "((drop j (ch # r), buf @ take j (ch # r)), ch # r, buf) \<in> measure (\<lambda>(s, b). length s)"
    using lit.rest_shorter [of "ch # r"] by simp
qed auto

declare split_loop.simps(2) [simp del]

definition split_statements :: "string \<Rightarrow> item list" where
  "split_statements body = split_loop body []"

lemma split_loop_shorter: "Decl h b \<in> set (split_loop s buf) \<Longrightarrow> length b < length s"
proof (induction s buf rule: split_loop.induct)
  case (1 buf)
  then show ?case by (simp add: flush_stmt_def split: if_splits)
next
  case (2 ch r buf)
  note unf = split_loop.simps(2) [of ch r buf]
  consider "ch = chr_quote" | "ch = CHR ''{''" | "ch = CHR '';''"
    | "ch \<noteq> chr_quote" "ch \<noteq> CHR ''{''" "ch \<noteq> CHR '';''" by blast
  then show ?case
  proof cases
    case 1
    then have "Decl h b \<in> set (split_loop (drop (string_end (ch # r) 0) (ch # r))
        (buf @ take (string_end (ch # r) 0) (ch # r)))"
      using 2(5) unf by (simp add: Let_def)
    then have "length b < length (drop (string_end (ch # r) 0) (ch # r))"
      using 2(1) 1 by simp
    also have "\<dots> < length (ch # r)" by (rule lit.rest_shorter) simp
    finally show ?thesis .
  next
    case 2
    then have "b = take (brace_len r 1 - 1) r \<or> Decl h b \<in> set (split_loop (drop (brace_len r 1) r) [])"
      using "2.prems" unf by (auto simp: Let_def)
    then show ?thesis using "2.IH"(2) 2 by fastforce
  next
    case 3
    then have "Decl h b \<in> set (split_loop r [])"
      using "2.prems" unf by (auto simp: flush_stmt_def split: if_splits)
    then show ?thesis using "2.IH"(3) 3 by simp
  next
    case 4
    then show ?thesis using "2.prems" "2.IH"(4) unf by simp
  qed
qed

lemma split_statements_shorter: "Decl h b \<in> set (split_statements body) \<Longrightarrow> length b < length body"
  by (simp add: split_statements_def split_loop_shorter)

section \<open>Annotations and enum values\<close>

definition remove_space :: "string \<Rightarrow> string" where
  "remove_space s = re_sub (Plus ReS) (\<lambda>_. []) s"

lemma length_py_strip: "length (py_strip s) \<le> length s"
proof -
  have "length (py_strip s) \<le> length (dropWhile is_space s)"
    unfolding py_strip_def py_lstrip_def by (rule prefix_length_le [OF py_rstrip_prefix])
  also have "\<dots> \<le> length s" by (rule length_dropWhile_le)
  finally show ?thesis .
qed

function annotations_loop :: "string list \<Rightarrow> string \<Rightarrow> string list \<times> string" where
  "annotations_loop anns rest =
     (case re_match ANNOTATION_RE rest of
        None \<Rightarrow> (anns, rest)
      | Some (m, t, g) \<Rightarrow> annotations_loop (anns @ [remove_space m]) (py_strip t))"
  by pat_completeness auto
termination
proof (relation "measure (\<lambda>(a, s). length s)")
  fix anns rest x m y t g
  assume "re_match ANNOTATION_RE rest = Some x" "(m, y) = x" "(t, g) = y"
  then have "length t < length rest"
    using re_match_shorter unfolding ANNOTATION_RE_def by fastforce
  then show "((anns @ [remove_space m], py_strip t), anns, rest) \<in> measure (\<lambda>(a, s). length s)"
    using length_py_strip [of t] by simp
qed simp

declare annotations_loop.simps [simp del]

text \<open>Split leading annotations off a declaration or statement.\<close>

definition take_annotations :: "string \<Rightarrow> string list \<times> string" where
  "take_annotations text = annotations_loop [] (py_strip text)"

text \<open>One comma-separated value of an enum: the members so far and the previous backing integer.\<close>

definition enum_value :: "string \<Rightarrow> string list \<times> int option \<Rightarrow> (string list \<times> int option) res" where
  "enum_value v st =
     (case st of (members, prev) \<Rightarrow>
      (let value = py_strip v in
       if value = [] then Inr (members, prev)
       else if CHR ''='' \<in> set value
       then (case py_partition ''='' value of (n, _, e) \<Rightarrow>
              (let name = py_strip n; expr = py_strip e in
               if re_match INT_RE expr \<noteq> None
               then rbind (py_int0 expr) (\<lambda>i. Inr (members @ [name @ '' = '' @ str_of_int i], Some i))
               else Inr (members @ [name @ '' = '' @ normalize expr], None)))
       else (case prev of
               None \<Rightarrow> Inr (members @ [value], None)
             | Some i \<Rightarrow> Inr (members @ [value @ '' = '' @ str_of_int (i + 1)], Some (i + 1)))))"

definition parse_enum_body :: "string \<Rightarrow> string list res" where
  "parse_enum_body body =
     rbind (rfold enum_value (py_split_on CHR '','' body) ([], Some (-1))) (\<lambda>(members, prev). Inr members)"

section \<open>Types\<close>

datatype decl_kind = Interface | Parcelable | Union | Enum

fun kind_name :: "decl_kind \<Rightarrow> string" where
  "kind_name Interface = ''interface''"
| "kind_name Parcelable = ''parcelable''"
| "kind_name Union = ''union''"
| "kind_name Enum = ''enum''"

definition DECL_KINDS :: "decl_kind list" where
  "DECL_KINDS = [Interface, Parcelable, Union, Enum]"

definition kind_of_name :: "string \<Rightarrow> decl_kind option" where
  "kind_of_name s = map_of (map (\<lambda>k. (kind_name k, k)) DECL_KINDS) s"

record type_info =
  ty_kind :: decl_kind
  ty_oneway :: bool
  ty_annotations :: "string list"
  ty_members :: "string list"

type_synonym surface = "type_info dict"

text \<open>\<^verbatim>\<open>'.'.join(x for x in parts if x)\<close>\<close>

definition dotted :: "string list \<Rightarrow> string" where
  "dotted parts = py_join ''.'' (filter (\<lambda>x. x \<noteq> []) parts)"

function parse_type :: "string \<Rightarrow> string \<Rightarrow> string \<Rightarrow> string \<Rightarrow> surface \<Rightarrow> surface res" where
  "parse_type header body package outer types =
     (case take_annotations header of (anns, rest) \<Rightarrow>
      (case re_match DECL_RE (rest @ '' {'') of
         None \<Rightarrow> Inr types
       | Some (m, t, g) \<Rightarrow>
          (case kind_of_name (group g 2) of
             None \<Rightarrow> Inr types
           | Some kind \<Rightarrow>
              (let name = group g 3;
                   oneway = has_group g 1;
                   qname = dotted [package, outer, name];
                   finish = (\<lambda>(members, types'). Inr (dict_set qname
                      \<lparr>ty_kind = kind, ty_oneway = oneway, ty_annotations = sort anns,
                       ty_members = members\<rparr> types'))
               in if kind = Enum
                  then rbind (parse_enum_body body) (\<lambda>members. finish (members, types))
                  else rbind (rfold (\<lambda>it (members, types'). (case it of
                               Decl h b \<Rightarrow> rbind (parse_type h b package (dotted [outer, name]) types')
                                            (\<lambda>types''. Inr (members, types''))
                             | Stmt s \<Rightarrow> Inr (members @ [normalize s], types')))
                           (split_statements body) ([], types)) finish))))"
  by pat_completeness auto
termination
  by (relation "measure (\<lambda>(h, b, p, u, ts). length b)") (auto dest: split_statements_shorter)

declare parse_type.simps [simp del]

section \<open>Files and trees\<close>

definition PACKAGE_RE :: re where
  "PACKAGE_RE = Seq Bol (Seq (Star ReS) (Seq (Word ''package'') (Seq (Plus ReS)
     (Seq (Grp 1 (Plus (Cls (\<lambda>c. is_word c \<or> c = CHR ''.'')))) (Seq (Star ReS) (Lit CHR '';''))))))"

definition HEADER_RE :: re where
  "HEADER_RE = Seq Bol (Seq (Star ReS) (Seq (Grp 1 (Alt (Word ''package'') (Word ''import'')))
     (Seq (Plus ReS) (Seq (Plus (Cls (\<lambda>c. is_word c \<or> c = CHR ''.'' \<or> c = CHR ''*'')))
       (Seq (Star ReS) (Lit CHR '';''))))))"

text \<open>Parse the text of one \<^verbatim>\<open>.aidl\<close> file into the types dict.\<close>

definition parse_aidl :: "string \<Rightarrow> surface \<Rightarrow> surface res" where
  "parse_aidl source types =
     (let text = strip_comments source;
          package = (case re_search PACKAGE_RE text of None \<Rightarrow> [] | Some g \<Rightarrow> group g 1);
          text' = re_sub HEADER_RE (\<lambda>_. []) text
      in rfold (\<lambda>it types'. (case it of
             Decl h b \<Rightarrow> parse_type h b package [] types'
           | Stmt s \<Rightarrow>
              (case take_annotations s of (anns, rest) \<Rightarrow>
               (case re_match DECL_RE (rest @ '' ;'') of
                  None \<Rightarrow> Inr types'
                | Some (m, t, g) \<Rightarrow>
                   (case kind_of_name (group g 2) of
                      None \<Rightarrow> Inr types'
                    | Some kind \<Rightarrow> Inr (dict_set (dotted [package, group g 3])
                        \<lparr>ty_kind = kind, ty_oneway = False, ty_annotations = sort anns,
                         ty_members = []\<rparr> types'))))))
           (split_statements text') types)"

text \<open>A directory: its files (name and decoded text) and its subdirectories.\<close>

datatype fs_dir = Dir (dir_files: "(string \<times> string) list") (dir_subdirs: "(string \<times> fs_dir) list")

text \<open>
  The texts in the order of the walk: the \<^verbatim>\<open>.aidl\<close> files of a directory by name, then its
  subdirectories by name.
\<close>

fun walk_texts :: "fs_dir \<Rightarrow> string list" where
  "walk_texts (Dir files subdirs) =
     map snd (filter (\<lambda>(n, t). py_endswith n ''.aidl'') (sort_key fst files)) @
     concat (map (\<lambda>(n, d). walk_texts d) (sort_key fst subdirs))"

definition type_head :: "string \<Rightarrow> type_info \<Rightarrow> string" where
  "type_head qname t = py_join '' ''
     (ty_annotations t @ (if ty_oneway t then [''oneway''] else []) @ [kind_name (ty_kind t), qname])"

definition type_lines :: "string \<Rightarrow> type_info \<Rightarrow> string list" where
  "type_lines qname t = type_head qname t # map (\<lambda>m. ''    '' @ m) (ty_members t) @ [[]]"

text \<open>The second half of \<^verbatim>\<open>dump_surface\<close>: the types, by name, as text.\<close>

definition render_surface :: "surface \<Rightarrow> string" where
  "render_surface types = py_join [chr_nl]
     (concat (map (\<lambda>q. type_lines q (the (map_of types q))) (sort (dict_keys types))))"

text \<open>Canonical text dump of every \<^verbatim>\<open>.aidl\<close> under a root.\<close>

definition dump_surface :: "fs_dir \<Rightarrow> string res" where
  "dump_surface root = rbind (rfold parse_aidl (walk_texts root) []) (\<lambda>types. Inr (render_surface types))"

end
