(* ===== verification/Surface_Dump.thy ===== *)
theory Surface_Dump
  imports Surface_Parse
begin

text \<open>
  Reading a dump back (\<^verbatim>\<open>parse_dump\<close> of \<^verbatim>\<open>host/aidl_surface.py\<close>), and the round trip with the
  writer \<^const>\<open>render_surface\<close>: a well-formed surface is recovered from its dump.
\<close>

section \<open>The reader\<close>

text \<open>
  One line of a dump. The second component of the state is the name of the type whose
  members are being read, the \<^verbatim>\<open>cur\<close> of the source, which aliases the entry stored under that name.
\<close>

definition parse_dump_line ::
  "string \<Rightarrow> surface \<times> string option \<Rightarrow> (surface \<times> string option) res" where
  "parse_dump_line line st =
     (case st of (types, cur) \<Rightarrow>
      if py_strip line = [] then Inr (types, cur)
      else if py_startswith line ''    ''
      then (case cur of
              None \<Rightarrow> Inr (types, cur)
            | Some q \<Rightarrow> rbind (dict_get types q) (\<lambda>t.
                Inr (dict_set q (t\<lparr>ty_members := ty_members t @ [py_strip line]\<rparr>) types, cur)))
      else (case take_annotations line of (anns, rest) \<Rightarrow>
             (let parts = py_split rest;
                  oneway = (parts \<noteq> [] \<and> hd parts = ''oneway'');
                  parts' = (if oneway then tl parts else parts)
              in case parts' of
                   [k, q] \<Rightarrow>
                     (case kind_of_name k of
                        None \<Rightarrow> Inl (ValueError line)
                      | Some kind \<Rightarrow> Inr (dict_set q
                          \<lparr>ty_kind = kind, ty_oneway = oneway, ty_annotations = sort anns,
                           ty_members = []\<rparr> types, Some q))
                 | _ \<Rightarrow> Inl (ValueError line))))"

definition parse_dump :: "string \<Rightarrow> surface res" where
  "parse_dump text = rbind (rfold parse_dump_line (py_splitlines text) ([], None)) (\<lambda>(types, cur). Inr types)"

section \<open>The annotation pattern\<close>

text \<open>What is left after the optional parenthesised arguments of an annotation.\<close>

definition after_args :: "string \<Rightarrow> string" where
  "after_args r = (case dropWhile is_space r of
       [] \<Rightarrow> r
     | c # r' \<Rightarrow> if c = CHR ''('' \<and> CHR '')'' \<in> set r'
                  then tl (dropWhile (\<lambda>x. x \<noteq> CHR '')'') r') else r)"

definition args_re :: re where
  "args_re = Seq (Star ReS) (Seq (Lit CHR ''('')
     (Seq (Star (Cls (\<lambda>c. c \<noteq> CHR '')''))) (Lit CHR '')'')))"

lemma args_run:
  "re_run args_re (p, r, g) = [] \<and> after_args r = r \<or>
   (\<exists>q. re_run args_re (p, r, g) = [(q, after_args r, g)])"
proof -
  have 1: "re_run args_re (p, r, g) =
      re_run (Seq (Lit CHR ''('') (Seq (Star (Cls (\<lambda>c. c \<noteq> CHR '')''))) (Lit CHR '')'')))
        (lastc p (takeWhile is_space r), dropWhile is_space r, g)"
    unfolding args_re_def by (rule run_star_then) (auto simp: is_space_def)
  show ?thesis
  proof (cases "dropWhile is_space r")
    case Nil
    then show ?thesis using 1 by (simp add: after_args_def del: dropWhile_eq_Nil_conv)
  next
    case (Cons c r')
    show ?thesis
    proof (cases "c = CHR ''(''")
      case True
      have 2: "re_run (Seq (Star (Cls (\<lambda>c. c \<noteq> CHR '')''))) (Lit CHR '')'')) (Some c, r', g) =
          re_run (Lit CHR '')'') (lastc (Some c) (takeWhile (\<lambda>c. c \<noteq> CHR '')'') r'),
            dropWhile (\<lambda>c. c \<noteq> CHR '')'') r', g)"
        by (rule run_star_then) auto
      show ?thesis
      proof (cases "dropWhile (\<lambda>c. c \<noteq> CHR '')'') r'")
        case Nil
        then have "CHR '')'' \<notin> set r'" by (auto simp: dropWhile_eq_Nil_conv)
        then show ?thesis
          using 1 2 Nil Cons True by (simp add: after_args_def del: dropWhile_eq_Nil_conv)
      next
        case (Cons d r'')
        then have "d = CHR '')''" "CHR '')'' \<in> set r'"
          using dropWhile_hd_not [OF Cons] set_dropWhileD [of d "\<lambda>c. c \<noteq> CHR '')''" r'] by auto
        then show ?thesis
          using 1 2 Cons \<open>dropWhile is_space r = c # r'\<close> True
          by (simp add: after_args_def del: dropWhile_eq_Nil_conv)
      qed
    next
      case False
      then show ?thesis using 1 Cons by (simp add: after_args_def del: dropWhile_eq_Nil_conv)
    qed
  qed
qed

lemma annotation_match:
  fixes r :: string
  assumes "is_word c"
  defines "t \<equiv> after_args (dropWhile is_word r)"
  shows "\<exists>g. re_match ANNOTATION_RE (CHR ''@'' # c # r) =
    Some (take (length (CHR ''@'' # c # r) - length t) (CHR ''@'' # c # r), t, g)"
proof -
  let ?x = "(lastc (Some c) (takeWhile is_word r), dropWhile is_word r, []) :: conf"
  obtain q g zs where "re_run (Opt (Grp 1 args_re)) ?x = (q, t, g) # zs"
    using args_run [of "lastc (Some c) (takeWhile is_word r)" "dropWhile is_word r" "[]"]
    unfolding t_def by (force simp: grp_add_def)
  then have "\<exists>ys. re_run (Seq (Plus ReW) (Opt (Grp 1 args_re))) (Some CHR ''@'', c # r, []) = (q, t, g) # ys"
    by (rule run_plus_hit [where P = is_word, OF assms(1)])
  then obtain ys where "re_run ANNOTATION_RE (None, CHR ''@'' # c # r, []) = (q, t, g) # ys"
    unfolding ANNOTATION_RE_def args_re_def by (auto simp del: dropWhile_eq_Nil_conv)
  then show ?thesis by (simp add: re_match_def re_at_hit)
qed

lemma annotation_no_match: "s = [] \<or> hd s \<noteq> CHR ''@'' \<Longrightarrow> re_match ANNOTATION_RE s = None"
  by (cases s) (auto simp: re_match_def re_at_def ANNOTATION_RE_def simp del: dropWhile_eq_Nil_conv)

section \<open>Removing white space\<close>

lemma re_sub_plus_from:
  "re_sub_from (Plus (Cls P)) f p (c # s) =
     (if P c then f [] @ re_sub_from (Plus (Cls P)) f (lastc (Some c) (takeWhile P s)) (dropWhile P s)
      else c # re_sub_from (Plus (Cls P)) f (Some c) s)"
proof (cases "P c")
  case True
  obtain ys where "re_run (Star (Cls P)) (Some c, s, []) =
      (lastc (Some c) (takeWhile P s), dropWhile P s, []) # ys"
    using run_star_first by blast
  then have "re_run (Plus (Cls P)) (p, c # s, []) =
      (lastc (Some c) (takeWhile P s), dropWhile P s, []) # ys"
    using True by (simp add: Plus_def)
  moreover have "length (dropWhile P s) < length (c # s)"
    by (simp add: le_imp_less_Suc length_dropWhile_le)
  ultimately show ?thesis using True by (simp add: re_sub_from_hit)
next
  case False
  then show ?thesis by (simp add: re_sub_from_miss Plus_def)
qed

lemma remove_space_filter: "remove_space s = filter (\<lambda>c. \<not> is_space c) s"
proof -
  have "re_sub_from (Plus ReS) (\<lambda>_. []) p s = filter (\<lambda>c. \<not> is_space c) s" for p
  proof (induction s arbitrary: p rule: length_induct)
    case (1 s)
    show ?case
    proof (cases s)
      case (Cons c cs)
      have "filter (\<lambda>c. \<not> is_space c) (dropWhile is_space cs) = filter (\<lambda>c. \<not> is_space c) cs"
        by (induction cs) auto
      moreover have "length (dropWhile is_space cs) < length s"
        using Cons by (simp add: le_imp_less_Suc length_dropWhile_le)
      ultimately show ?thesis using 1 Cons by (simp add: re_sub_plus_from)
    qed simp
  qed
  then show ?thesis by (simp add: remove_space_def re_sub_def)
qed

section \<open>Round trip\<close>

text \<open>
  The shape of what a dump can carry: annotations without blanks that the annotation pattern
  consumes whole, a name of one word, members that are single non-empty lines without
  surrounding blanks.
\<close>

definition ann_ok :: "string \<Rightarrow> bool" where
  "ann_ok a \<longleftrightarrow> (\<forall>c \<in> set a. \<not> is_space c) \<and>
     (case re_match ANNOTATION_RE a of None \<Rightarrow> False | Some (m, t, g) \<Rightarrow> t = [])"

definition member_ok :: "string \<Rightarrow> bool" where
  "member_ok m \<longleftrightarrow> m \<noteq> [] \<and> py_strip m = m \<and> (\<forall>c \<in> set m. \<not> is_linebreak c)"

definition type_ok :: "string \<Rightarrow> type_info \<Rightarrow> bool" where
  "type_ok q t \<longleftrightarrow> q \<noteq> [] \<and> (\<forall>c \<in> set q. \<not> is_space c) \<and>
     list_all ann_ok (ty_annotations t) \<and> sorted (ty_annotations t) \<and>
     list_all member_ok (ty_members t)"

definition wf_surface :: "surface \<Rightarrow> bool" where
  "wf_surface types \<longleftrightarrow> wf_dict types \<and> list_all (\<lambda>(q, t). type_ok q t) types"

lemma annotation_shape:
  assumes "re_match ANNOTATION_RE s = Some (m, t, g)"
  obtains c r where "s = CHR ''@'' # c # r" "is_word c" "t = after_args (dropWhile is_word r)"
proof -
  obtain s' where s: "s = CHR ''@'' # s'"
    using assms annotation_no_match [of s] by (cases s) auto
  have "s' \<noteq> [] \<and> is_word (hd s')"
  proof (rule ccontr)
    assume "\<not> (s' \<noteq> [] \<and> is_word (hd s'))"
    then have "re_run ANNOTATION_RE (None, s, []) = []"
      unfolding s ANNOTATION_RE_def by (cases s') (simp_all add: run_plus_not)
    then show False using assms by (simp add: re_match_def re_at_def)
  qed
  then obtain c r where r: "s' = c # r" "is_word c" by (cases s') auto
  from annotation_match [OF r(2), of r] assms s r
  have "t = after_args (dropWhile is_word r)" by auto
  with that s r show thesis by blast
qed

text \<open>An annotation followed by a blank and something that does not open its arguments.\<close>

lemma after_args_append:
  assumes "after_args r = []" "r \<noteq> [] \<or> (\<exists>d x. s = d # x \<and> d \<noteq> CHR ''('' \<and> \<not> is_space d)"
    and "r = [] \<or> (\<exists>r'. r = CHR ''('' # r')"
  shows "after_args (r @ CHR '' '' # s) = CHR '' '' # s"
proof (cases r)
  case Nil
  with assms(2) obtain d x where "s = d # x" "d \<noteq> CHR ''(''" "\<not> is_space d" by auto
  then show ?thesis by (simp add: Nil after_args_def)
next
  case (Cons c r')
  then have c: "c = CHR ''(''" "\<not> is_space c" using assms(3) by (auto simp: is_space_def)
  then have "CHR '')'' \<in> set r'" "tl (dropWhile (\<lambda>x. x \<noteq> CHR '')'') r') = []"
    using assms(1) Cons by (auto simp: after_args_def split: if_splits)
  then show ?thesis using c Cons by (simp add: after_args_def dropWhile_append1)
qed

lemma ann_ok_match:
  assumes "ann_ok a" "d \<noteq> CHR ''(''" "\<not> is_space d"
  shows "\<exists>g. re_match ANNOTATION_RE (a @ CHR '' '' # d # x) = Some (a, CHR '' '' # d # x, g)"
proof -
  obtain m g where "re_match ANNOTATION_RE a = Some (m, [], g)"
    using assms(1) by (auto simp: ann_ok_def split: option.splits)
  then obtain c r where a: "a = CHR ''@'' # c # r" "is_word c" "after_args (dropWhile is_word r) = []"
    by (rule annotation_shape) auto
  let ?r = "dropWhile is_word r"
  let ?s = "d # x"
  have nsp: "\<forall>y \<in> set ?r. \<not> is_space y"
    using assms(1) a(1) set_dropWhileD [of _ is_word r] by (auto simp: ann_ok_def)
  have r: "?r = [] \<or> (\<exists>r'. ?r = CHR ''('' # r')"
  proof (cases ?r)
    case (Cons y ys)
    then have "dropWhile is_space ?r = ?r" using nsp by simp
    with Cons a(3) show ?thesis by (auto simp: after_args_def split: if_splits)
  qed simp
  have e: "dropWhile is_word (r @ CHR '' '' # ?s) = ?r @ CHR '' '' # ?s"
  proof (cases "\<forall>y \<in> set r. is_word y")
    case True
    then show ?thesis
      using is_word_not_space [of "CHR '' ''"] by (auto simp: dropWhile_append2)
  next
    case False
    then obtain y where "y \<in> set r" "\<not> is_word y" by blast
    then show ?thesis by (rule dropWhile_append1)
  qed
  have "after_args (?r @ CHR '' '' # ?s) = CHR '' '' # ?s"
    using after_args_append [OF a(3) _ r, of ?s] assms(2,3) by blast
  then show ?thesis
    using annotation_match [OF a(2), of "r @ CHR '' '' # ?s"] e a(1) by simp
qed

lemma ann_ok_head: "ann_ok a \<Longrightarrow> \<exists>a'. a = CHR ''@'' # a'"
  using annotation_no_match [of a] by (cases a) (auto simp: ann_ok_def split: option.splits)

lemma remove_space_ann: "ann_ok a \<Longrightarrow> remove_space a = a"
  by (simp add: remove_space_filter ann_ok_def filter_id_conv)

text \<open>The annotations of a header line and the words after them are told apart.\<close>

lemma py_join_nonempty: "ws \<noteq> [] \<Longrightarrow> last ws \<noteq> [] \<Longrightarrow> py_join sep ws \<noteq> []"
  by (induction sep ws rule: py_join.induct) auto

lemma join_head_last:
  assumes "list_all ann_ok anns" "s \<noteq> []" "hd s \<noteq> CHR ''(''" "\<not> is_space (hd s)"
  shows "\<exists>d x. py_join '' '' (anns @ [s]) = d # x \<and> d \<noteq> CHR ''('' \<and> \<not> is_space d"
    and "last (py_join '' '' (anns @ [s])) = last s"
proof -
  show "\<exists>d x. py_join '' '' (anns @ [s]) = d # x \<and> d \<noteq> CHR ''('' \<and> \<not> is_space d"
  proof (cases anns)
    case Nil
    with assms(2,3,4) show ?thesis by (cases s) auto
  next
    case (Cons a as)
    then obtain a' where "a = CHR ''@'' # a'" using assms(1) ann_ok_head by auto
    moreover have "\<not> is_space (CHR ''@'')" by (simp add: is_space_def)
    ultimately show ?thesis using Cons by (cases as) auto
  qed
  show "last (py_join '' '' (anns @ [s])) = last s"
  proof (induction anns)
    case (Cons a as)
    have "py_join '' '' ((a # as) @ [s]) = a @ '' '' @ py_join '' '' (as @ [s])"
      by (cases as) auto
    moreover have "py_join '' '' (as @ [s]) \<noteq> []" using assms(2) by (simp add: py_join_nonempty)
    ultimately show ?case using Cons by simp
  qed simp
qed

lemma annotations_loop_join:
  assumes "list_all ann_ok anns" "s \<noteq> []" "hd s \<noteq> CHR ''@''" "hd s \<noteq> CHR ''(''"
    "\<not> is_space (hd s)" "\<not> is_space (last s)"
  shows "annotations_loop acc (py_join '' '' (anns @ [s])) = (acc @ anns, s)"
  using assms(1)
proof (induction anns arbitrary: acc)
  case Nil
  then show ?case
    using assms(2,3) by (subst annotations_loop.simps) (simp add: annotation_no_match)
next
  case (Cons a as)
  let ?rest = "py_join '' '' (as @ [s])"
  have as: "list_all ann_ok as" "ann_ok a" using Cons.prems by auto
  obtain d x where d: "?rest = d # x" "d \<noteq> CHR ''(''" "\<not> is_space d"
    using join_head_last(1) [OF as(1) assms(2,4,5)] by blast
  have "\<not> is_space (last ?rest)"
    using join_head_last(2) [OF as(1) assms(2,4,5)] assms(6) by simp
  then have strip: "py_strip (CHR '' '' # ?rest) = ?rest"
    using py_strip_spaces_left [of "'' ''" ?rest] py_strip_id [of ?rest] d(1,3) by simp
  have "py_join '' '' ((a # as) @ [s]) = a @ CHR '' '' # ?rest" by (cases as) auto
  moreover obtain g where "re_match ANNOTATION_RE (a @ CHR '' '' # ?rest) = Some (a, CHR '' '' # ?rest, g)"
    using ann_ok_match [OF as(2) d(2,3), of x] d(1) by auto
  ultimately have "annotations_loop acc (py_join '' '' ((a # as) @ [s])) =
      annotations_loop (acc @ [a]) ?rest"
    using strip remove_space_ann [OF as(2)] by (subst annotations_loop.simps) simp
  then show ?case using Cons.IH [OF as(1)] by simp
qed

lemma py_join_group:
  "ws \<noteq> [] \<Longrightarrow> py_join sep (xs @ ws) = py_join sep (xs @ [py_join sep ws])"
proof (induction xs)
  case (Cons x xs)
  have "py_join sep (x # xs @ ws) = x @ sep @ py_join sep (xs @ ws)"
    using Cons.prems by (cases "xs @ ws") auto
  moreover have "py_join sep (x # xs @ [py_join sep ws]) = x @ sep @ py_join sep (xs @ [py_join sep ws])"
    by (cases xs) auto
  ultimately show ?case using Cons by simp
qed simp

lemma kind_name_words:
  "kind_name k \<noteq> []" "\<forall>c \<in> set (kind_name k). \<not> is_space c" "kind_of_name (kind_name k) = Some k"
  "kind_name k \<noteq> ''oneway''"
  by (cases k; simp add: is_space_def kind_of_name_def DECL_KINDS_def)+

lemma head_words:
  assumes "q \<noteq> []" "\<forall>c \<in> set q. \<not> is_space c"
  defines "ws \<equiv> \<lambda>t. (if ty_oneway t then [''oneway''] else []) @ [kind_name (ty_kind t), q]"
  shows "py_split (py_join '' '' (ws t)) = ws t"
    and "hd (py_join '' '' (ws t)) \<noteq> CHR ''@''" "hd (py_join '' '' (ws t)) \<noteq> CHR ''(''"
    and "py_join '' '' (ws t) \<noteq> []" "\<not> is_space (hd (py_join '' '' (ws t)))"
    and "\<not> is_space (last (py_join '' '' (ws t)))"
proof -
  have "\<forall>c \<in> set ''oneway''. \<not> is_space c" by (simp add: is_space_def)
  then show "py_split (py_join '' '' (ws t)) = ws t"
    using assms(1,2) kind_name_words(1,2) by (intro py_split_join) (auto simp: ws_def)
  show "hd (py_join '' '' (ws t)) \<noteq> CHR ''@''" "hd (py_join '' '' (ws t)) \<noteq> CHR ''(''"
    "py_join '' '' (ws t) \<noteq> []" "\<not> is_space (hd (py_join '' '' (ws t)))"
    by (cases "ty_kind t"; cases "ty_oneway t"; simp add: ws_def is_space_def)+
  have "last (py_join '' '' (ws t)) = last q" using assms(1) by (simp add: ws_def)
  then show "\<not> is_space (last (py_join '' '' (ws t)))" using assms(1,2) by simp
qed

lemma set_type_head:
  assumes "type_ok q t" "c \<in> set (type_head q t)"
  shows "\<not> is_space c \<or> c = CHR '' ''"
proof -
  let ?ws = "ty_annotations t @ (if ty_oneway t then [''oneway''] else []) @ [kind_name (ty_kind t), q]"
  have "\<forall>w \<in> set ?ws. \<forall>c \<in> set w. \<not> is_space c"
    using assms(1) kind_name_words(2) by (auto simp: type_ok_def list_all_iff ann_ok_def is_space_def)
  moreover have "c \<in> set '' '' \<union> \<Union> (set ` set ?ws)"
    using assms(2) set_py_join [of "'' ''" ?ws] unfolding type_head_def by blast
  ultimately show ?thesis by (auto split: if_splits)
qed

lemma type_head_read:
  assumes "type_ok q t" "q \<notin> set (dict_keys types)"
  shows "parse_dump_line (type_head q t) (types, cur) =
    Inr (types @ [(q, t\<lparr>ty_members := []\<rparr>)], Some q)"
proof -
  let ?ws = "(if ty_oneway t then [''oneway''] else []) @ [kind_name (ty_kind t), q]"
  let ?s = "py_join '' '' ?ws"
  have q: "q \<noteq> []" "\<forall>c \<in> set q. \<not> is_space c" and anns: "list_all ann_ok (ty_annotations t)"
    using assms(1) by (auto simp: type_ok_def)
  note hw = head_words [OF q, of t]
  have head: "type_head q t = py_join '' '' (ty_annotations t @ [?s])"
    unfolding type_head_def by (rule py_join_group) simp
  obtain d x where d: "type_head q t = d # x" "\<not> is_space d"
    using join_head_last(1) [OF anns hw(4,3,5)] head by auto
  have "\<not> is_space (last (type_head q t))"
    using join_head_last(2) [OF anns hw(4,3,5)] hw(6) head by simp
  then have strip: "py_strip (type_head q t) = type_head q t"
    using d by (intro py_strip_id) simp
  then have ta: "take_annotations (type_head q t) = (ty_annotations t, ?s)"
    using annotations_loop_join [OF anns hw(4,2,3,5,6), of "[]"] head by (simp add: take_annotations_def)
  have "\<not> prefix ''    '' (type_head q t)" using d by auto
  moreover have "py_strip (type_head q t) \<noteq> []" using strip d by simp
  moreover have "sort (ty_annotations t) = ty_annotations t"
    using assms(1) by (simp add: type_ok_def sorted_sort_id)
  ultimately show ?thesis
    using ta hw(1) kind_name_words(3,4) [of "ty_kind t"] assms(2)
    by (cases "ty_oneway t") (auto simp: parse_dump_line_def dict_set_fresh Let_def)
qed

lemma members_read:
  assumes "list_all member_ok ms" "q \<notin> set (dict_keys types)"
  shows "rfold parse_dump_line (map (\<lambda>m. ''    '' @ m) ms) (types @ [(q, t)], Some q) =
    Inr (types @ [(q, t\<lparr>ty_members := ty_members t @ ms\<rparr>)], Some q)"
  using assms(1)
proof (induction ms arbitrary: t)
  case (Cons m ms)
  have m: "py_strip (''    '' @ m) = m" "m \<noteq> []"
    using Cons.prems py_strip_spaces_left [of "''    ''" m] by (auto simp: member_ok_def)
  have "map_of (types @ [(q, t)]) q = Some t"
    using assms(2) by (simp add: map_add_def map_of_eq_None_iff [THEN iffD2])
  moreover have "dict_set q t' (types @ [(q, t)]) = types @ [(q, t')]" for t'
    using assms(2) by (induction types) auto
  ultimately have "parse_dump_line (''    '' @ m) (types @ [(q, t)], Some q) =
      Inr (types @ [(q, t\<lparr>ty_members := ty_members t @ [m]\<rparr>)], Some q)"
    using m by (simp add: parse_dump_line_def dict_get_def)
  then show ?case using Cons by simp
qed simp

lemma type_lines_read:
  assumes "type_ok q t" "q \<notin> set (dict_keys types)"
  shows "rfold parse_dump_line (type_lines q t) (types, cur) = Inr (types @ [(q, t)], Some q)"
proof -
  have "list_all member_ok (ty_members t)" using assms(1) by (simp add: type_ok_def)
  then have "rfold parse_dump_line (map (\<lambda>m. ''    '' @ m) (ty_members t))
      (types @ [(q, t\<lparr>ty_members := []\<rparr>)], Some q) = Inr (types @ [(q, t)], Some q)"
    using members_read [of "ty_members t" q types "t\<lparr>ty_members := []\<rparr>"] assms(2) by simp
  moreover have "parse_dump_line [] st = Inr st" for st
    by (cases st) (simp add: parse_dump_line_def)
  ultimately show ?thesis
    using type_head_read [OF assms] by (simp add: type_lines_def rfold_append)
qed

text \<open>The surface with its types by name, as the reader returns it.\<close>

definition canonical :: "surface \<Rightarrow> surface" where
  "canonical types = map (\<lambda>q. (q, the (map_of types q))) (sort (dict_keys types))"

lemma map_of_canonical: "map_of (canonical types) = map_of types"
  using map_of_map_keys [of "sort (dict_keys types)" "map_of types"]
  by (simp add: canonical_def dom_map_of_conv_image_fst)

lemma keys_canonical: "dict_keys (canonical types) = sort (dict_keys types)"
  by (simp add: canonical_def o_def)

lemma entries_read:
  assumes "list_all (\<lambda>(q, t). type_ok q t) es" "distinct (dict_keys (types @ es))"
  shows "\<exists>cur'. rfold parse_dump_line (concat (map (\<lambda>(q, t). type_lines q t) es)) (types, cur) =
    Inr (types @ es, cur')"
  using assms
proof (induction es arbitrary: types cur)
  case (Cons e es)
  obtain q t where e: "e = (q, t)" by fastforce
  have "rfold parse_dump_line (type_lines q t) (types, cur) = Inr (types @ [(q, t)], Some q)"
    using Cons.prems e by (intro type_lines_read) auto
  moreover obtain cur' where "rfold parse_dump_line (concat (map (\<lambda>(q, t). type_lines q t) es))
      (types @ [(q, t)], Some q) = Inr (types @ e # es, cur')"
    using Cons.IH [of "types @ [(q, t)]" "Some q"] Cons.prems e by auto
  ultimately show ?case using e by (auto simp: rfold_append)
qed simp

lemma type_lines_no_break:
  assumes "type_ok q t" "l \<in> set (type_lines q t)" "c \<in> set l"
  shows "\<not> is_linebreak c"
proof -
  have "\<not> is_linebreak (CHR '' '')" by (simp add: is_linebreak_def)
  then show ?thesis
    using assms set_type_head [OF assms(1)] is_linebreak_space
    by (auto simp: type_lines_def type_ok_def list_all_iff member_ok_def)
qed

text \<open>A dump has no carriage return, so that it is read in text mode as it is.\<close>

lemma render_no_cr:
  assumes "wf_surface types"
  shows "chr_cr \<notin> set (render_surface types)"
proof
  assume "chr_cr \<in> set (render_surface types)"
  then have "chr_cr \<in> set [chr_nl] \<union> \<Union> (set ` set (concat (map (\<lambda>q. type_lines q (the (map_of types q))) (sort (dict_keys types)))))"
    unfolding render_surface_def by (rule subsetD [OF set_py_join])
  moreover have "chr_cr \<notin> set [chr_nl]" by simp
  ultimately obtain l where "l \<in> set (concat (map (\<lambda>q. type_lines q (the (map_of types q))) (sort (dict_keys types))))" "chr_cr \<in> set l"
    by blast
  then obtain q where l: "q \<in> set (dict_keys types)" "l \<in> set (type_lines q (the (map_of types q)))" "chr_cr \<in> set l"
    unfolding set_concat set_map image_iff Union_iff set_sort by blast
  then obtain t where t: "map_of types q = Some t" using in_keys_iff [of q types] by blast
  have ok: "type_ok q t" using assms map_of_SomeD [OF t] unfolding wf_surface_def list_all_iff by blast
  have "is_linebreak chr_cr" by (simp add: is_linebreak_def)
  moreover have "l \<in> set (type_lines q t)" using l(2) t by simp
  ultimately show False using type_lines_no_break [OF ok _ l(3)] by blast
qed

text \<open>Reading a dump of a well-formed surface gives the surface back.\<close>

lemma parse_dump_render:
  assumes "wf_surface types"
  shows "parse_dump (render_surface types) = Inr (canonical types)"
proof -
  let ?es = "canonical types"
  let ?lines = "concat (map (\<lambda>(q, t). type_lines q t) ?es)"
  have wf: "distinct (dict_keys types)" "list_all (\<lambda>(q, t). type_ok q t) types"
    using assms by (auto simp: wf_surface_def wf_dict_def)
  have ok: "list_all (\<lambda>(q, t). type_ok q t) ?es"
    using wf by (auto simp: list_all_iff canonical_def dest!: weak_map_of_SomeI)
  have render: "render_surface types = py_join [chr_nl] ?lines"
    by (simp add: render_surface_def canonical_def o_def)
  obtain cur where all: "rfold parse_dump_line ?lines ([], None) = Inr (?es, cur)"
    using entries_read [OF ok, of "[]" None] wf(1) by (auto simp: keys_canonical)
  show ?thesis
  proof (cases "?es = []")
    case True
    then show ?thesis using render by (simp add: parse_dump_def)
  next
    case False
    then obtain es q t where "?es = es @ [(q, t)]" by (metis rev_exhaust surj_pair)
    then obtain ls where ls: "?lines = ls @ [[]]" by (simp add: type_lines_def)
    have "\<forall>l \<in> set ?lines. \<forall>c \<in> set l. \<not> is_linebreak c"
      using ok type_lines_no_break by (fastforce simp: list_all_iff)
    then have "py_splitlines (render_surface types) = ls"
      using ls render by (simp add: py_splitlines_join)
    moreover have "rfold parse_dump_line ls ([], None) = Inr (?es, cur)"
    proof -
      have "rfold parse_dump_line [[]] st = Inr st" for st
        by (cases st) (simp add: parse_dump_line_def)
      then show ?thesis
        using all ls by (cases "rfold parse_dump_line ls ([], None)") (auto simp: rfold_append)
    qed
    ultimately show ?thesis by (simp add: parse_dump_def)
  qed
qed

end
