(* ===== verification/Surface_Diff.thy ===== *)
theory Surface_Diff
  imports Surface_Dump
begin

text \<open>
  The structural diff of \<^verbatim>\<open>host/aidl_surface.py\<close>: \<^verbatim>\<open>_member_name\<close>, \<^verbatim>\<open>_diff_sequence\<close>, \<^verbatim>\<open>_diff_enum\<close>,
  \<^verbatim>\<open>diff_surface\<close>. The source appends dictionaries to a \<^verbatim>\<open>changes\<close> list; each function of the model
  returns the changes it appends, in order. The specification is the relation \<open>compatible\<close>, and
  the classification is proved to decide it.
\<close>

section \<open>Changes\<close>

datatype change_class = Breaking | Major | Unchanged

record entry =
  en_kind :: string
  en_where :: string
  en_symbol :: string
  en_old :: "string option"
  en_new :: "string option"

type_synonym change = "change_class \<times> entry"

definition mk_change ::
  "change_class \<Rightarrow> string \<Rightarrow> string \<Rightarrow> string \<Rightarrow> string option \<Rightarrow> string option \<Rightarrow> change" where
  "mk_change c k w s old new =
     (c, \<lparr>en_kind = k, en_where = w, en_symbol = s, en_old = old, en_new = new\<rparr>)"

lemma fst_mk_change [simp]: "fst (mk_change c k w s old new) = c"
  by (simp add: mk_change_def)

section \<open>Members\<close>

definition METHOD_RE :: re where
  "METHOD_RE = Seq (LStar (Cls (\<lambda>c. c \<noteq> CHR ''('' \<and> c \<noteq> CHR ''='')))
     (Seq (Grp 1 (Plus ReW)) (Seq (Star ReS) (Lit CHR ''('')))"

definition is_const :: "string \<Rightarrow> bool" where
  "is_const member \<longleftrightarrow> py_startswith member ''const ''"

text \<open>\<^verbatim>\<open>member.split('=')[0].split()[-1].strip()\<close>\<close>

definition decl_ident :: "string \<Rightarrow> string res" where
  "decl_ident member =
     (let ws = py_split (hd (py_split_on CHR ''='' member))
      in if ws = [] then Inl IndexError else Inr (py_strip (last ws)))"

text \<open>The identity of a member line: its declared name.\<close>

definition member_name :: "decl_kind \<Rightarrow> string \<Rightarrow> string res" where
  "member_name kind member =
     (if kind = Enum \<or> is_const member then decl_ident member
      else (case re_match METHOD_RE member of
              Some (m, t, g) \<Rightarrow> Inr (group g 1)
            | None \<Rightarrow> decl_ident member))"

section \<open>The diff\<close>

text \<open>
  The loop over the old members that both comparisons start with: a name that is gone is a
  removal, a name whose line differs is a change.
\<close>

definition edits :: "(string \<Rightarrow> string \<Rightarrow> change) \<Rightarrow> (string \<Rightarrow> string \<Rightarrow> string \<Rightarrow> change) \<Rightarrow>
    string dict \<Rightarrow> string dict \<Rightarrow> change list" where
  "edits removed changed om nm = concat (map (\<lambda>(name, member). (case map_of nm name of
       None \<Rightarrow> [removed name member]
     | Some member' \<Rightarrow> if member' \<noteq> member then [changed name member member'] else [])) om)"

definition diff_sequence ::
  "decl_kind \<Rightarrow> string \<Rightarrow> string list \<Rightarrow> string list \<Rightarrow> string \<Rightarrow> change list res" where
  "diff_sequence kind wh old new added_kind =
     rbind (rmap (member_name kind) old) (\<lambda>old_names.
     rbind (rmap (member_name kind) new) (\<lambda>new_names.
       (let new_by_name = dict_of (zip new_names new);
            old_by_name = dict_of (zip old_names old);
            es = edits
              (\<lambda>name member. mk_change Breaking (py_replace ''added'' ''removed'' added_kind) wh name
                 (Some member) None)
              (\<lambda>name member member'. mk_change Breaking (py_replace ''added'' ''changed'' added_kind) wh name
                 (Some member) (Some member'))
              old_by_name new_by_name;
            survivors = filter (\<lambda>n. n \<in> set (dict_keys new_by_name)) old_names
        in if take (length survivors) new_names \<noteq> survivors
           then Inr (es @ [mk_change Breaking (py_replace ''added'' ''reordered'' added_kind) wh
                                (py_join '', '' survivors) None None])
           else Inr (es @ map (\<lambda>name.
                  if kind = Union
                  then mk_change Breaking ''union_arm_added'' wh (the (map_of new_by_name name)) None None
                  else mk_change Major added_kind wh (the (map_of new_by_name name)) None None)
                (filter (\<lambda>name. name \<notin> set (dict_keys old_by_name)) (drop (length survivors) new_names))))))"

definition as_map :: "string list \<Rightarrow> string dict res" where
  "as_map members = rbind (rmap decl_ident members) (\<lambda>names. Inr (dict_of (zip names members)))"

definition diff_enum :: "string \<Rightarrow> string list \<Rightarrow> string list \<Rightarrow> string \<Rightarrow> change list res" where
  "diff_enum wh old new prefix_kind =
     rbind (as_map old) (\<lambda>om.
     rbind (as_map new) (\<lambda>nm.
       Inr (edits
              (\<lambda>name member. mk_change Breaking (prefix_kind @ ''_removed'') wh name (Some member) None)
              (\<lambda>name member member'. mk_change Breaking (prefix_kind @ ''_changed'') wh name
                 (Some member) (Some member'))
              (sort_key fst om) nm
          @ concat (map (\<lambda>(name, member).
               if name \<notin> set (dict_keys om)
               then [mk_change Major (prefix_kind @ ''_added'') wh member None None] else [])
             (sort_key fst nm)))))"

definition kind_text :: "type_info \<Rightarrow> string" where
  "kind_text t = (if ty_oneway t then ''oneway '' else []) @ kind_name (ty_kind t)"

definition where_text :: "type_info \<Rightarrow> string \<Rightarrow> string" where
  "where_text t qname = kind_name (ty_kind t) @ '' '' @ qname"

definition diff_header :: "string \<Rightarrow> type_info \<Rightarrow> type_info \<Rightarrow> change list" where
  "diff_header qname ot nt =
     (let wh = where_text nt qname in
      (if ty_kind ot \<noteq> ty_kind nt \<or> ty_oneway ot \<noteq> ty_oneway nt
       then [mk_change Breaking ''type_changed'' wh qname (Some (kind_text ot)) (Some (kind_text nt))]
       else [])
      @ map (\<lambda>a. mk_change Breaking ''annotation_removed'' wh a None None)
          (sort (remdups (filter (\<lambda>a. a \<notin> set (ty_annotations nt)) (ty_annotations ot))))
      @ map (\<lambda>a. mk_change (if a = ''@VintfStability'' then Major else Breaking) ''annotation_added'' wh a None None)
          (sort (remdups (filter (\<lambda>a. a \<notin> set (ty_annotations ot)) (ty_annotations nt)))))"

definition diff_members :: "string \<Rightarrow> type_info \<Rightarrow> type_info \<Rightarrow> change list res" where
  "diff_members qname ot nt =
     (let wh = where_text nt qname in
      if ty_kind ot = Enum then diff_enum wh (ty_members ot) (ty_members nt) ''enum_value''
      else rbind (diff_enum wh (filter is_const (ty_members ot)) (filter is_const (ty_members nt)) ''const'')
            (\<lambda>cs. rbind (diff_sequence (ty_kind ot) wh
                (filter (\<lambda>m. \<not> is_const m) (ty_members ot)) (filter (\<lambda>m. \<not> is_const m) (ty_members nt))
                (if ty_kind ot = Interface then ''method_added'' else ''field_added''))
              (\<lambda>ds. Inr (cs @ ds))))"

definition diff_type :: "surface \<Rightarrow> surface \<Rightarrow> string \<Rightarrow> change list res" where
  "diff_type old_types new_types qname =
     (case (map_of old_types qname, map_of new_types qname) of
        (Some ot, None) \<Rightarrow> Inr [mk_change Breaking ''type_removed'' (where_text ot qname) qname None None]
      | (None, Some nt) \<Rightarrow> Inr [mk_change Major ''type_added'' (where_text nt qname) qname None None]
      | (Some ot, Some nt) \<Rightarrow> rbind (diff_members qname ot nt) (\<lambda>cs. Inr (diff_header qname ot nt @ cs))
      | (None, None) \<Rightarrow> Inr [])"

definition overall :: "change list \<Rightarrow> change_class" where
  "overall changes =
     (if \<exists>c \<in> set changes. fst c = Breaking then Breaking
      else if \<exists>c \<in> set changes. fst c = Major then Major
      else Unchanged)"

text \<open>The comparison of two parsed dumps, and of two dump texts.\<close>

definition diff_types :: "surface \<Rightarrow> surface \<Rightarrow> (change_class \<times> entry list) res" where
  "diff_types old_types new_types =
     rbind (rmap (diff_type old_types new_types)
             (sort (remdups (dict_keys old_types @ dict_keys new_types))))
       (\<lambda>css. Inr (overall (concat css), map snd (concat css)))"

definition diff_surface :: "string \<Rightarrow> string \<Rightarrow> (change_class \<times> entry list) res" where
  "diff_surface old_text new_text =
     rbind (parse_dump old_text) (\<lambda>old_types.
     rbind (parse_dump new_text) (\<lambda>new_types. diff_types old_types new_types))"

section \<open>The specification\<close>

text \<open>
  A client built against \<open>ot\<close> works against \<open>nt\<close>: same kind, no annotation lost and only the
  stability promise gained, every named constant kept as it was, and the ordered members
  kept at their places (with nothing after them in a union).
\<close>

definition compatible_type :: "type_info \<Rightarrow> type_info \<Rightarrow> bool" where
  "compatible_type ot nt \<longleftrightarrow>
     ty_kind ot = ty_kind nt \<and> ty_oneway ot = ty_oneway nt \<and>
     set (ty_annotations ot) \<subseteq> set (ty_annotations nt) \<and>
     set (ty_annotations nt) \<subseteq> insert ''@VintfStability'' (set (ty_annotations ot)) \<and>
     (if ty_kind ot = Enum then set (ty_members ot) \<subseteq> set (ty_members nt)
      else set (filter is_const (ty_members ot)) \<subseteq> set (filter is_const (ty_members nt)) \<and>
           (let os = filter (\<lambda>m. \<not> is_const m) (ty_members ot);
                ns = filter (\<lambda>m. \<not> is_const m) (ty_members nt)
            in if ty_kind ot = Union then os = ns else prefix os ns))"

definition compatible :: "surface \<Rightarrow> surface \<Rightarrow> bool" where
  "compatible old_types new_types \<longleftrightarrow>
     (\<forall>(q, ot) \<in> set old_types. case map_of new_types q of None \<Rightarrow> False | Some nt \<Rightarrow> compatible_type ot nt)"

lemma compatible_iff:
  "compatible old_types new_types \<longleftrightarrow>
     (\<forall>(q, ot) \<in> set old_types. \<exists>nt. map_of new_types q = Some nt \<and> compatible_type ot nt)"
  by (fastforce simp: compatible_def split: option.splits)

text \<open>Every member declares a name, and no two members of a type declare the same one.\<close>

definition names_distinct :: "(string \<Rightarrow> string res) \<Rightarrow> string list \<Rightarrow> bool" where
  "names_distinct f ms \<longleftrightarrow> (case rmap f ms of Inl e \<Rightarrow> False | Inr ns \<Rightarrow> distinct ns)"

definition well_named :: "type_info \<Rightarrow> bool" where
  "well_named t \<longleftrightarrow>
     (\<forall>m \<in> set (ty_members t). decl_ident m \<noteq> Inl IndexError) \<and>
     (if ty_kind t = Enum then names_distinct decl_ident (ty_members t)
      else names_distinct decl_ident (filter is_const (ty_members t)) \<and>
           names_distinct (member_name (ty_kind t)) (filter (\<lambda>m. \<not> is_const m) (ty_members t)))"

definition well_named_surface :: "surface \<Rightarrow> bool" where
  "well_named_surface types \<longleftrightarrow> wf_dict types \<and> list_all (\<lambda>(q, t). well_named t) types"

section \<open>Named members\<close>

text \<open>
  The facts both member comparisons share: with distinct names, looking a member up by its
  name in the other list finds the member itself exactly when it is there.
\<close>

definition named :: "(string \<Rightarrow> string res) \<Rightarrow> string list \<Rightarrow> string list \<Rightarrow> bool" where
  "named f ms ns \<longleftrightarrow> rmap f ms = Inr ns \<and> distinct ns"

lemma names_distinct_named: "names_distinct f ms \<longleftrightarrow> (\<exists>ns. named f ms ns)"
  by (auto simp: names_distinct_def named_def split: sum.splits)

lemma named_facts:
  assumes "named f ms ns"
  shows "rmap f ms = Inr ns" "distinct ns" "length ns = length ms"
    "i < length ms \<Longrightarrow> f (ms ! i) = Inr (ns ! i)" "dict_of (zip ns ms) = zip ns ms"
proof -
  show r: "rmap f ms = Inr ns" and d: "distinct ns" using assms by (simp_all add: named_def)
  show l: "length ns = length ms" and "i < length ms \<Longrightarrow> f (ms ! i) = Inr (ns ! i)"
    using rmap_InrD [OF r] by simp_all
  show "dict_of (zip ns ms) = zip ns ms" using d l by (simp add: wf_dict_def)
qed

lemma named_lookup:
  assumes "named f old on" "named f new nn" "i < length old"
  shows "map_of (zip nn new) (on ! i) = Some (old ! i) \<longleftrightarrow> old ! i \<in> set new"
proof
  assume "map_of (zip nn new) (on ! i) = Some (old ! i)"
  then show "old ! i \<in> set new" by (metis map_of_SomeD set_zip_rightD)
next
  assume "old ! i \<in> set new"
  then obtain j where j: "j < length new" "new ! j = old ! i" by (auto simp: in_set_conv_nth)
  then have "nn ! j = on ! i"
    using named_facts(4) [OF assms(1,3)] named_facts(4) [OF assms(2) j(1)] by simp
  then show "map_of (zip nn new) (on ! i) = Some (old ! i)"
    using j named_facts(2,3) [OF assms(2)] by (metis map_of_zip_nth)
qed

text \<open>Nothing was removed or changed exactly when every old member is still there.\<close>

lemma named_all_kept:
  assumes "named f old on" "named f new nn"
  shows "(\<forall>(name, member) \<in> set (zip on old). map_of (zip nn new) name = Some member) \<longleftrightarrow>
    set old \<subseteq> set new"
proof -
  have "(\<forall>(name, member) \<in> set (zip on old). map_of (zip nn new) name = Some member) \<longleftrightarrow>
      (\<forall>i < length old. map_of (zip nn new) (on ! i) = Some (old ! i))"
    using named_facts(3) [OF assms(1)] by (auto simp: set_zip)
  also have "\<dots> \<longleftrightarrow> (\<forall>i < length old. old ! i \<in> set new)" using named_lookup [OF assms] by auto
  also have "\<dots> \<longleftrightarrow> set old \<subseteq> set new" by (metis in_set_conv_nth subset_code(1))
  finally show ?thesis .
qed

lemma named_names_kept:
  assumes "named f old on" "named f new nn"
  shows "set old \<subseteq> set new \<Longrightarrow> set on \<subseteq> set nn"
proof
  fix x assume sub: "set old \<subseteq> set new" and "x \<in> set on"
  then obtain i where i: "i < length old" "x = on ! i"
    using named_facts(3) [OF assms(1)] by (auto simp: in_set_conv_nth)
  then have "old ! i \<in> set new" using sub by auto
  then show "x \<in> set nn"
    using named_lookup [OF assms i(1)] i(2) by (metis map_of_SomeD set_zip_leftD)
qed

lemma named_names_iff:
  assumes "named f old on" "named f new nn" "set old \<subseteq> set new"
  shows "set nn \<subseteq> set on \<longleftrightarrow> set new \<subseteq> set old"
proof
  assume sub: "set nn \<subseteq> set on"
  show "set new \<subseteq> set old"
  proof
    fix m assume "m \<in> set new"
    then obtain j where j: "j < length new" "m = new ! j" by (auto simp: in_set_conv_nth)
    then have "nn ! j \<in> set on" using sub named_facts(3) [OF assms(2)] by (metis nth_mem subsetD)
    then obtain i where i: "i < length old" "on ! i = nn ! j"
      using named_facts(3) [OF assms(1)] by (auto simp: in_set_conv_nth)
    then have "map_of (zip nn new) (nn ! j) = Some (old ! i)"
      using named_lookup [OF assms(1,2) i(1)] assms(3) by (metis nth_mem subsetD)
    moreover have "map_of (zip nn new) (nn ! j) = Some (new ! j)"
      using j named_facts(2,3) [OF assms(2)] by (metis map_of_zip_nth)
    ultimately show "m \<in> set old" using i(1) j(2) by simp
  qed
qed (rule named_names_kept [OF assms(2,1)])

text \<open>With every member kept, the names are a prefix exactly when the members are.\<close>

lemma named_prefix:
  assumes "named f old on" "named f new nn" "set old \<subseteq> set new"
  shows "take (length on) nn = on \<longleftrightarrow> prefix old new"
proof
  note len = named_facts(3) [OF assms(1)] named_facts(3) [OF assms(2)]
  assume t: "take (length on) nn = on"
  then have le: "length old \<le> length new" using len by (metis min.absorb_iff2 length_take)
  have "new ! i = old ! i" if i: "i < length old" for i
  proof -
    have "nn ! i = on ! i" using t i len by (metis nth_take)
    moreover have "map_of (zip nn new) (on ! i) = Some (old ! i)"
      using named_lookup [OF assms(1,2) i] assms(3) i by auto
    moreover have "map_of (zip nn new) (nn ! i) = Some (new ! i)"
      using i le len named_facts(2) [OF assms(2)] by (metis map_of_zip_nth order_less_le_trans)
    ultimately show ?thesis by simp
  qed
  then have "take (length old) new = old" using le by (simp add: list_eq_iff_nth_eq)
  then show "prefix old new" by (metis take_is_prefix)
next
  assume "prefix old new"
  then obtain r where "new = old @ r" by (auto simp: prefix_def)
  then have "prefix on nn"
    using named_facts(1) [OF assms(1)] named_facts(1) [OF assms(2)]
    by (auto simp: rmap_append rbind_eq_Inr)
  then show "take (length on) nn = on" by (simp add: take_length_prefix_iff)
qed

text \<open>A rejected comparison has a breaking change; an accepted one lists only additions.\<close>

definition breaks :: "change list \<Rightarrow> bool" where
  "breaks cs \<longleftrightarrow> (\<exists>c \<in> set cs. fst c = Breaking)"

lemma breaks_append [simp]: "breaks (xs @ ys) \<longleftrightarrow> breaks xs \<or> breaks ys"
  by (auto simp: breaks_def)

lemma breaks_simps [simp]: "breaks [] = False" "breaks (c # cs) \<longleftrightarrow> fst c = Breaking \<or> breaks cs"
  by (auto simp: breaks_def)

lemma edits_Nil_iff:
  "edits removed changed om nm = [] \<longleftrightarrow> (\<forall>(name, member) \<in> set om. map_of nm name = Some member)"
  by (fastforce simp: edits_def split: option.splits if_splits)

lemma edits_class:
  assumes "\<And>n m. fst (removed n m) = Breaking" "\<And>n m m'. fst (changed n m m') = Breaking"
    and "c \<in> set (edits removed changed om nm)"
  shows "fst c = Breaking"
proof -
  obtain n m where "c = removed n m \<or> (\<exists>m'. c = changed n m m')"
    using assms(3) unfolding edits_def by (auto split: option.splits if_splits)
  then show ?thesis using assms(1,2) by auto
qed

lemma edits_breaks:
  assumes "\<And>n m. fst (removed n m) = Breaking" "\<And>n m m'. fst (changed n m m') = Breaking"
  shows "breaks (edits removed changed om nm) \<longleftrightarrow> edits removed changed om nm \<noteq> []"
  using edits_class [of removed changed _ om nm, OF assms]
  by (cases "edits removed changed om nm") (force simp: breaks_def)+

section \<open>The comparisons decide compatibility\<close>

text \<open>
  The three parts of the result: removed and changed members, the surviving names, and what is
  reported for the new names behind them.
\<close>

definition seq_edits :: "string \<Rightarrow> string \<Rightarrow> string list \<Rightarrow> string list \<Rightarrow> string list \<Rightarrow> string list \<Rightarrow> change list" where
  "seq_edits wh added on old nn new = edits
     (\<lambda>n m. mk_change Breaking (py_replace ''added'' ''removed'' added) wh n (Some m) None)
     (\<lambda>n m m'. mk_change Breaking (py_replace ''added'' ''changed'' added) wh n (Some m) (Some m'))
     (zip on old) (zip nn new)"

definition seq_adds :: "decl_kind \<Rightarrow> string \<Rightarrow> string \<Rightarrow> string dict \<Rightarrow> string list \<Rightarrow> change list" where
  "seq_adds kind wh added ms names = map (\<lambda>name.
     if kind = Union then mk_change Breaking ''union_arm_added'' wh (the (map_of ms name)) None None
     else mk_change Major added wh (the (map_of ms name)) None None) names"

lemma seq_adds_breaks: "breaks (seq_adds kind wh added ms names) \<longleftrightarrow> kind = Union \<and> names \<noteq> []"
  unfolding seq_adds_def by (induction names) auto

lemma seq_edits_result:
  assumes "named (member_name kind) old on" "named (member_name kind) new nn"
  shows "seq_edits wh added on old nn new = [] \<longleftrightarrow> set old \<subseteq> set new"
    and "breaks (seq_edits wh added on old nn new) \<longleftrightarrow> seq_edits wh added on old nn new \<noteq> []"
  unfolding seq_edits_def by (simp_all add: edits_Nil_iff named_all_kept [OF assms] edits_breaks)

lemma diff_sequence_eq:
  assumes "named (member_name kind) old on" "named (member_name kind) new nn" "surv = filter (\<lambda>n. n \<in> set nn) on"
  shows "diff_sequence kind wh old new added = Inr (seq_edits wh added on old nn new @
    (if take (length surv) nn \<noteq> surv
     then [mk_change Breaking (py_replace ''added'' ''reordered'' added) wh (py_join '', '' surv) None None]
     else seq_adds kind wh added (zip nn new) (filter (\<lambda>name. name \<notin> set on) (drop (length surv) nn))))"
proof -
  note fo = named_facts [OF assms(1)] and fn = named_facts [OF assms(2)]
  have keys: "dict_keys (zip nn new) = nn" "dict_keys (zip on old) = on" using fo(3) fn(3) by simp_all
  show ?thesis
    unfolding diff_sequence_def fo(1) fn(1) rbind_simps fo(5) fn(5) keys Let_def assms(3) seq_edits_def seq_adds_def
    by simp
qed

text \<open>Behind a prefix, every name is new.\<close>

lemma names_behind_prefix:
  assumes "distinct nn" "take (length on) nn = on"
  shows "filter (\<lambda>name. name \<notin> set on) (drop (length on) nn) = drop (length on) nn"
  using assms by (metis (no_types, lifting) append_take_drop_id distinct_append disjoint_iff filter_True)

lemma diff_sequence_spec:
  assumes "named (member_name kind) old on" "named (member_name kind) new nn"
  obtains cs where "diff_sequence kind wh old new added = Inr cs"
    "breaks cs \<longleftrightarrow> \<not> (if kind = Union then old = new else prefix old new)"
    "cs = [] \<longleftrightarrow> old = new"
proof -
  note eq = diff_sequence_eq [OF assms refl, of wh added] and es = seq_edits_result [OF assms, of wh added]
  note names = named_facts(3) [OF assms(1)] named_facts(2,3) [OF assms(2)]
  consider (lost) "\<not> set old \<subseteq> set new" | (moved) "set old \<subseteq> set new" "\<not> prefix old new" | (pre) "prefix old new"
    by blast
  then show thesis
  proof cases
    case lost
    then have "\<not> prefix old new" "old \<noteq> new" by (auto dest: set_mono_prefix)
    then show thesis using lost es by (intro that [OF eq]) auto
  next
    case moved
    then have "filter (\<lambda>n. n \<in> set nn) on = on" "take (length on) nn \<noteq> on" "old \<noteq> new"
      using named_names_kept [OF assms] named_prefix [OF assms] by (auto simp: filter_id_conv)
    then show thesis using moved by (intro that [OF eq]) auto
  next
    case pre
    then have sub: "set old \<subseteq> set new" by (rule set_mono_prefix)
    then have surv: "filter (\<lambda>n. n \<in> set nn) on = on" "take (length on) nn = on"
      using pre named_names_kept [OF assms] named_prefix [OF assms] by (auto simp: filter_id_conv)
    have "drop (length on) nn = [] \<longleftrightarrow> old = new"
      using pre names by (auto simp: prefix_def)
    moreover have "diff_sequence kind wh old new added = Inr (seq_adds kind wh added (zip nn new) (drop (length on) nn))"
      using eq es(1) sub surv names_behind_prefix [OF names(2) surv(2)] by simp
    ultimately show thesis
      using pre by (intro that) (auto simp: seq_adds_breaks, auto simp: seq_adds_def)
  qed
qed

lemma diff_enum_spec:
  assumes "named decl_ident old on" "named decl_ident new nn"
  obtains cs where "diff_enum wh old new pre = Inr cs"
    "breaks cs \<longleftrightarrow> \<not> set old \<subseteq> set new" "cs = [] \<longleftrightarrow> set old = set new"
proof -
  define es where "es = edits
      (\<lambda>n m. mk_change Breaking (pre @ ''_removed'') wh n (Some m) None)
      (\<lambda>n m m'. mk_change Breaking (pre @ ''_changed'') wh n (Some m) (Some m'))
      (sort_key fst (zip on old)) (zip nn new)"
  define adds where "adds = concat (map (\<lambda>(name, member).
      if name \<notin> set on then [mk_change Major (pre @ ''_added'') wh member None None] else [])
      (sort_key fst (zip nn new)))"
  note fo = named_facts [OF assms(1)] and fn = named_facts [OF assms(2)]
  have keys: "dict_keys (zip on old) = on" using fo(3) by simp
  have 1: "diff_enum wh old new pre = Inr (es @ adds)"
    unfolding diff_enum_def as_map_def fo(1) fn(1) rbind_simps fo(5) fn(5) keys es_def adds_def
    by simp
  have es_nil: "es = [] \<longleftrightarrow> set old \<subseteq> set new" and es_br: "breaks es \<longleftrightarrow> es \<noteq> []"
    unfolding es_def by (simp_all add: edits_Nil_iff named_all_kept [OF assms] edits_breaks)
  have adds_nil: "adds = [] \<longleftrightarrow> set nn \<subseteq> set on"
  proof -
    have "adds = [] \<longleftrightarrow> (\<forall>n \<in> set (dict_keys (zip nn new)). n \<in> set on)"
      unfolding adds_def by (fastforce split: if_splits)
    then show ?thesis using fn(3) by (simp add: subset_code(1))
  qed
  have "\<not> breaks adds" unfolding adds_def breaks_def by (auto simp: mk_change_def split: if_splits)
  then have 2: "breaks (es @ adds) \<longleftrightarrow> \<not> set old \<subseteq> set new" using es_nil es_br by simp
  have 3: "es @ adds = [] \<longleftrightarrow> set old = set new"
    using es_nil adds_nil named_names_iff [OF assms] by auto
  show thesis using that [OF 1 2 3] .
qed

text \<open>The header of a type.\<close>

lemma diff_header_spec:
  "breaks (diff_header q ot nt) \<longleftrightarrow> \<not> (ty_kind ot = ty_kind nt \<and> ty_oneway ot = ty_oneway nt \<and>
     set (ty_annotations ot) \<subseteq> set (ty_annotations nt) \<and>
     set (ty_annotations nt) \<subseteq> insert ''@VintfStability'' (set (ty_annotations ot)))"
  "diff_header q ot nt = [] \<longleftrightarrow> ty_kind ot = ty_kind nt \<and> ty_oneway ot = ty_oneway nt \<and>
     set (ty_annotations ot) = set (ty_annotations nt)"
proof -
  let ?r = "sort (remdups (filter (\<lambda>a. a \<notin> set (ty_annotations nt)) (ty_annotations ot)))"
  let ?a = "sort (remdups (filter (\<lambda>a. a \<notin> set (ty_annotations ot)) (ty_annotations nt)))"
  have r: "set ?r = set (ty_annotations ot) - set (ty_annotations nt)"
    and a: "set ?a = set (ty_annotations nt) - set (ty_annotations ot)" by auto
  have r0: "?r = [] \<longleftrightarrow> set (ty_annotations ot) \<subseteq> set (ty_annotations nt)"
    and a0: "?a = [] \<longleftrightarrow> set (ty_annotations nt) \<subseteq> set (ty_annotations ot)"
    using r a by (metis Diff_eq_empty_iff set_empty)+
  have br: "breaks (map (\<lambda>x. mk_change (g x) k w x None None) xs) \<longleftrightarrow> (\<exists>x \<in> set xs. g x = Breaking)"
    for g k w xs by (auto simp: breaks_def)
  show "breaks (diff_header q ot nt) \<longleftrightarrow> \<not> (ty_kind ot = ty_kind nt \<and> ty_oneway ot = ty_oneway nt \<and>
     set (ty_annotations ot) \<subseteq> set (ty_annotations nt) \<and>
     set (ty_annotations nt) \<subseteq> insert ''@VintfStability'' (set (ty_annotations ot)))"
    unfolding diff_header_def Let_def breaks_append br r a by (auto split: if_splits)
  show "diff_header q ot nt = [] \<longleftrightarrow> ty_kind ot = ty_kind nt \<and> ty_oneway ot = ty_oneway nt \<and>
     set (ty_annotations ot) = set (ty_annotations nt)"
    unfolding diff_header_def Let_def append_is_Nil_conv map_is_Nil_conv r0 a0 by auto
qed

text \<open>Members: no exception for named members, whatever the two kinds.\<close>

lemma rmap_total: "(\<And>m. m \<in> set ms \<Longrightarrow> f m \<noteq> Inl IndexError) \<Longrightarrow> (\<And>m e. f m = Inl e \<Longrightarrow> e = IndexError) \<Longrightarrow>
    \<exists>ns. rmap f ms = Inr ns"
  by (rule rmap_Inr_ex) (metis sum.exhaust)

lemma decl_ident_error: "decl_ident m = Inl e \<Longrightarrow> e = IndexError"
  by (auto simp: decl_ident_def Let_def split: if_splits)

lemma member_name_error: "member_name k m = Inl e \<Longrightarrow> decl_ident m = Inl IndexError \<and> e = IndexError"
  using decl_ident_error by (auto simp: member_name_def split: if_splits option.splits)

lemma diff_members_total:
  assumes "\<forall>m \<in> set (ty_members ot). decl_ident m \<noteq> Inl IndexError"
    and "\<forall>m \<in> set (ty_members nt). decl_ident m \<noteq> Inl IndexError"
  shows "\<exists>cs. diff_members q ot nt = Inr cs"
proof -
  have d: "\<exists>ns. rmap decl_ident ms = Inr ns" if "\<forall>m \<in> set ms. decl_ident m \<noteq> Inl IndexError" for ms
    using that decl_ident_error by (intro rmap_total) auto
  have e: "\<exists>cs. diff_enum w xs ys p = Inr cs"
    if "\<forall>m \<in> set xs. decl_ident m \<noteq> Inl IndexError" "\<forall>m \<in> set ys. decl_ident m \<noteq> Inl IndexError" for w xs ys p
    using d [OF that(1)] d [OF that(2)] by (auto simp: diff_enum_def as_map_def)
  have n: "\<exists>ns. rmap (member_name k) ms = Inr ns" if "\<forall>m \<in> set ms. decl_ident m \<noteq> Inl IndexError" for k ms
    using that member_name_error by (intro rmap_total) blast+
  have s: "\<exists>cs. diff_sequence k w xs ys a = Inr cs"
    if "\<forall>m \<in> set xs. decl_ident m \<noteq> Inl IndexError" "\<forall>m \<in> set ys. decl_ident m \<noteq> Inl IndexError" for k w xs ys a
    using n [OF that(1), of k] n [OF that(2), of k] by (auto simp: diff_sequence_def Let_def)
  show ?thesis
  proof (cases "ty_kind ot = Enum")
    case True
    then show ?thesis using e [OF assms] by (simp add: diff_members_def Let_def)
  next
    case False
    obtain cs where "diff_enum (where_text nt q) (filter is_const (ty_members ot))
        (filter is_const (ty_members nt)) ''const'' = Inr cs"
      using e [of "filter is_const (ty_members ot)" "filter is_const (ty_members nt)"
          "where_text nt q" "''const''"] assms by auto
    moreover obtain ds where "diff_sequence (ty_kind ot) (where_text nt q)
        (filter (\<lambda>m. \<not> is_const m) (ty_members ot)) (filter (\<lambda>m. \<not> is_const m) (ty_members nt))
        (if ty_kind ot = Interface then ''method_added'' else ''field_added'') = Inr ds"
      using s [of "filter (\<lambda>m. \<not> is_const m) (ty_members ot)"
          "filter (\<lambda>m. \<not> is_const m) (ty_members nt)" "ty_kind ot" "where_text nt q"
          "if ty_kind ot = Interface then ''method_added'' else ''field_added''"] assms by auto
    ultimately show ?thesis using False by (simp add: diff_members_def Let_def)
  qed
qed

lemma diff_members_spec:
  assumes "well_named ot" "well_named nt" "ty_kind ot = ty_kind nt"
  obtains cs where "diff_members q ot nt = Inr cs"
    "breaks cs \<longleftrightarrow> \<not> (if ty_kind ot = Enum then set (ty_members ot) \<subseteq> set (ty_members nt)
      else set (filter is_const (ty_members ot)) \<subseteq> set (filter is_const (ty_members nt)) \<and>
           (let os = filter (\<lambda>m. \<not> is_const m) (ty_members ot);
                ns = filter (\<lambda>m. \<not> is_const m) (ty_members nt)
            in if ty_kind ot = Union then os = ns else prefix os ns))"
    "cs = [] \<longleftrightarrow> (if ty_kind ot = Enum then set (ty_members ot) = set (ty_members nt)
      else set (filter is_const (ty_members ot)) = set (filter is_const (ty_members nt)) \<and>
           filter (\<lambda>m. \<not> is_const m) (ty_members ot) = filter (\<lambda>m. \<not> is_const m) (ty_members nt))"
proof (cases "ty_kind ot = Enum")
  case True
  then obtain on nn where "named decl_ident (ty_members ot) on" "named decl_ident (ty_members nt) nn"
    using assms by (auto simp: well_named_def names_distinct_named)
  then show thesis
    by (rule diff_enum_spec [where wh = "where_text nt q" and pre = "''enum_value''"])
       (rule that, auto simp: diff_members_def True Let_def)
next
  case False
  then obtain on nn on' nn' where n:
    "named decl_ident (filter is_const (ty_members ot)) on"
    "named decl_ident (filter is_const (ty_members nt)) nn"
    "named (member_name (ty_kind ot)) (filter (\<lambda>m. \<not> is_const m) (ty_members ot)) on'"
    "named (member_name (ty_kind ot)) (filter (\<lambda>m. \<not> is_const m) (ty_members nt)) nn'"
    using assms by (auto simp: well_named_def names_distinct_named)
  obtain cs where cs: "diff_enum (where_text nt q) (filter is_const (ty_members ot))
      (filter is_const (ty_members nt)) ''const'' = Inr cs"
    "breaks cs \<longleftrightarrow> \<not> set (filter is_const (ty_members ot)) \<subseteq> set (filter is_const (ty_members nt))"
    "cs = [] \<longleftrightarrow> set (filter is_const (ty_members ot)) = set (filter is_const (ty_members nt))"
    by (rule diff_enum_spec [OF n(1,2)])
  obtain ds where ds: "diff_sequence (ty_kind ot) (where_text nt q)
      (filter (\<lambda>m. \<not> is_const m) (ty_members ot)) (filter (\<lambda>m. \<not> is_const m) (ty_members nt))
      (if ty_kind ot = Interface then ''method_added'' else ''field_added'') = Inr ds"
    "breaks ds \<longleftrightarrow> \<not> (if ty_kind ot = Union
        then filter (\<lambda>m. \<not> is_const m) (ty_members ot) = filter (\<lambda>m. \<not> is_const m) (ty_members nt)
        else prefix (filter (\<lambda>m. \<not> is_const m) (ty_members ot)) (filter (\<lambda>m. \<not> is_const m) (ty_members nt)))"
    "ds = [] \<longleftrightarrow> filter (\<lambda>m. \<not> is_const m) (ty_members ot) = filter (\<lambda>m. \<not> is_const m) (ty_members nt)"
    by (rule diff_sequence_spec [OF n(3,4)])
  have "diff_members q ot nt = Inr (cs @ ds)"
    using cs(1) ds(1) False by (simp add: diff_members_def Let_def)
  then show thesis
    by (rule that) (simp_all only: breaks_append append_is_Nil_conv cs ds False if_False Let_def de_Morgan_conj)
qed

text \<open>One type of either surface.\<close>

lemma compatible_type_mutual:
  "compatible_type ot nt \<and> compatible_type nt ot \<longleftrightarrow>
     ty_kind ot = ty_kind nt \<and> ty_oneway ot = ty_oneway nt \<and>
     set (ty_annotations ot) = set (ty_annotations nt) \<and>
     (if ty_kind ot = Enum then set (ty_members ot) = set (ty_members nt)
      else set (filter is_const (ty_members ot)) = set (filter is_const (ty_members nt)) \<and>
           filter (\<lambda>m. \<not> is_const m) (ty_members ot) = filter (\<lambda>m. \<not> is_const m) (ty_members nt))"
  unfolding compatible_type_def Let_def by (auto intro: prefix_order.antisym)

lemma diff_both_spec:
  assumes "well_named ot" "well_named nt"
  obtains cs where "diff_members q ot nt = Inr cs"
    "breaks (diff_header q ot nt @ cs) \<longleftrightarrow> \<not> compatible_type ot nt"
    "diff_header q ot nt @ cs = [] \<longleftrightarrow> compatible_type ot nt \<and> compatible_type nt ot"
proof (cases "ty_kind ot = ty_kind nt")
  case True
  show thesis
    by (rule diff_members_spec [OF assms True, where q = q], rule that, assumption)
       (simp_all only: breaks_append append_is_Nil_conv diff_header_spec compatible_type_mutual, 
        auto simp: compatible_type_def)
next
  case False
  obtain cs where "diff_members q ot nt = Inr cs"
    using diff_members_total [of ot nt q] assms by (auto simp: well_named_def)
  moreover have "\<not> compatible_type ot nt" using False by (simp add: compatible_type_def)
  moreover have "breaks (diff_header q ot nt)" using False by (simp add: diff_header_spec)
  moreover from this have "diff_header q ot nt \<noteq> []" by auto
  ultimately show thesis using that by auto
qed

lemma diff_type_spec:
  assumes "well_named_surface old" "well_named_surface new" "q \<in> set (dict_keys old) \<union> set (dict_keys new)"
  obtains cs where "diff_type old new q = Inr cs"
    "breaks cs \<longleftrightarrow> (\<exists>ot. map_of old q = Some ot \<and>
       \<not> (\<exists>nt. map_of new q = Some nt \<and> compatible_type ot nt))"
    "cs = [] \<longleftrightarrow> (\<exists>ot nt. map_of old q = Some ot \<and> map_of new q = Some nt \<and>
       compatible_type ot nt \<and> compatible_type nt ot)"
proof (cases "map_of old q")
  case None
  then obtain nt where "map_of new q = Some nt"
    using assms(3) by (auto simp: map_of_eq_None_iff dest: weak_map_of_SomeI)
  then show thesis using that None by (simp add: diff_type_def)
next
  case (Some ot)
  show thesis
  proof (cases "map_of new q")
    case None
    then show thesis using that Some by (simp add: diff_type_def)
  next
    case new: (Some nt)
    have "well_named ot" "well_named nt"
      using assms(1,2) map_of_SomeD [OF Some] map_of_SomeD [OF new]
      by (auto simp: well_named_surface_def list_all_iff)
    then show thesis
      by (rule diff_both_spec [where q = q]) (rule that, auto simp: diff_type_def Some new)
  qed
qed

lemma diff_sequence_class: "diff_sequence k w xs ys a = Inr cs \<Longrightarrow> c \<in> set cs \<Longrightarrow> fst c \<noteq> Unchanged"
  by (auto simp: diff_sequence_def res_simps Let_def split: if_splits dest!: edits_class [rotated 2])

lemma diff_enum_class: "diff_enum w xs ys p = Inr cs \<Longrightarrow> c \<in> set cs \<Longrightarrow> fst c \<noteq> Unchanged"
  by (auto simp: diff_enum_def res_simps split: if_splits dest!: edits_class [rotated 2])

lemma diff_header_class: "c \<in> set (diff_header q ot nt) \<Longrightarrow> fst c \<noteq> Unchanged"
  by (auto simp: diff_header_def Let_def split: if_splits)

lemma diff_members_class: "diff_members q ot nt = Inr cs \<Longrightarrow> c \<in> set cs \<Longrightarrow> fst c \<noteq> Unchanged"
  by (auto simp: diff_members_def res_simps Let_def split: if_splits
      dest: diff_enum_class diff_sequence_class)

lemma diff_type_class: "diff_type old new q = Inr cs \<Longrightarrow> c \<in> set cs \<Longrightarrow> fst c \<noteq> Unchanged"
  by (auto simp: diff_type_def res_simps split: option.splits
      dest: diff_members_class diff_header_class)

lemma overall_cases:
  assumes "\<forall>c \<in> set cs. fst c \<noteq> Unchanged"
  shows "overall cs = (if breaks cs then Breaking else if cs = [] then Unchanged else Major)"
proof (cases "breaks cs")
  case False
  then have "\<forall>c \<in> set cs. fst c = Major"
    using assms by (metis breaks_def change_class.exhaust)
  then show ?thesis using False by (cases cs) (auto simp: overall_def breaks_def)
qed (simp add: overall_def breaks_def)

lemma compatible_lookup:
  assumes "wf_dict old"
  shows "compatible old new \<longleftrightarrow>
    (\<forall>q ot. map_of old q = Some ot \<longrightarrow> (\<exists>nt. map_of new q = Some nt \<and> compatible_type ot nt))"
  unfolding compatible_iff using in_dict_iff_map_of [OF assms] by fastforce

text \<open>The classification of two well-named surfaces is exactly their compatibility.\<close>

text \<open>The changes of all types together, and what each type contributes.\<close>

definition all_keys :: "surface \<Rightarrow> surface \<Rightarrow> string list" where
  "all_keys old new = sort (remdups (dict_keys old @ dict_keys new))"

lemma all_keys_mem: "q \<in> set (all_keys old new) \<longleftrightarrow> map_of old q \<noteq> None \<or> map_of new q \<noteq> None"
  by (auto simp: all_keys_def map_of_eq_None_iff)

definition all_changes :: "surface \<Rightarrow> surface \<Rightarrow> change list" where
  "all_changes old new = concat (map (\<lambda>q. projr (diff_type old new q)) (all_keys old new))"

lemma type_changes:
  assumes "well_named_surface old" "well_named_surface new" "q \<in> set (all_keys old new)"
  shows "diff_type old new q = Inr (projr (diff_type old new q))"
    "breaks (projr (diff_type old new q)) \<longleftrightarrow> (\<exists>ot. map_of old q = Some ot \<and>
       \<not> (\<exists>nt. map_of new q = Some nt \<and> compatible_type ot nt))"
    "projr (diff_type old new q) = [] \<longleftrightarrow> (\<exists>ot nt. map_of old q = Some ot \<and> map_of new q = Some nt \<and>
       compatible_type ot nt \<and> compatible_type nt ot)"
proof -
  have "q \<in> set (dict_keys old) \<union> set (dict_keys new)" using assms(3) by (simp add: all_keys_def)
  then obtain cs where cs: "diff_type old new q = Inr cs"
    "breaks cs \<longleftrightarrow> (\<exists>ot. map_of old q = Some ot \<and> \<not> (\<exists>nt. map_of new q = Some nt \<and> compatible_type ot nt))"
    "cs = [] \<longleftrightarrow> (\<exists>ot nt. map_of old q = Some ot \<and> map_of new q = Some nt \<and>
       compatible_type ot nt \<and> compatible_type nt ot)"
    by (rule diff_type_spec [OF assms(1,2)])
  show "diff_type old new q = Inr (projr (diff_type old new q))" using cs(1) by simp
  show "breaks (projr (diff_type old new q)) \<longleftrightarrow> (\<exists>ot. map_of old q = Some ot \<and>
       \<not> (\<exists>nt. map_of new q = Some nt \<and> compatible_type ot nt))" using cs(1,2) by simp
  show "projr (diff_type old new q) = [] \<longleftrightarrow> (\<exists>ot nt. map_of old q = Some ot \<and> map_of new q = Some nt \<and>
       compatible_type ot nt \<and> compatible_type nt ot)" using cs(1,3) by simp
qed

lemma all_changes_break:
  assumes "well_named_surface old" "well_named_surface new"
  shows "breaks (all_changes old new) \<longleftrightarrow> \<not> compatible old new"
proof -
  have wf: "wf_dict old" using assms(1) by (simp add: well_named_surface_def)
  have "breaks (all_changes old new) \<longleftrightarrow> (\<exists>q \<in> set (all_keys old new). breaks (projr (diff_type old new q)))"
    by (auto simp: all_changes_def breaks_def)
  also have "\<dots> \<longleftrightarrow> (\<exists>q \<in> set (all_keys old new). \<exists>ot. map_of old q = Some ot \<and>
      \<not> (\<exists>nt. map_of new q = Some nt \<and> compatible_type ot nt))"
    by (rule bex_cong [OF refl type_changes(2) [OF assms]])
  also have "\<dots> \<longleftrightarrow> \<not> compatible old new"
    using all_keys_mem by (auto simp: compatible_lookup [OF wf])
  finally show ?thesis .
qed

lemma all_changes_Nil:
  assumes "well_named_surface old" "well_named_surface new"
  shows "all_changes old new = [] \<longleftrightarrow> compatible old new \<and> compatible new old"
proof -
  have wf: "wf_dict old" "wf_dict new" using assms by (auto simp: well_named_surface_def)
  have "all_changes old new = [] \<longleftrightarrow> (\<forall>q \<in> set (all_keys old new). projr (diff_type old new q) = [])"
    by (simp add: all_changes_def)
  also have "\<dots> \<longleftrightarrow> (\<forall>q \<in> set (all_keys old new). \<exists>ot nt. map_of old q = Some ot \<and> map_of new q = Some nt \<and>
      compatible_type ot nt \<and> compatible_type nt ot)"
    by (rule ball_cong [OF refl type_changes(3) [OF assms]])
  also have "\<dots> \<longleftrightarrow> compatible old new \<and> compatible new old"
    unfolding compatible_lookup [OF wf(1)] compatible_lookup [OF wf(2)]
    using all_keys_mem [of _ old new] by fastforce
  finally show ?thesis .
qed

lemma diff_types_decides:
  assumes "well_named_surface old" "well_named_surface new"
  shows "\<exists>es. diff_types old new = Inr (if \<not> compatible old new then Breaking
      else if compatible new old then Unchanged else Major, es) \<and>
    (es = [] \<longleftrightarrow> compatible old new \<and> compatible new old)"
proof -
  let ?cs = "all_changes old new"
  note spec = type_changes(1) [OF assms]
  obtain css where css: "rmap (diff_type old new) (all_keys old new) = Inr css"
    using rmap_Inr_ex [of "all_keys old new" "diff_type old new"] spec by blast
  have "\<forall>c \<in> set ?cs. fst c \<noteq> Unchanged"
    using spec diff_type_class unfolding all_changes_def by fastforce
  then have "overall ?cs = (if breaks ?cs then Breaking else if ?cs = [] then Unchanged else Major)"
    by (rule overall_cases)
  moreover have "concat css = ?cs" using rmap_projr [OF css] by (simp add: all_changes_def)
  ultimately show ?thesis
    using all_changes_break [OF assms] all_changes_Nil [OF assms] css by (auto simp: diff_types_def all_keys_def)
qed

lemma compatible_type_trans:
  "compatible_type a b \<Longrightarrow> compatible_type b c \<Longrightarrow> compatible_type a c"
  unfolding compatible_type_def Let_def by (auto split: if_splits intro: prefix_order.trans)

lemma compatible_trans:
  "compatible a b \<Longrightarrow> compatible b c \<Longrightarrow> compatible a c"
  unfolding compatible_iff by (fastforce dest: map_of_SomeD intro: compatible_type_trans)

section \<open>Dump texts\<close>

lemma canonical_entries: "wf_dict types \<Longrightarrow> set (canonical types) = set types"
  by (auto simp: canonical_def wf_dict_def image_iff) (force+)

lemma wf_canonical: "wf_dict types \<Longrightarrow> wf_dict (canonical types)"
  unfolding wf_dict_def keys_canonical by simp

lemma well_named_canonical: "well_named_surface types \<Longrightarrow> well_named_surface (canonical types)"
  by (auto simp: well_named_surface_def wf_canonical list_all_iff canonical_entries)

lemma compatible_canonical:
  assumes "wf_dict old"
  shows "compatible (canonical old) (canonical new) \<longleftrightarrow> compatible old new"
  unfolding compatible_iff canonical_entries [OF assms] map_of_canonical ..

definition verdict :: "surface \<Rightarrow> surface \<Rightarrow> change_class" where
  "verdict old new = (if \<not> compatible old new then Breaking
     else if compatible new old then Unchanged else Major)"

text \<open>The comparison of two dump texts is the comparison of the surfaces they render.\<close>

lemma diff_render:
  assumes "wf_surface old" "wf_surface new" "well_named_surface old" "well_named_surface new"
  shows "\<exists>es. diff_surface (render_surface old) (render_surface new) = Inr (verdict old new, es) \<and>
    (es = [] \<longleftrightarrow> verdict old new = Unchanged)"
proof -
  have wf: "wf_dict old" "wf_dict new" using assms by (auto simp: well_named_surface_def)
  have "diff_surface (render_surface old) (render_surface new) = diff_types (canonical old) (canonical new)"
    by (simp add: diff_surface_def parse_dump_render assms)
  then show ?thesis
    using diff_types_decides [OF assms(3,4) [THEN well_named_canonical]]
    by (auto simp: compatible_canonical wf verdict_def)
qed

lemma compatible_type_refl: "compatible_type t t"
  by (auto simp: compatible_type_def Let_def)

lemma compatible_refl: "wf_dict types \<Longrightarrow> compatible types types"
  using compatible_lookup compatible_type_refl by blast

lemma verdict_refl: "wf_dict types \<Longrightarrow> verdict types types = Unchanged"
  by (simp add: verdict_def compatible_refl)

lemma verdict_not_breaking: "verdict old new \<noteq> Breaking \<longleftrightarrow> compatible old new"
  by (simp add: verdict_def)

end
