(* ===== verification/Ops.thy ===== *)
theory Ops
  imports Api_Freeze Gen_Rule Surface_Diff
begin

text \<open>
  The command lines: \<^verbatim>\<open>main\<close> of \<^verbatim>\<open>host/aidl_ops.py\<close> and \<^verbatim>\<open>main\<close> of
  \<^verbatim>\<open>host/aidl_surface.py\<close>. An exit is the error \<^const>\<open>SystemExit\<close> with its status; a command that
  returns a status returns it with what it prints.
\<close>

section \<open>aidl-ops\<close>

record ops_state =
  op_operation :: "string option"
  op_roots :: "string list"
  op_out_dir :: string
  op_gen_dir :: "string option"
  op_version :: "string option"
  op_error :: bool

definition OPS_SHORTS :: "(char \<times> bool) list" where
  "OPS_SHORTS = [(CHR ''r'', True), (CHR ''u'', False), (CHR ''f'', False), (CHR ''g'', False),
     (CHR ''a'', False), (CHR ''d'', True), (CHR ''v'', True), (CHR ''o'', True), (CHR ''h'', False)]"

definition OPS_LONGS :: "(string \<times> bool) list" where
  "OPS_LONGS = [(''interfaces_roots'', True), (''update_api'', False), (''freeze_api'', False),
     (''generate_source'', False), (''generate_deps'', False), (''gen_dir'', True), (''version'', True),
     (''out_dir'', True), (''help'', False)]"

definition choose_operation :: "string \<Rightarrow> ops_state \<Rightarrow> ops_state" where
  "choose_operation name st =
     (if op_operation st = None then st\<lparr>op_operation := Some name\<rparr> else st\<lparr>op_error := True\<rparr>)"

definition ops_option :: "(string \<Rightarrow> string) \<Rightarrow> fs \<Rightarrow> string \<times> string \<Rightarrow> ops_state \<Rightarrow> ops_state res" where
  "ops_option realpath fs oa st = (case oa of (opt, a) \<Rightarrow>
     if opt = ''-r'' \<or> opt = ''--interfaces_roots''
     then Inr (st\<lparr>op_roots := op_roots st @ map realpath
            (filter (\<lambda>p. path_exists fs (realpath p)) (py_split_on CHR '';'' a))\<rparr>)
     else if opt = ''-u'' \<or> opt = ''--update_api'' then Inr (choose_operation ''update_api'' st)
     else if opt = ''-f'' \<or> opt = ''--freeze_api'' then Inr (choose_operation ''freeze_api'' st)
     else if opt = ''-g'' \<or> opt = ''--generate_source'' then Inr (choose_operation ''generate_source'' st)
     else if opt = ''-a'' \<or> opt = ''--generate_deps'' then Inr (choose_operation ''generate_deps'' st)
     else if opt = ''-d'' \<or> opt = ''--gen_dir'' then Inr (st\<lparr>op_gen_dir := Some a\<rparr>)
     else if opt = ''-v'' \<or> opt = ''--version'' then Inr (st\<lparr>op_version := Some (py_strip a)\<rparr>)
     else if opt = ''-o'' \<or> opt = ''--out_dir'' then Inr (st\<lparr>op_out_dir := a\<rparr>)
     else if opt = ''-h'' \<or> opt = ''--help'' then Inl (SystemExit 0)
     else Inl (SystemExit 1))"

text \<open>The environment of a run: the working directory, the default output directory, the skip list.\<close>

record ops_env =
  oe_cwd :: string
  oe_out_dir :: string
  oe_skip :: string
  oe_realpath :: "string \<Rightarrow> string"
  oe_limit :: nat
  oe_build_aidl :: "fs \<Rightarrow> fs"

definition parse_options :: "string list \<Rightarrow> (char \<times> bool) list \<Rightarrow> (string \<times> bool) list \<Rightarrow>
    ((string \<times> string) list \<times> string list) res" where
  "parse_options argv opts long_opts =
     (case getopt opts long_opts [] argv of Inl e \<Rightarrow> Inl (SystemExit 2) | Inr r \<Rightarrow> Inr r)"

definition ops_parse :: "ops_env \<Rightarrow> fs \<Rightarrow> string list \<Rightarrow> (ops_state \<times> string list) res" where
  "ops_parse env fs argv =
     rbind (parse_options argv OPS_SHORTS OPS_LONGS) (\<lambda>(opts, args).
       rbind (rfold (ops_option (oe_realpath env) fs) opts
           \<lparr>op_operation = None, op_roots = [], op_out_dir = oe_out_dir env, op_gen_dir = None,
            op_version = None, op_error = False\<rparr>) (\<lambda>st.
         (let st' = (if op_roots st = [] then st\<lparr>op_roots := [oe_cwd env]\<rparr> else st) in
          if op_operation st' = None then Inl (SystemExit 1)
          else if op_error st' then Inl (SystemExit 1)
          else if op_operation st' \<noteq> Some ''generate_deps'' \<and> length args \<noteq> 1 then Inl (SystemExit 1)
          else Inr (st', args))))"

text \<open>The handlers of the operations; the only argument is the name of the interface.\<close>

definition handle_aidl_api :: "tools \<Rightarrow> ops_env \<Rightarrow> ops_state \<Rightarrow> string \<Rightarrow> string \<Rightarrow> unit io" where
  "handle_aidl_api t env st operation interface_name =
     aidl_api t (oe_limit env) (oe_realpath env) (oe_skip env) interface_name operation (op_roots st) (op_out_dir st)"

definition handle_aidl_gen_rule :: "tools \<Rightarrow> ops_env \<Rightarrow> ops_state \<Rightarrow> string \<Rightarrow> unit io" where
  "handle_aidl_gen_rule t env st interface_name =
     aidl_gen_rule t (oe_limit env) (oe_realpath env) (oe_skip env) interface_name (op_roots st)
       (op_out_dir st) (op_gen_dir st) (op_version st)"

definition handle_aidl_gen_deps :: "ops_env \<Rightarrow> ops_state \<Rightarrow> unit io" where
  "handle_aidl_gen_deps env st = aidl_gen_deps (oe_realpath env) (oe_skip env) (op_roots st) (op_out_dir st)"

text \<open>A \<^verbatim>\<open>RecursionError\<close> is a \<^verbatim>\<open>RuntimeError\<close>.\<close>

definition ops_dispatch :: "tools \<Rightarrow> ops_env \<Rightarrow> ops_state \<Rightarrow> string list \<Rightarrow> unit io" where
  "ops_dispatch t env st args =
     (let operation = the_default [] (op_operation st) in
      if operation = ''update_api'' \<or> operation = ''freeze_api''
      then handle_aidl_api t env st operation (hd args)
      else if operation = ''generate_source''
      then io_catch (handle_aidl_gen_rule t env st (hd args))
           (\<lambda>e. case e of RuntimeError m \<Rightarrow> io_raise (SystemExit 1)
              | RecursionError \<Rightarrow> io_raise (SystemExit 1)
              | _ \<Rightarrow> io_raise e)
      else if operation = ''generate_deps'' then handle_aidl_gen_deps env st
      else io_return ())"

text \<open>\<^verbatim>\<open>main\<close> for the operations; the surface subcommands are below. A missing compiler is built first.\<close>

definition ops_main :: "tools \<Rightarrow> ops_env \<Rightarrow> string list \<Rightarrow> unit io" where
  "ops_main t env argv =
     io_bind (io_gets (\<lambda>fs. ops_parse env fs argv)) (\<lambda>r. io_bind (io_res r) (\<lambda>(st, args).
       io_then (io_modify (\<lambda>fs. if path_exists fs (t_cmd_aidl t) then fs else oe_build_aidl env fs))
       (io_bind (io_gets (\<lambda>fs. path_exists fs (t_cmd_aidl t))) (\<lambda>ready.
         if \<not> ready then io_raise (SystemExit 1) else ops_dispatch t env st args))))"

section \<open>The surface subcommands\<close>

function fs_tree :: "fs \<Rightarrow> string \<Rightarrow> fs_dir" where
  "fs_tree fs d = Dir
     (map (\<lambda>p. (path_basename p, universal_newlines (node_text (the (map_of fs p))))) (dir_file_paths fs d))
     (map (\<lambda>p. (path_basename p, fs_tree fs p)) (filter (path_isdir fs) (children fs d)))"
  by pat_completeness auto
termination
  by (relation "measure (\<lambda>(fs, d). (MAX q \<in> set (dict_keys fs). length q) - length d)")
     (simp, use children_measure in fastforce)

declare fs_tree.simps [simp del]

fun class_name :: "change_class \<Rightarrow> string" where
  "class_name Breaking = ''breaking''"
| "class_name Major = ''major''"
| "class_name Unchanged = ''none''"

definition entry_line :: "entry \<Rightarrow> string" where
  "entry_line c = ''  '' @ en_kind c @ ''  '' @ en_where c @ ''  '' @ en_symbol c
     @ (case en_old c of None \<Rightarrow> [] | Some s \<Rightarrow> ''  [old: '' @ s @ '']'')
     @ (case en_new c of None \<Rightarrow> [] | Some s \<Rightarrow> ''  [new: '' @ s @ '']'')"

text \<open>\<^verbatim>\<open>json.dumps(report, indent=2)\<close>\<close>

definition hex_digit :: "nat \<Rightarrow> char" where
  "hex_digit n = ''0123456789abcdef'' ! (n mod 16)"

definition json_char :: "char \<Rightarrow> string" where
  "json_char c = (let n = of_char c :: nat in
     if c = chr_quote then [chr_bslash, chr_quote]
     else if c = chr_bslash then [chr_bslash, chr_bslash]
     else if c = chr_nl then [chr_bslash, CHR ''n'']
     else if c = chr_cr then [chr_bslash, CHR ''r'']
     else if n = 9 then [chr_bslash, CHR ''t'']
     else if n = 8 then [chr_bslash, CHR ''b'']
     else if n = 12 then [chr_bslash, CHR ''f'']
     else if n < 32 \<or> 126 < n then [chr_bslash, CHR ''u'', CHR ''0'', CHR ''0'', hex_digit (n div 16), hex_digit n]
     else [c])"

definition json_string :: "string \<Rightarrow> string" where
  "json_string s = [chr_quote] @ concat (map json_char s) @ [chr_quote]"

definition json_entry :: "entry \<Rightarrow> string" where
  "json_entry c = ''    {'' @ [chr_nl] @ py_join ('','' @ [chr_nl]) (map (\<lambda>(k, v). ''      '' @ json_string k @ '': '' @ json_string v)
     ([(''kind'', en_kind c), (''where'', en_where c), (''symbol'', en_symbol c)]
      @ (case en_old c of None \<Rightarrow> [] | Some s \<Rightarrow> [(''old'', s)])
      @ (case en_new c of None \<Rightarrow> [] | Some s \<Rightarrow> [(''new'', s)]))) @ [chr_nl] @ ''    }''"

definition json_report :: "change_class \<times> entry list \<Rightarrow> string" where
  "json_report r = ''{'' @ [chr_nl] @ ''  '' @ json_string ''class'' @ '': '' @ json_string (class_name (fst r)) @ '','' @ [chr_nl]
     @ ''  '' @ json_string ''changes'' @ '': ''
     @ (if snd r = [] then ''[]''
        else ''['' @ [chr_nl] @ py_join ('','' @ [chr_nl]) (map json_entry (snd r)) @ [chr_nl] @ ''  ]'')
     @ [chr_nl] @ ''}''"

definition report_text :: "bool \<Rightarrow> change_class \<times> entry list \<Rightarrow> string" where
  "report_text as_json r =
     (if as_json then json_report r @ [chr_nl]
      else ''class: '' @ class_name (fst r) @ [chr_nl] @ concat (map (\<lambda>c. entry_line c @ [chr_nl]) (snd r)))"

definition dump_command :: "string list \<Rightarrow> (int \<times> string) io" where
  "dump_command args0 =
     (let i = length (takeWhile (\<lambda>a. a \<noteq> ''--out'') args0);
          has_out = ''--out'' \<in> set args0;
          out = (if has_out then Some (args0 ! (i + 1)) else None);
          args = (if has_out then take i args0 @ drop (i + 2) args0 else args0)
      in if has_out \<and> i + 1 \<ge> length args0 then io_return (2, [])
         else io_bind (io_gets (\<lambda>fs. length args = 1 \<and> path_isdir fs (hd args))) (\<lambda>ok.
           if \<not> ok then io_return (2, [])
           else io_bind (io_gets (\<lambda>fs. dump_surface (fs_tree fs (hd args)))) (\<lambda>r. io_bind (io_res r) (\<lambda>text.
             (case out of
                Some f \<Rightarrow> if f = [] then io_return (0, text)
                          else io_then (io_modify (dict_set f (FFile text))) (io_return (0, []))
              | None \<Rightarrow> io_return (0, text))))))"

definition read_dump :: "fs \<Rightarrow> string \<Rightarrow> string option" where
  "read_dump fs p = (case map_of fs p of Some FDir \<Rightarrow> None | Some n \<Rightarrow> Some (universal_newlines (node_text n)) | None \<Rightarrow> None)"

text \<open>An unreadable dump and a \<^verbatim>\<open>ValueError\<close> end with status 2; other errors are not caught.\<close>

definition diff_command :: "string list \<Rightarrow> (int \<times> string) io" where
  "diff_command args0 =
     (let as_json = ''--json'' \<in> set args0; args = filter (\<lambda>a. a \<noteq> ''--json'') args0
      in if length args \<noteq> 2 then io_return (2, [])
         else io_bind (io_gets (\<lambda>fs. (read_dump fs (args ! 0), read_dump fs (args ! 1)))) (\<lambda>texts.
           (case texts of
              (Some old, Some new) \<Rightarrow> (case diff_surface old new of
                  Inr report \<Rightarrow> io_return (0, report_text as_json report)
                | Inl (ValueError m) \<Rightarrow> io_return (2, [])
                | Inl e \<Rightarrow> io_raise e)
            | _ \<Rightarrow> io_return (2, []))))"

definition surface_main :: "string \<Rightarrow> string list \<Rightarrow> (int \<times> string) io" where
  "surface_main doc argv = (case argv of
       [] \<Rightarrow> io_return (0, doc)
     | cmd # args \<Rightarrow>
         if cmd \<in> {''-h'', ''--help'', ''help''} then io_return (0, doc)
         else if cmd = ''dump-surface'' then dump_command args
         else if cmd = ''diff-surface'' then diff_command args
         else io_return (2, []))"

text \<open>The whole of \<^verbatim>\<open>main\<close> of \<^verbatim>\<open>aidl_ops.py\<close>: the subcommands exit with the status they return.\<close>

definition aidl_ops_main :: "tools \<Rightarrow> ops_env \<Rightarrow> string \<Rightarrow> string list \<Rightarrow> unit io" where
  "aidl_ops_main t env doc argv =
     (if argv \<noteq> [] \<and> hd argv \<in> {''dump-surface'', ''diff-surface''}
      then io_bind (surface_main doc argv) (\<lambda>(rc, out). io_raise (SystemExit rc))
      else ops_main t env argv)"

end
