(* ===== verification/Logger_Model.thy ===== *)
theory Logger_Model
  imports Py_Str
begin

text \<open>
  \<^verbatim>\<open>host/logger.py\<close>: the levels, which messages pass, the format of a line and its colour. The time and
  the place of a call, which the \<^verbatim>\<open>logging\<close> module and the interpreter provide, are a record.
\<close>

datatype log_level = FATAL | ERROR | WARNING | INFO | DEBUG | VERBOSE

fun level_number :: "log_level \<Rightarrow> nat" where
  "level_number FATAL = 0"
| "level_number ERROR = 1"
| "level_number WARNING = 2"
| "level_number INFO = 3"
| "level_number DEBUG = 4"
| "level_number VERBOSE = 5"

lemma level_number_inject: "level_number a = level_number b \<Longrightarrow> a = b"
  by (cases a; cases b) simp_all

text \<open>The levels are ordered by their numbers.\<close>

instantiation log_level :: linorder
begin

definition less_eq_log_level :: "log_level \<Rightarrow> log_level \<Rightarrow> bool" where
  "less_eq_log_level a b \<longleftrightarrow> level_number a \<le> level_number b"

definition less_log_level :: "log_level \<Rightarrow> log_level \<Rightarrow> bool" where
  "less_log_level a b \<longleftrightarrow> level_number a < level_number b"

instance
  by standard (auto simp: less_eq_log_level_def less_log_level_def intro: level_number_inject)

end

definition ESC :: char where
  "ESC = CHR 0x1B"

definition RED :: string where "RED = ESC # ''[31m''"
definition YELLOW :: string where "YELLOW = ESC # ''[33m''"
definition RESET :: string where "RESET = ESC # ''[0m''"

text \<open>\<^verbatim>\<open>_LEVELS\<close>: the level of the \<^verbatim>\<open>logging\<close> module, the printed name and the colour.\<close>

fun level_entry :: "log_level \<Rightarrow> nat \<times> string \<times> string option" where
  "level_entry FATAL = (50, ''FATAL'', Some RED)"
| "level_entry ERROR = (40, ''ERROR'', Some RED)"
| "level_entry WARNING = (30, ''WARNING'', Some YELLOW)"
| "level_entry INFO = (20, ''INFO'', None)"
| "level_entry DEBUG = (10, ''DEBUG'', None)"
| "level_entry VERBOSE = (5, ''VERBOSE'', None)"

text \<open>A logger: its tag, its level (\<^verbatim>\<open>INFO\<close> when none is given) and whether the terminal is coloured.\<close>

record logger =
  lg_tag :: string
  lg_level :: log_level
  lg_colour :: bool

definition mk_logger :: "string option \<Rightarrow> log_level option \<Rightarrow> bool \<Rightarrow> bool \<Rightarrow> logger" where
  "mk_logger tag level isatty no_color =
     \<lparr>lg_tag = (case tag of None \<Rightarrow> ''default'' | Some s \<Rightarrow> s),
      lg_level = (case level of None \<Rightarrow> INFO | Some l \<Rightarrow> l), lg_colour = (isatty \<and> \<not> no_color)\<rparr>"

text \<open>When and where a message is logged.\<close>

record call_site =
  ca_time :: string
  ca_func :: string
  ca_line :: nat

definition ljust :: "nat \<Rightarrow> string \<Rightarrow> string" where
  "ljust n s = s @ replicate (n - length s) (CHR '' '')"

text \<open>\<^verbatim>\<open>_FORMAT\<close> filled in, with the name of the level in its place.\<close>

definition format_record :: "logger \<Rightarrow> call_site \<Rightarrow> log_level \<Rightarrow> string \<Rightarrow> string" where
  "format_record lg c level msg =
     ca_time c @ [CHR 0x09] @ ''['' @ ljust 8 (fst (snd (level_entry level))) @ ''] '' @ lg_tag lg @ ''  '' @
     ca_func c @ ''():'' @ str_of_nat (ca_line c) @ '' '' @ msg"

definition format_line :: "bool \<Rightarrow> log_level \<Rightarrow> string \<Rightarrow> string" where
  "format_line coloured level line = (case snd (snd (level_entry level)) of
       Some c \<Rightarrow> if coloured then c @ line @ RESET else line
     | None \<Rightarrow> line)"

text \<open>\<^verbatim>\<open>_log\<close>: the lines a call writes. The methods but \<^verbatim>\<open>fatal\<close> are this at their level.\<close>

definition log_message :: "logger \<Rightarrow> call_site \<Rightarrow> log_level \<Rightarrow> string \<Rightarrow> string list" where
  "log_message lg c level msg =
     (if level > lg_level lg then []
      else [format_line (lg_colour lg) level (format_record lg c level msg)])"

definition log_fatal :: "logger \<Rightarrow> call_site \<Rightarrow> string \<Rightarrow> string list \<times> py_error" where
  "log_fatal lg c msg = (log_message lg c FATAL msg, SystemExit 1)"

definition log_error :: "logger \<Rightarrow> call_site \<Rightarrow> string \<Rightarrow> string list" where
  "log_error lg c msg = log_message lg c ERROR msg"

definition log_warning :: "logger \<Rightarrow> call_site \<Rightarrow> string \<Rightarrow> string list" where
  "log_warning lg c msg = log_message lg c WARNING msg"

definition log_info :: "logger \<Rightarrow> call_site \<Rightarrow> string \<Rightarrow> string list" where
  "log_info lg c msg = log_message lg c INFO msg"

definition log_debug :: "logger \<Rightarrow> call_site \<Rightarrow> string \<Rightarrow> string list" where
  "log_debug lg c msg = log_message lg c DEBUG msg"

definition log_verbose :: "logger \<Rightarrow> call_site \<Rightarrow> string \<Rightarrow> string list" where
  "log_verbose lg c msg = log_message lg c VERBOSE msg"

text \<open>
  A logger with no level given drops what \<^verbatim>\<open>debug\<close> and \<^verbatim>\<open>verbose\<close> log; what \<^verbatim>\<open>fatal\<close> logs is never dropped.
\<close>

lemma default_drops:
  "log_debug (mk_logger tag None isatty no_color) c msg = []" "log_verbose (mk_logger tag None isatty no_color) c msg = []"
  "fst (log_fatal lg c msg) \<noteq> []"
  by (simp_all add: log_debug_def log_verbose_def log_fatal_def log_message_def mk_logger_def less_log_level_def)

text \<open>A log that does not go to a terminal has no escape sequence of its own.\<close>

lemma log_plain:
  assumes "\<not> isatty \<or> no_color" "ESC \<notin> set (format_record lg c level msg)" "lg = mk_logger tag lv isatty no_color"
    and "l \<in> set (log_message lg c level msg)"
  shows "ESC \<notin> set l"
  using assms by (cases level) (auto simp: log_message_def mk_logger_def format_line_def split: if_splits)

end
