(* ===== verification/Surface_Props.thy ===== *)
theory Surface_Props
  imports Surface_Diff "HOL-Library.Multiset"
begin

text \<open>
  The properties of the surface gate, \<^verbatim>\<open>host/aidl_surface.py\<close>: comment stripping, enum values, the
  dump and its round trip, and the classification of changes.
\<close>

section \<open>Two releases\<close>

text \<open>A surface and a later one, used as concrete instances.\<close>

definition old_api :: surface where
  "old_api = [(''pkg.IFoo'', \<lparr>ty_kind = Interface, ty_oneway = False,
      ty_annotations = [''@VintfStability''],
      ty_members = [''const int VERSION = 1'', ''void start(in int a)'']\<rparr>),
    (''pkg.Mode'', \<lparr>ty_kind = Enum, ty_oneway = False, ty_annotations = [],
      ty_members = [''ON = 0'', ''OFF = 1'']\<rparr>)]"

definition new_api :: surface where
  "new_api = [(''pkg.Mode'', \<lparr>ty_kind = Enum, ty_oneway = False, ty_annotations = [],
      ty_members = [''ON = 0'', ''OFF = 1'', ''AUTO = 2'']\<rparr>),
    (''pkg.IFoo'', \<lparr>ty_kind = Interface, ty_oneway = False,
      ty_annotations = [''@VintfStability''],
      ty_members = [''const int VERSION = 1'', ''void start(in int a)'', ''void stop()'']\<rparr>)]"

lemma api_wf:
  "wf_surface old_api" "wf_surface new_api" "well_named_surface old_api" "well_named_surface new_api"
  by code_simp+

lemma api_compatible: "compatible old_api new_api" "\<not> compatible new_api old_api"
  by code_simp+

section \<open>Classification\<close>

text \<open>
  C1: the surface gate decides compatibility: for two well-formed surfaces whose members have
  distinct names, comparing their dumps returns, and classifies the change as breaking exactly
  when the new surface is not compatible with the old one, as unchanged exactly when each is
  compatible with the other, and as major otherwise; the change list is empty only for
  unchanged.
\<close>

theorem gate_decides_compatibility:
  assumes "wf_surface old" "wf_surface new" "well_named_surface old" "well_named_surface new"
  shows "\<exists>es. diff_surface (render_surface old) (render_surface new) =
      Inr (if \<not> compatible old new then Breaking
           else if compatible new old then Unchanged else Major, es) \<and>
    (es = [] \<longleftrightarrow> compatible old new \<and> compatible new old)"
  using diff_render [OF assms] by (auto simp: verdict_def split: if_splits)

theorem gate_decides_compatibility_witness:
  "\<exists>es. diff_surface (render_surface old_api) (render_surface new_api) = Inr (Major, es) \<and> es \<noteq> []"
  using gate_decides_compatibility [OF api_wf] api_compatible by auto

text \<open>
  C17: releases compose: when the gate passes the step from a surface to a second one and the step
  from the second to a third, it passes the step from the first to the third.
\<close>

theorem gate_release_chain:
  assumes "wf_surface a" "wf_surface b" "wf_surface c"
    and "well_named_surface a" "well_named_surface b" "well_named_surface c"
    and "diff_surface (render_surface a) (render_surface b) = Inr (k1, es1)" "k1 \<noteq> Breaking"
    and "diff_surface (render_surface b) (render_surface c) = Inr (k2, es2)" "k2 \<noteq> Breaking"
  shows "\<exists>k es. diff_surface (render_surface a) (render_surface c) = Inr (k, es) \<and> k \<noteq> Breaking"
proof -
  have "k1 = verdict a b" using diff_render [OF assms(1,2,4,5)] assms(7) by auto
  moreover have "k2 = verdict b c" using diff_render [OF assms(2,3,5,6)] assms(9) by auto
  ultimately have "compatible a c" using assms(8,10) compatible_trans by (simp add: verdict_not_breaking)
  then have "verdict a c \<noteq> Breaking" by (simp add: verdict_not_breaking)
  then show ?thesis using diff_render [OF assms(1,3,4,6)] by blast
qed

theorem gate_release_chain_witness:
  "\<exists>k es. diff_surface (render_surface old_api) (render_surface new_api) = Inr (k, es) \<and> k \<noteq> Breaking"
proof -
  obtain es where n: "diff_surface (render_surface old_api) (render_surface new_api) = Inr (Major, es)"
    using diff_render [OF api_wf] api_compatible by (auto simp: verdict_def)
  obtain es' where r: "diff_surface (render_surface new_api) (render_surface new_api) = Inr (Unchanged, es')"
    using diff_render [OF api_wf(2) api_wf(2) api_wf(4) api_wf(4)] verdict_refl [of new_api] api_wf(4)
    by (auto simp: well_named_surface_def)
  show ?thesis
    by (rule gate_release_chain [OF api_wf(1,2,2) api_wf(3,4,4) n _ r]) simp_all
qed

text \<open>
  A surface compared with itself is unchanged, with no entry in the change list.
\<close>

theorem gate_reflexive:
  assumes "wf_surface types" "well_named_surface types"
  shows "diff_surface (render_surface types) (render_surface types) = Inr (Unchanged, [])"
  using diff_render [OF assms(1,1) assms(2,2)] verdict_refl [of types] assms(2)
  by (auto simp: well_named_surface_def)

theorem gate_reflexive_witness:
  "diff_surface (render_surface old_api) (render_surface old_api) = Inr (Unchanged, [])"
  by (rule gate_reflexive [OF api_wf(1,3)])

section \<open>The dump\<close>

text \<open>
  C8: a dump is read back: parsing the rendering of a well-formed surface returns, with every
  type under its name as it was and the names in ascending order.
\<close>

theorem dump_round_trip:
  assumes "wf_surface types"
  shows "\<exists>types'. parse_dump (render_surface types) = Inr types' \<and> map_of types' = map_of types \<and>
    dict_keys types' = sort (dict_keys types)"
  using parse_dump_render [OF assms] map_of_canonical keys_canonical by blast

theorem dump_round_trip_witness:
  "\<exists>types'. parse_dump (render_surface new_api) = Inr types' \<and> map_of types' = map_of new_api \<and>
    dict_keys types' = [''pkg.IFoo'', ''pkg.Mode'']"
proof -
  have "sort (dict_keys new_api) = [''pkg.IFoo'', ''pkg.Mode'']" by code_simp
  then show ?thesis using dump_round_trip [OF api_wf(2)] by simp
qed

text \<open>
  Two trees that differ only in the order in which the entries of their directories are listed, at
  any depth. The names in one directory are distinct.
\<close>

fun same_tree :: "fs_dir \<Rightarrow> fs_dir \<Rightarrow> bool" where
  "same_tree (Dir files dirs) (Dir files' dirs') \<longleftrightarrow>
     mset files = mset files' \<and> distinct (map fst files) \<and>
     distinct (map fst dirs) \<and> distinct (map fst dirs') \<and> set (map fst dirs) = set (map fst dirs') \<and>
     (\<forall>x \<in> set dirs. \<forall>y \<in> set dirs'. fst x = fst y \<longrightarrow> same_tree (snd x) (snd y))"

lemma sort_key_mset:
  assumes "mset xs = mset ys" "distinct (map fst xs)"
  shows "sort_key fst xs = sort_key fst (ys :: (string \<times> 'a) list)"
proof (rule sort_key_inj_key_eq)
  show "mset xs = mset (sort_key fst ys)" using assms(1) by simp
  show "inj_on fst (set xs)" using assms(2) by (simp add: distinct_map)
qed simp

text \<open>Two lists with the same distinct names are sorted to lists with the same names in the same places.\<close>

lemma sort_key_names:
  fixes xs :: "(string \<times> 'a) list" and ys :: "(string \<times> 'b) list"
  assumes "distinct (map fst xs)" "distinct (map fst ys)" "set (map fst xs) = set (map fst ys)"
  shows "map fst (sort_key fst xs) = map fst (sort_key fst ys)"
proof (rule sorted_distinct_set_unique)
  have "mset (map fst (sort_key fst zs)) = mset (map fst zs)" for zs :: "(string \<times> 'c) list" by simp
  then have "distinct (map fst (sort_key fst zs)) = distinct (map fst zs)" for zs :: "(string \<times> 'c) list"
    by (rule mset_eq_imp_distinct_iff)
  then show "distinct (map fst (sort_key fst xs))" "distinct (map fst (sort_key fst ys))"
    using assms(1,2) by blast+
qed (use assms(3) in simp_all)

lemma walk_texts_same: "same_tree r r' \<Longrightarrow> walk_texts r = walk_texts r'"
proof (induction r r' rule: same_tree.induct)
  case (1 files dirs files' dirs')
  let ?ds = "sort_key fst dirs" and ?ds' = "sort_key fst dirs'"
  have names: "map fst ?ds = map fst ?ds'" using "1.prems" by (intro sort_key_names) simp_all
  have "map (\<lambda>(n, d). walk_texts d) ?ds = map (\<lambda>(n, d). walk_texts d) ?ds'"
  proof (rule nth_equalityI)
    show len: "length (map (\<lambda>(n, d). walk_texts d) ?ds) = length (map (\<lambda>(n, d). walk_texts d) ?ds')"
      using names by (metis length_map)
    fix k assume "k < length (map (\<lambda>(n, d). walk_texts d) ?ds)"
    then have k: "k < length ?ds" "k < length ?ds'" using len by simp_all
    then have "?ds ! k \<in> set dirs" "?ds' ! k \<in> set dirs'" by (metis nth_mem set_sort)+
    moreover have "fst (?ds ! k) = fst (?ds' ! k)" using names k by (metis nth_map)
    ultimately have "walk_texts (snd (?ds ! k)) = walk_texts (snd (?ds' ! k))" using "1.IH" "1.prems" by simp
    then show "map (\<lambda>(n, d). walk_texts d) ?ds ! k = map (\<lambda>(n, d). walk_texts d) ?ds' ! k"
      using k by (simp add: case_prod_unfold)
  qed
  then show ?case using "1.prems" sort_key_mset [of files files'] by simp
qed

text \<open>
  C27: the dump of a tree does not depend on the order in which the operating system lists the
  files and the directories, in the root and in every directory below it.
\<close>

theorem dump_listing_order:
  assumes "same_tree root root'"
  shows "dump_surface root = dump_surface root'"
  using walk_texts_same [OF assms] by (simp add: dump_surface_def)

theorem dump_listing_order_witness:
  "dump_surface (Dir [] [(''p'', Dir [(''B.aidl'', ''enum B { X }''), (''A.aidl'', ''enum A { Y }'')] [(''r'', Dir [] []), (''q'', Dir [] [])]), (''o'', Dir [] [])]) =
   dump_surface (Dir [] [(''o'', Dir [] []), (''p'', Dir [(''A.aidl'', ''enum A { Y }''), (''B.aidl'', ''enum B { X }'')] [(''q'', Dir [] []), (''r'', Dir [] [])])])"
  by (rule dump_listing_order) (auto simp: add_mset_commute)

text \<open>
  An enum value written with a leading zero is taken for an integer by the pattern and then
  refused by the conversion, so the dump of a tree with such a value ends with a \<^verbatim>\<open>ValueError\<close>.
\<close>

theorem dump_leading_zero:
  "dump_surface (Dir [(''A.aidl'', ''enum A { X = 010 }'')] []) = Inl (ValueError ''010'')"
  by code_simp

section \<open>Lexing\<close>

text \<open>
  C25: a block comment or a line comment outside of string literals is the same as a blank or
  nothing, and a string literal is kept as it is, also where it holds a comment mark.
\<close>

theorem strip_comments_meaning:
  assumes "scan_outside t" "py_find ''*/'' c = None" "chr_nl \<notin> set l"
    and "lit_closed q" "hd q = chr_quote" "string_end q 0 = length q"
  shows "strip_comments (t @ ''/*'' @ c @ ''*/'' @ s) = strip_comments t @ CHR '' '' # strip_comments s \<and>
    strip_comments (t @ ''//'' @ l @ chr_nl # s) = strip_comments t @ chr_nl # strip_comments s \<and>
    strip_comments (t @ q @ s) = strip_comments t @ q @ strip_comments s"
  by (intro conjI strip_comments_block strip_comments_line strip_comments_literal assms)

theorem strip_comments_meaning_witness:
  "strip_comments (''int a; '' @ ''/*'' @ '' note '' @ ''*/'' @ ''int b;'') = ''int a; '' @ CHR '' '' # ''int b;'' \<and>
   strip_comments (''int a; '' @ ''//'' @ '' note'' @ chr_nl # ''int b;'') = ''int a; '' @ chr_nl # ''int b;'' \<and>
   strip_comments (''int a; '' @ (chr_quote # ''/*//'' @ [chr_quote]) @ ''int b;'') =
     ''int a; '' @ (chr_quote # ''/*//'' @ [chr_quote]) @ ''int b;''"
proof -
  let ?q = "chr_quote # ''/*//'' @ [chr_quote]"
  have "scan_outside ''int a; ''" "py_find ''*/'' '' note '' = None" "chr_nl \<notin> set '' note''"
    "lit_closed ?q" "hd ?q = chr_quote" "string_end ?q 0 = length ?q"
    "strip_comments ''int a; '' = ''int a; ''" "strip_comments ''int b;'' = ''int b;''"
    by code_simp+
  then show ?thesis
    using strip_comments_meaning [of "''int a; ''" "'' note ''" "'' note''" ?q "''int b;''"] by metis
qed

section \<open>Enums\<close>

text \<open>
  The declarations of an enum body: of every comma-separated part that is not blank, the name and
  the expression that is written after the first equals sign, if there is one.
\<close>

definition enum_decl :: "string \<Rightarrow> string \<times> string option" where
  "enum_decl v = (case py_partition ''='' (py_strip v) of (n, sep, e) \<Rightarrow>
     if sep = [] then (py_strip v, None) else (py_strip n, Some (py_strip e)))"

definition enum_decls :: "string \<Rightarrow> (string \<times> string option) list" where
  "enum_decls body = map enum_decl (filter (\<lambda>v. py_strip v \<noteq> []) (py_split_on CHR '','' body))"

text \<open>
  What backs the declaration at a position, told from the last expression at or before it: with
  none, its position; with an integer literal, the value of the literal and the distance from it;
  with another expression, no known integer.
\<close>

definition last_given :: "(string \<times> string option) list \<Rightarrow> nat \<Rightarrow> nat option" where
  "last_given ds k = find (\<lambda>p. snd (ds ! p) \<noteq> None) (rev [0..<Suc k])"

definition is_int_literal :: "string \<Rightarrow> bool" where
  "is_int_literal e \<longleftrightarrow> re_match INT_RE e \<noteq> None"

definition backing :: "(string \<times> string option) list \<Rightarrow> nat \<Rightarrow> int option" where
  "backing ds k = (case last_given ds k of
       None \<Rightarrow> Some (int k)
     | Some p \<Rightarrow> (let e = the (snd (ds ! p)) in
         if is_int_literal e then Some (projr (py_int0 e) + int (k - p)) else None))"

definition enum_member :: "(string \<times> string option) list \<Rightarrow> nat \<Rightarrow> string" where
  "enum_member ds k = (case ds ! k of (n, e) \<Rightarrow> (case backing ds k of
       Some i \<Rightarrow> n @ '' = '' @ str_of_int i
     | None \<Rightarrow> (case e of Some x \<Rightarrow> n @ '' = '' @ normalize x | None \<Rightarrow> n)))"

text \<open>Literals that the pattern accepts and the conversion refuses.\<close>

definition bad_literal :: "string \<times> string option \<Rightarrow> bool" where
  "bad_literal x \<longleftrightarrow> (case snd x of None \<Rightarrow> False | Some e \<Rightarrow> is_int_literal e \<and> isl (py_int0 e))"

text \<open>One declaration, as the loop body treats it.\<close>

definition decl_step :: "string \<times> string option \<Rightarrow> string list \<times> int option \<Rightarrow> (string list \<times> int option) res" where
  "decl_step x st = (case (x, st) of
       ((n, Some e), (ms, prev)) \<Rightarrow>
         if is_int_literal e then rbind (py_int0 e) (\<lambda>i. Inr (ms @ [n @ '' = '' @ str_of_int i], Some i))
         else Inr (ms @ [n @ '' = '' @ normalize e], None)
     | ((n, None), (ms, None)) \<Rightarrow> Inr (ms @ [n], None)
     | ((n, None), (ms, Some i)) \<Rightarrow> Inr (ms @ [n @ '' = '' @ str_of_int (i + 1)], Some (i + 1)))"

lemma enum_value_decl: "enum_value v st = (if py_strip v = [] then Inr st else decl_step (enum_decl v) st)"
proof (cases "CHR ''='' \<in> set (py_strip v)")
  case True
  then obtain p q where "py_strip v = p @ CHR ''='' # q" "CHR ''='' \<notin> set p" by (rule split_at_char)
  then have "py_partition ''='' (py_strip v) = (p, ''='', q)" by (simp add: py_partition_char)
  then show ?thesis
    using True by (cases st) (auto simp: enum_value_def enum_decl_def decl_step_def is_int_literal_def Let_def)
next
  case False
  then show ?thesis
    using py_partition_char_None [OF False]
    by (cases st; cases "snd st") (auto simp: enum_value_def enum_decl_def decl_step_def Let_def)
qed

lemma enum_values_decls:
  "rfold enum_value vs st = rfold decl_step (map enum_decl (filter (\<lambda>v. py_strip v \<noteq> []) vs)) st"
proof (induction vs arbitrary: st)
  case (Cons v vs)
  then have "rfold enum_value vs = rfold decl_step (map enum_decl (filter (\<lambda>v. py_strip v \<noteq> []) vs))" by blast
  then show ?case by (simp add: enum_value_decl [of v])
qed simp

lemma last_given_snoc:
  "k < length ds \<Longrightarrow> last_given (ds @ [x]) k = last_given ds k"
  "last_given (ds @ [x]) (length ds) =
     (if snd x \<noteq> None then Some (length ds) else if ds = [] then None else last_given ds (length ds - 1))"
proof -
  have cong: "find P xs = find Q xs" if "\<And>y. y \<in> set xs \<Longrightarrow> P y = Q y" for P Q :: "nat \<Rightarrow> bool" and xs
    using that by (induction xs) auto
  show "k < length ds \<Longrightarrow> last_given (ds @ [x]) k = last_given ds k"
    unfolding last_given_def by (rule cong) (auto simp: nth_append)
  have "find (\<lambda>p. snd ((ds @ [x]) ! p) \<noteq> None) (rev [0..<length ds]) = find (\<lambda>p. snd (ds ! p) \<noteq> None) (rev [0..<length ds])"
    by (rule cong) (auto simp: nth_append)
  then show "last_given (ds @ [x]) (length ds) =
     (if snd x \<noteq> None then Some (length ds) else if ds = [] then None else last_given ds (length ds - 1))"
    by (cases ds) (simp_all add: last_given_def)
qed

lemma last_given_le: "last_given ds k = Some p \<Longrightarrow> p \<le> k"
proof -
  assume "last_given ds k = Some p"
  then have "p \<in> set (rev [0..<Suc k])" unfolding last_given_def find_Some_iff by (metis nth_mem)
  then show "p \<le> k" by auto
qed

lemma backing_snoc:
  "k < length ds \<Longrightarrow> backing (ds @ [x]) k = backing ds k"
  "backing (ds @ [(n, Some e)]) (length ds) = (if is_int_literal e then Some (projr (py_int0 e)) else None)"
  "backing (ds @ [(n, None)]) (length ds) = map_option (\<lambda>i. i + 1) (if ds = [] then Some (- 1) else backing ds (length ds - 1))"
proof -
  have p: "p < length ds" if "last_given ds k = Some p" "k < length ds" for p k using last_given_le [OF that(1)] that(2) by simp
  show "k < length ds \<Longrightarrow> backing (ds @ [x]) k = backing ds k"
    using p by (auto simp: backing_def last_given_snoc nth_append split: option.splits)
  show "backing (ds @ [(n, Some e)]) (length ds) = (if is_int_literal e then Some (projr (py_int0 e)) else None)"
    by (simp add: backing_def last_given_snoc)
  show "backing (ds @ [(n, None)]) (length ds) = map_option (\<lambda>i. i + 1) (if ds = [] then Some (- 1) else backing ds (length ds - 1))"
  proof (cases "ds = []")
    case False
    then have l: "length ds - 1 < length ds" by simp
    show ?thesis
      using False p [OF _ l] last_given_le [of ds "length ds - 1"] l
      by (auto simp: backing_def last_given_snoc nth_append Let_def of_nat_diff Suc_leI split: option.splits)
  qed (simp add: backing_def last_given_def)
qed

lemma decl_steps:
  assumes "\<not> list_ex bad_literal ds"
  shows "rfold decl_step ds ([], Some (- 1)) =
    Inr (map (enum_member ds) [0..<length ds], if ds = [] then Some (- 1) else backing ds (length ds - 1))"
  using assms
proof (induction ds rule: rev_induct)
  case (snoc x ds)
  obtain n e where x: "x = (n, e)" by fastforce
  have old: "map (enum_member (ds @ [x])) [0..<length ds] = map (enum_member ds) [0..<length ds]"
    by (intro map_cong refl) (auto simp: enum_member_def backing_snoc nth_append)
  have step: "decl_step x (ms, if ds = [] then Some (- 1) else backing ds (length ds - 1)) =
      Inr (ms @ [enum_member (ds @ [x]) (length ds)], backing (ds @ [x]) (length ds))" for ms
  proof (cases e)
    case None
    then show ?thesis unfolding x
      by (cases "if ds = [] then Some (- 1) else backing ds (length ds - 1)") (simp_all add: decl_step_def enum_member_def backing_snoc)
  next
    case (Some y)
    then have "is_int_literal y \<Longrightarrow> \<exists>i. py_int0 y = Inr i"
      using snoc.prems x by (cases "py_int0 y") (auto simp: bad_literal_def)
    then show ?thesis unfolding x Some
      by (cases "is_int_literal y") (auto simp: decl_step_def enum_member_def backing_snoc)
  qed
  show ?case using snoc.IH snoc.prems step [of "map (enum_member ds) [0..<length ds]"] old by (simp add: rfold_append)
qed simp

lemma py_int0_error: "py_int0 s = Inl e \<Longrightarrow> e = ValueError s"
  by (auto simp: py_int0_def Let_def split: if_splits prod.splits)

lemma decl_steps_bad:
  assumes "list_ex bad_literal ds"
  shows "\<exists>m. rfold decl_step ds st = Inl (ValueError m)"
  using assms
proof (induction ds arbitrary: st)
  case (Cons x ds)
  obtain n e ms prev where x: "x = (n, e)" and st: "st = (ms, prev)" by (cases x; cases st) auto
  show ?case
  proof (cases "bad_literal x")
    case True
    then obtain y where y: "e = Some y" "is_int_literal y" "isl (py_int0 y)" using x by (auto simp: bad_literal_def split: option.splits)
    then obtain m where "py_int0 y = Inl (ValueError m)" using py_int0_error by (metis isl_def)
    then show ?thesis using x st y by (simp add: decl_step_def)
  next
    case False
    then have "list_ex bad_literal ds" using Cons.prems by simp
    moreover have "\<not> isl (decl_step x st)"
      using False x st
      by (cases e; cases prev; cases "py_int0 (the e)") (auto simp: decl_step_def bad_literal_def)
    ultimately show ?thesis using Cons.IH by (cases "decl_step x st") auto
  qed
qed simp

text \<open>
  C26: the members of an enum. Of every body, each declaration that is not blank becomes one
  member, in order. One that is written with an integer literal, or follows such a one with none
  but plain names between, or only plain names from the start, has the integer that counting on
  gives; one that is written with another expression has the expression, and plain names after it
  have no value until the next literal. A literal that the pattern accepts and \<^verbatim>\<open>int\<close> refuses, such as
  one with a leading zero, is a \<^verbatim>\<open>ValueError\<close>.
\<close>

theorem enum_values:
  "if list_ex bad_literal (enum_decls body) then \<exists>m. parse_enum_body body = Inl (ValueError m)
   else parse_enum_body body = Inr (map (enum_member (enum_decls body)) [0..<length (enum_decls body)])"
  using decl_steps [of "enum_decls body"] decl_steps_bad [of "enum_decls body" "([], Some (- 1))"]
  by (auto simp: parse_enum_body_def enum_values_decls enum_decls_def)

text \<open>Literals, expressions and plain names in one body.\<close>

lemma enum_values_mixed:
  "parse_enum_body '' LOW, OFF = 0x5, ON,, MASK = A | B, REST, '' = Inr [''LOW = 0'', ''OFF = 5'', ''ON = 6'', ''MASK = A | B'', ''REST'']"
  "parse_enum_body ''A = 010'' = Inl (ValueError ''010'')"
  by code_simp+

end
