(* ===== verification/Cli_Props.thy ===== *)
theory Cli_Props
  imports Ops Logger_Model Surface_Props
begin

text \<open>
  The properties of the command lines, \<^verbatim>\<open>host/aidl_ops.py\<close> and \<^verbatim>\<open>main\<close> of \<^verbatim>\<open>host/aidl_surface.py\<close>.
\<close>

section \<open>Options\<close>

text \<open>The operation an option asks for.\<close>

definition operation_of :: "string \<Rightarrow> string option" where
  "operation_of opt =
     (if opt \<in> {''-u'', ''--update_api''} then Some ''update_api''
      else if opt \<in> {''-f'', ''--freeze_api''} then Some ''freeze_api''
      else if opt \<in> {''-g'', ''--generate_source''} then Some ''generate_source''
      else if opt \<in> {''-a'', ''--generate_deps''} then Some ''generate_deps''
      else None)"

definition operations :: "(string \<times> string) list \<Rightarrow> string list" where
  "operations opts = List.map_filter (\<lambda>(opt, a). operation_of opt) opts"

lemma operations_Cons: "operations (x # opts) = (case operation_of (fst x) of None \<Rightarrow> operations opts | Some n \<Rightarrow> n # operations opts)"
  by (simp add: operations_def List.map_filter_def split_beta split: option.split)

lemma ops_option_operation:
  assumes "operation_of opt = Some n"
  shows "ops_option realpath fs (opt, a) st = Inr (choose_operation n st)"
proof -
  consider "opt = ''-u''" | "opt = ''--update_api''" | "opt = ''-f''" | "opt = ''--freeze_api''"
    | "opt = ''-g''" | "opt = ''--generate_source''" | "opt = ''-a''" | "opt = ''--generate_deps''"
    using assms unfolding operation_of_def by (metis insertE option.distinct(1) singletonD)
  then show ?thesis
    by cases (use assms in \<open>auto simp: ops_option_def operation_of_def\<close>)
qed

lemma ops_option_other:
  assumes "operation_of opt = None"
  shows "(\<exists>k \<in> {0, 1}. ops_option realpath fs (opt, a) st = Inl (SystemExit k)) \<or>
    (\<exists>st'. ops_option realpath fs (opt, a) st = Inr st' \<and> op_operation st' = op_operation st \<and> op_error st' = op_error st)"
proof -
  have "opt \<notin> {''-u'', ''--update_api'', ''-f'', ''--freeze_api'', ''-g'', ''--generate_source'', ''-a'', ''--generate_deps''}"
    using assms unfolding operation_of_def by (metis insert_iff option.distinct(1) empty_iff)
  then show ?thesis by (simp add: ops_option_def)
qed

lemma ops_option_cases:
  assumes "ops_option realpath fs x st = r"
  shows "(\<exists>k \<in> {0, 1}. r = Inl (SystemExit k)) \<or>
    (\<exists>st'. r = Inr st' \<and> (case operation_of (fst x) of
       None \<Rightarrow> op_operation st' = op_operation st \<and> op_error st' = op_error st
     | Some n \<Rightarrow> if op_operation st = None then op_operation st' = Some n \<and> op_error st' = op_error st
         else op_operation st' = op_operation st \<and> op_error st'))"
proof (cases "operation_of (fst x)")
  case None
  then show ?thesis using assms ops_option_other [OF None, of realpath fs "snd x" st] by simp
next
  case (Some n)
  then have "r = Inr (choose_operation n st)"
    using assms ops_option_operation [OF Some, of realpath fs "snd x" st] by simp
  then show ?thesis using Some by (simp add: choose_operation_def)
qed

lemma ops_options:
  assumes "rfold (ops_option realpath fs) opts st = r"
  shows "(\<exists>k \<in> {0, 1}. r = Inl (SystemExit k)) \<or>
    (\<exists>st'. r = Inr st' \<and> (case op_operation st of
       None \<Rightarrow> op_operation st' = (case operations opts of [] \<Rightarrow> None | n # _ \<Rightarrow> Some n) \<and>
         (op_error st' \<longleftrightarrow> op_error st \<or> length (operations opts) > 1)
     | Some m \<Rightarrow> op_operation st' = Some m \<and> (op_error st' \<longleftrightarrow> op_error st \<or> operations opts \<noteq> [])))"
  using assms
proof (induction opts arbitrary: st)
  case Nil
  then show ?case by (auto simp: operations_def List.map_filter_def split: option.splits)
next
  case (Cons x opts)
  show ?case
  proof (cases "ops_option realpath fs x st")
    case (Inl e)
    then show ?thesis using ops_option_cases [OF Inl] Cons.prems by auto
  next
    case (Inr st1)
    have r: "rfold (ops_option realpath fs) opts st1 = r" using Cons.prems Inr by simp
    show ?thesis
      using ops_option_cases [OF Inr] Cons.IH [OF r]
      by (cases "operation_of (fst x)"; cases "op_operation st") (auto simp: operations_Cons split: if_splits)
  qed
qed

text \<open>
  C31: the command line is refused with exit status 0 (help), 1 or 2, or it is accepted with exactly
  one operation, at least one root directory, and exactly one interface name unless the operation
  is the generation of the build order.
\<close>

theorem command_line_accepted:
  "case ops_parse env fs argv of
     Inl e \<Rightarrow> \<exists>k \<in> {0, 1, 2}. e = SystemExit k
   | Inr (st, args) \<Rightarrow> \<exists>opts name. getopt OPS_SHORTS OPS_LONGS [] argv = Inr (opts, args) \<and> operations opts = [name] \<and>
       op_operation st = Some name \<and> op_roots st \<noteq> [] \<and> (name = ''generate_deps'' \<or> length args = 1)"
proof (cases "getopt OPS_SHORTS OPS_LONGS [] argv")
  case (Inl e)
  then show ?thesis by (simp add: ops_parse_def parse_options_def)
next
  case (Inr p)
  obtain opts args where p: "p = (opts, args)" by (cases p)
  let ?st0 = "\<lparr>op_operation = None, op_roots = [], op_out_dir = oe_out_dir env, op_gen_dir = None,
    op_version = None, op_error = False\<rparr>"
  show ?thesis
  proof (cases "rfold (ops_option (oe_realpath env) fs) opts ?st0")
    case (Inl e)
    then show ?thesis using Inr p ops_options [OF Inl] by (auto simp: ops_parse_def parse_options_def)
  next
    case st: (Inr st)
    then have s: "op_operation st = (case operations opts of [] \<Rightarrow> None | n # _ \<Rightarrow> Some n)"
      "op_error st \<longleftrightarrow> length (operations opts) > 1"
      using ops_options [OF st] by auto
    consider "operations opts = []" | n where "operations opts = [n]" | n m ns where "operations opts = n # m # ns"
      by (metis list.exhaust)
    then show ?thesis
      by cases (use Inr p st s in \<open>auto simp: ops_parse_def parse_options_def Let_def\<close>)
  qed
qed

section \<open>The surface gate on the command line\<close>

text \<open>
  C32: \<^verbatim>\<open>diff-surface\<close> on two files with dumps of well-formed surfaces ends with status 0 and changes
  nothing, and the first line it prints is the verdict: \<^verbatim>\<open>breaking\<close> exactly when the new surface is not
  compatible with the old one, \<^verbatim>\<open>none\<close> when they are compatible with each other, else \<^verbatim>\<open>major\<close>.
\<close>

theorem diff_surface_command:
  assumes "map_of (w_fs w) p = Some (FFile (render_surface old))" "map_of (w_fs w) q = Some (FFile (render_surface new))"
    and "wf_surface old" "wf_surface new" "well_named_surface old" "well_named_surface new"
    and "p \<noteq> ''--json''" "q \<noteq> ''--json''"
  shows "\<exists>rest. surface_main doc [''diff-surface'', p, q] w =
    (Inr (0, ''class: '' @ (if \<not> compatible old new then ''breaking''
       else if compatible new old then ''none'' else ''major'') @ [chr_nl] @ rest), w)"
proof -
  have r: "read_dump (w_fs w) p = Some (render_surface old)" "read_dump (w_fs w) q = Some (render_surface new)"
    using assms(1,2) render_no_cr [OF assms(3)] render_no_cr [OF assms(4)]
    by (simp_all add: read_dump_def node_text_def universal_newlines_id)
  obtain es where d: "diff_surface (render_surface old) (render_surface new) = Inr (verdict old new, es)"
    using diff_render [OF assms(3-6)] by blast
  have "surface_main doc [''diff-surface'', p, q] w = (Inr (0, report_text False (verdict old new, es)), w)"
    using r d assms(7,8) by (simp add: surface_main_def diff_command_def io_bind_def io_gets_def io_return_def)
  then show ?thesis by (auto simp: report_text_def verdict_def)
qed

theorem diff_surface_command_witness:
  "\<exists>rest. surface_main [] [''diff-surface'', ''a'', ''b'']
      \<lparr>w_fs = [(''a'', FFile (render_surface old_api)), (''b'', FFile (render_surface new_api))], w_rec = 0\<rparr> =
    (Inr (0, ''class: major'' @ [chr_nl] @ rest),
     \<lparr>w_fs = [(''a'', FFile (render_surface old_api)), (''b'', FFile (render_surface new_api))], w_rec = 0\<rparr>)"
  using diff_surface_command [of "\<lparr>w_fs = [(''a'', FFile (render_surface old_api)), (''b'', FFile (render_surface new_api))], w_rec = 0\<rparr>"
      "''a''" old_api "''b''" new_api "[]", OF _ _ api_wf] api_compatible by simp

end
