(* ===== verification/Import_Modes.thy ===== *)
theory Import_Modes
  imports Import_Graph
begin

text \<open>
  Resolution of imports in every mode. A node is an interface at a version; one visit of
  \<^verbatim>\<open>process_imports\<close> leads from a node to the nodes of its imports, which the mode determines: the
  versions under development, the latest frozen ones, or those an interface was frozen with. A
  resolution that meets no obstacle returns, whatever the compiler writes, and the dependencies
  it lists are the interfaces of the nodes that can be reached, each at the highest version.
\<close>

section \<open>Nodes\<close>

definition import_nodes :: "string \<Rightarrow> AidlInterface dict \<Rightarrow> string dict \<Rightarrow> (string \<times> string) set" where
  "import_nodes mode d imps = {(m, u). \<exists>pin j. (m, pin) \<in> set imps \<and> map_of d m = Some j \<and> import_version mode j pin = Inr u}"

definition visit_edges :: "string \<Rightarrow> AidlInterface dict \<Rightarrow> ((string \<times> string) \<times> (string \<times> string)) set" where
  "visit_edges mode d = {((n, v), x). \<exists>i imps. map_of d n = Some i \<and> imports_of mode 2 i v = Inr imps \<and> x \<in> import_nodes mode d imps}"

text \<open>Every import is a known interface, and the mode gives a version for it.\<close>

definition imports_known :: "string \<Rightarrow> AidlInterface dict \<Rightarrow> string dict \<Rightarrow> bool" where
  "imports_known mode d imps \<longleftrightarrow> list_all (\<lambda>(m, pin). case map_of d m of None \<Rightarrow> False
     | Some j \<Rightarrow> \<not> isl (import_version mode j pin)) imps"

text \<open>A node that can be visited: it is stored under its name, its directory is there, its version is a number, its imports are found.\<close>

definition node_ok :: "string \<Rightarrow> AidlInterface dict \<Rightarrow> fs \<Rightarrow> string \<times> string \<Rightarrow> bool" where
  "node_ok mode d fs x = (case map_of d (fst x) of None \<Rightarrow> False
     | Some i \<Rightarrow> base_name i = fst x \<and> \<not> isl (py_int (snd x)) \<and>
         (case next_version i of Inl _ \<Rightarrow> False | Inr nv \<Rightarrow> path_exists fs (import_dir i nv (snd x))) \<and>
         (case imports_of mode 2 i (snd x) of Inl _ \<Rightarrow> False | Inr imps \<Rightarrow> imports_known mode d imps))"

lemma node_okE:
  assumes "node_ok mode d fs (n, v)"
  obtains i nv imps k where "map_of d n = Some i" "base_name i = n" "py_int v = Inr k" "next_version i = Inr nv"
    "path_exists fs (import_dir i nv v)" "imports_of mode 2 i v = Inr imps" "imports_known mode d imps"
  using assms by (auto simp: node_ok_def not_isl_iff split: option.splits sum.splits)

lemma node_ok_grows: "node_ok mode d fs x \<Longrightarrow> grows fs fs' \<Longrightarrow> node_ok mode d fs' x"
  by (auto simp: node_ok_def grows_def split: option.splits sum.splits)

lemma grows_refl [simp]: "grows fs fs"
  by (simp add: grows_def)

lemma grows_trans: "grows fs1 fs2 \<Longrightarrow> grows fs2 fs3 \<Longrightarrow> grows fs1 fs3"
  by (simp add: grows_def)

text \<open>Only the first visit differs in the \<^verbatim>\<open>latest\<close> mode.\<close>

lemma imports_of_nested: "c \<noteq> 1 \<Longrightarrow> imports_of mode c i v = imports_of mode 2 i v"
  by (simp add: imports_of_def)

section \<open>There are finitely many nodes\<close>

lemma finite_import_nodes: "finite (import_nodes mode d imps)"
proof -
  have "import_nodes mode d imps \<subseteq> (\<lambda>(m, pin). (m, projr (import_version mode (the (map_of d m)) pin))) ` set imps"
    by (force simp: import_nodes_def)
  then show ?thesis by (rule finite_subset) simp
qed

lemma finite_ran_map_of: "finite (ran (map_of xs))"
  by (rule finite_subset [of _ "snd ` set xs"]) (force simp: ran_def dest: map_of_SomeD, simp)

lemma finite_get_imports: "finite {imps. \<exists>v. get_imports i v = Inr imps}"
proof -
  let ?next = "dict_of (map (\<lambda>imp. (imp, import_pin i imp)) (iface_imports i))"
  have "{imps. \<exists>v. get_imports i v = Inr imps} \<subseteq>
      insert ?next ((\<lambda>vs. dict_of (map split_versioned vs)) ` ran (map_of (versions_with_info i)))"
    by (auto simp: get_imports_def ran_def rbind_eq_Inr split: option.splits if_splits)
  then show ?thesis by (rule finite_subset) (simp add: finite_ran_map_of)
qed

lemma imports_of_get:
  "imports_of mode c i v = Inr imps \<Longrightarrow> imps = [] \<or> (\<exists>v'. get_imports i v' = Inr imps)"
  by (auto simp: imports_of_def rbind_eq_Inr split: if_splits)

lemma finite_visit_edges: "finite (Range (visit_edges mode d))"
proof -
  let ?I = "\<lambda>i. insert [] {imps. \<exists>v. get_imports i v = Inr imps}"
  have "Range (visit_edges mode d) \<subseteq> (\<Union>i \<in> ran (map_of d). \<Union>imps \<in> ?I i. import_nodes mode d imps)"
  proof
    fix x assume "x \<in> Range (visit_edges mode d)"
    then obtain n v i imps where x: "map_of d n = Some i" "imports_of mode 2 i v = Inr imps" "x \<in> import_nodes mode d imps"
      by (auto simp: visit_edges_def)
    then have "i \<in> ran (map_of d)" "imps \<in> ?I i" using imports_of_get by (auto simp: ran_def)
    then show "x \<in> (\<Union>i \<in> ran (map_of d). \<Union>imps \<in> ?I i. import_nodes mode d imps)" using x(3) by blast
  qed
  then show ?thesis
    by (rule finite_subset) (intro finite_UN_I finite_ran_map_of finite.insertI finite_get_imports finite_import_nodes)
qed

lemma finite_reach: "finite ((visit_edges mode d)\<^sup>+ `` S)"
  by (rule finite_subset [OF _ finite_visit_edges]) (auto dest: tranclD2)

section \<open>The list of dependencies\<close>

abbreviation version_number :: "string \<Rightarrow> int" where
  "version_number v \<equiv> projr (py_int v)"

text \<open>An entry has the directories of the interface at its version.\<close>

definition dep_entry :: "AidlInterface dict \<Rightarrow> string \<Rightarrow> dep_info \<Rightarrow> bool" where
  "dep_entry d m x \<longleftrightarrow> (\<exists>j nv. map_of d m = Some j \<and> next_version j = Inr nv \<and>
     x = \<lparr>di_version = di_version x, di_preprocessed = get_preprocessed_dir j (di_version x), di_import = import_dir j nv (di_version x)\<rparr>)"

text \<open>The dependencies stand for a set of nodes: its interfaces, each at the highest version.\<close>

definition represents :: "AidlInterface dict \<Rightarrow> dep_info dict \<Rightarrow> (string \<times> string) set \<Rightarrow> bool" where
  "represents d D N \<longleftrightarrow> wf_dict D \<and> set (dict_keys D) = fst ` N \<and> (\<forall>x \<in> N. \<not> isl (py_int (snd x))) \<and>
     (\<forall>m x. map_of D m = Some x \<longrightarrow> dep_entry d m x \<and> (m, di_version x) \<in> N \<and> (\<forall>u. (m, u) \<in> N \<longrightarrow> version_number u \<le> version_number (di_version x)))"

lemma represents_Nil: "represents d [] {}"
  by (simp add: represents_def)

lemma wf_dict_del: "wf_dict D \<Longrightarrow> wf_dict (dict_del k D)"
  unfolding wf_dict_def dict_del_def by (rule distinct_map_filter)

lemma map_of_dict_del: "map_of (dict_del k D) m = (if m = k then None else map_of D m)"
  by (induction D) (auto simp: dict_del_def)

lemma represents_store:
  assumes "represents d D N" "\<not> isl (py_int v)" "di_version x = v" "dep_entry d n x" "\<And>u. (n, u) \<in> N \<Longrightarrow> version_number u \<le> version_number v"
    and D': "D' = D \<or> D' = dict_del n D"
  shows "represents d (dict_set n x D') (insert (n, v) N)"
proof -
  have m: "map_of (dict_set n x D') m = (if m = n then Some x else map_of D m)" for m
    using D' by (auto simp: map_of_dict_del)
  have "set (dict_keys (dict_set n x D')) = insert n (set (dict_keys D))"
    by (intro set_eqI) (auto simp only: in_keys_iff m insert_iff split: if_splits)
  then show ?thesis
    using assms m wf_dict_del [of D n] unfolding represents_def by (auto simp del: set_map)
qed

text \<open>Adding a dependency adds its node.\<close>

lemma add_dependency_represents:
  assumes t: "aidl_accepts t" and ok: "node_ok mode d (w_fs w) (n, v)" and i: "map_of d n = Some i" and L: "represents d (ad_deps ad) N"
  obtains D w' where "add_dependency t i v ad w = (Inr (ad\<lparr>ad_deps := D\<rparr>), w')" "w_rec w' = w_rec w"
    "grows (w_fs w) (w_fs w')" "represents d D (insert (n, v) N)"
proof -
  obtain nv k where o: "base_name i = n" "py_int v = Inr k" "next_version i = Inr nv" "path_exists (w_fs w) (import_dir i nv v)"
    using ok i by (auto elim!: node_okE)
  define x where "x = \<lparr>di_version = v, di_preprocessed = get_preprocessed_dir i v, di_import = import_dir i nv v\<rparr>"
  have x: "dep_entry d n x" "di_version x = v" using i o(3) by (simp_all add: x_def dep_entry_def)
  have store: "\<exists>w'. store_dependency t i v ad' w = (Inr (ad'\<lparr>ad_deps := dict_set n x (ad_deps ad')\<rparr>), w') \<and>
      w_rec w' = w_rec w \<and> grows (w_fs w) (w_fs w')" for ad'
    using gen_preprocessed_returns [OF t o(3,4), of "ad_deps ad'"] o(1,3)
    by (auto simp: store_dependency_def io_bind_def io_return_def x_def)
  show thesis
  proof (cases "map_of (ad_deps ad) n")
    case None
    then have "n \<notin> fst ` N" using L in_keys_iff [of n "ad_deps ad"] by (simp add: represents_def del: set_map)
    then have "represents d (dict_set n x (ad_deps ad)) (insert (n, v) N)"
      by (intro represents_store [OF L]) (use o(2) x in force)+
    then show thesis using that store [of ad] None o(1) by (auto simp: add_dependency_def)
  next
    case (Some y)
    then have y: "(n, di_version y) \<in> N" "\<And>u. (n, u) \<in> N \<Longrightarrow> version_number u \<le> version_number (di_version y)" using L by (auto simp: represents_def)
    then obtain l where l: "py_int (di_version y) = Inr l" using L by (force simp: represents_def not_isl_iff)
    show thesis
    proof (cases "l \<ge> k")
      case True
      then have "represents d (ad_deps ad) (insert (n, v) N)"
        using L y Some o(2) l image_eqI [OF _ y(1), of n fst] unfolding represents_def by (auto simp: insert_absorb simp del: set_map)
      then show thesis using that [of "ad_deps ad" w] Some True o l by (simp add: add_dependency_def io_return_def)
    next
      case False
      then have "represents d (dict_set n x (dict_del n (ad_deps ad))) (insert (n, v) N)"
        using y l o(2) by (intro represents_store [OF L]) (auto simp: x dest!: y(2))
      then show thesis
        using that store [of "ad\<lparr>ad_deps := dict_del n (ad_deps ad)\<rparr>"] Some False o l by (auto simp: add_dependency_def)
    qed
  qed
qed

section \<open>Visits\<close>

text \<open>What a finished part of a resolution has done: the counter is back and the nodes are listed.\<close>

definition listed :: "AidlInterface dict \<Rightarrow> string \<Rightarrow> fs \<Rightarrow> int \<Rightarrow> (string \<times> string) set \<Rightarrow> ApiDependencies \<Rightarrow> world \<Rightarrow> bool" where
  "listed d mode fs k N ad w \<longleftrightarrow> w_rec w = k \<and> grows fs (w_fs w) \<and> ad_type ad = mode \<and> represents d (ad_deps ad) N"

lemma Image_insert_both: "r `` insert x A = r `` A \<union> r `` {x}"
  by auto

text \<open>The loop over the imports, given that each of them can be visited.\<close>

lemma visit_loop:
  assumes found: "imports_known mode d imps"
    and visit: "\<And>m u j a v N. (m, u) \<in> import_nodes mode d imps \<Longrightarrow> map_of d m = Some j \<Longrightarrow>
      listed d mode fs k N a v \<Longrightarrow> ad_version a = u \<Longrightarrow>
      \<exists>a' v'. process_imports t limit j d a v = (Inr a', v') \<and> listed d mode fs k (N \<union> (visit_edges mode d)\<^sup>* `` {(m, u)}) a' v'"
    and st: "listed d mode fs k N ad w"
  shows "\<exists>ad' w'. io_fold (import_step (\<lambda>j. process_imports t limit j d) d) imps ad w = (Inr ad', w') \<and>
    listed d mode fs k (N \<union> (visit_edges mode d)\<^sup>* `` import_nodes mode d imps) ad' w'" (is "\<exists>ad' w'. io_fold ?f _ _ _ = _ \<and> _")
proof (rule io_fold_steps [where P = "\<lambda>us a v. listed d mode fs k (N \<union> (visit_edges mode d)\<^sup>* `` import_nodes mode d us) a v"])
  show "listed d mode fs k (N \<union> (visit_edges mode d)\<^sup>* `` import_nodes mode d []) ad w" using st by (simp add: import_nodes_def)
  fix us x vs a v
  let ?N = "N \<union> (visit_edges mode d)\<^sup>* `` import_nodes mode d us"
  assume split: "imps = us @ x # vs" and P: "listed d mode fs k ?N a v"
  obtain m pin where x: "x = (m, pin)" by fastforce
  obtain j u where j: "map_of d m = Some j" "import_version mode j pin = Inr u"
    using found split x by (auto simp: imports_known_def not_isl_iff split: option.splits)
  let ?a = "a\<lparr>ad_version := u, ad_name := base_name j\<rparr>"
  have node: "(m, u) \<in> import_nodes mode d imps" using j x split by (auto simp: import_nodes_def)
  have "listed d mode fs k ?N ?a v" using P by (simp add: listed_def)
  then have "\<exists>a' v'. process_imports t limit j d ?a v = (Inr a', v') \<and>
      listed d mode fs k (?N \<union> (visit_edges mode d)\<^sup>* `` {(m, u)}) a' v'"
    by (rule visit [OF node j(1)]) simp
  then obtain a' v' where r: "process_imports t limit j d ?a v = (Inr a', v')"
    "listed d mode fs k (?N \<union> (visit_edges mode d)\<^sup>* `` {(m, u)}) a' v'" by blast
  have "?f x a v = (Inr a', v')" using r(1) j P x by (simp add: dict_get_def listed_def)
  moreover have "import_nodes mode d (us @ [x]) = insert (m, u) (import_nodes mode d us)"
    using j x by (auto simp: import_nodes_def)
  then have "?N \<union> (visit_edges mode d)\<^sup>* `` {(m, u)} = N \<union> (visit_edges mode d)\<^sup>* `` import_nodes mode d (us @ [x])"
    using Image_insert_both [of "(visit_edges mode d)\<^sup>*" "(m, u)" "import_nodes mode d us"] by (simp only: Un_assoc)
  ultimately show "\<exists>a' v'. ?f x a v = (Inr a', v') \<and> listed d mode fs k (N \<union> (visit_edges mode d)\<^sup>* `` import_nodes mode d (us @ [x])) a' v'"
    using r(2) by metis
qed

text \<open>The nodes one visit leads to.\<close>

lemma visit_edges_Image:
  "map_of d n = Some i \<Longrightarrow> imports_of mode 2 i v = Inr imps \<Longrightarrow> visit_edges mode d `` {(n, v)} = import_nodes mode d imps"
  by (auto simp: visit_edges_def)

lemma visit_returns:
  assumes "aidl_accepts t"
    and "map_of d n = Some i" "\<forall>x \<in> (visit_edges mode d)\<^sup>* `` {(n, v)}. node_ok mode d fs x"
      "loop_free (visit_edges mode d) (n, v)" "reach_rank (visit_edges mode d) (n, v) < limit"
    and "k \<ge> 1" "listed d mode fs k N ad w" "ad_version ad = v"
  shows "\<exists>ad' w'. process_imports t limit i d ad w = (Inr ad', w') \<and> listed d mode fs k (N \<union> (visit_edges mode d)\<^sup>* `` {(n, v)}) ad' w'"
  using assms(2-)
proof (induction limit arbitrary: n v i N ad w k)
  case (Suc limit)
  let ?E = "visit_edges mode d"
  note i = Suc.prems(1) and st = Suc.prems(6) [unfolded listed_def]
  have ok: "node_ok mode d fs (n, v)" using Suc.prems(2) by blast
  then obtain imps where imps: "imports_of mode 2 i v = Inr imps" "imports_known mode d imps" and base: "base_name i = n"
    using i by (auto elim!: node_okE)
  note nodes = visit_edges_Image [OF i imps(1)]
  have visit: "\<exists>a' v'. process_imports t limit j d a b = (Inr a', v') \<and> listed d mode fs (k + 1) (M \<union> ?E\<^sup>* `` {(m, u)}) a' v'"
    if x: "(m, u) \<in> import_nodes mode d imps" "map_of d m = Some j" "listed d mode fs (k + 1) M a b" "ad_version a = u" for m u j a b M
  proof (rule Suc.IH [OF x(2) _ _ _ _ x(3,4)])
    have e: "((n, v), (m, u)) \<in> ?E" using x(1) nodes by blast
    show "\<forall>y \<in> ?E\<^sup>* `` {(m, u)}. node_ok mode d fs y"
      using Suc.prems(2) e by (auto intro: converse_rtrancl_into_rtrancl)
    show "loop_free ?E (m, u)" by (rule loop_free_step [OF Suc.prems(3) e])
    show "reach_rank ?E (m, u) < limit" using reach_rank_less [OF Suc.prems(3) e finite_reach] Suc.prems(4) by simp
    show "k + 1 \<ge> 1" using Suc.prems(5) by simp
  qed
  have "listed d mode fs (k + 1) N ad (w\<lparr>w_rec := k + 1\<rparr>)" using st by (simp add: listed_def)
  then have "\<exists>a1 w1. io_fold (import_step (\<lambda>j. process_imports t limit j d) d) imps ad (w\<lparr>w_rec := k + 1\<rparr>) = (Inr a1, w1) \<and>
      listed d mode fs (k + 1) (N \<union> ?E\<^sup>* `` import_nodes mode d imps) a1 w1"
    by (rule visit_loop [OF imps(2), rotated]) (rule visit)
  then obtain a1 w1 where
    loop: "io_fold (import_step (\<lambda>j. process_imports t limit j d) d) imps ad (w\<lparr>w_rec := k + 1\<rparr>) = (Inr a1, w1)"
    and l1: "listed d mode fs (k + 1) (N \<union> ?E\<^sup>* `` import_nodes mode d imps) a1 w1" by blast
  have g: "grows fs (w_fs w1)" "represents d (ad_deps a1) (N \<union> ?E\<^sup>* `` import_nodes mode d imps)" using l1 by (simp_all add: listed_def)
  obtain D w2 where add: "add_dependency t i v a1 w1 = (Inr (a1\<lparr>ad_deps := D\<rparr>), w2)" "w_rec w2 = w_rec w1"
    "grows (w_fs w1) (w_fs w2)" "represents d D (insert (n, v) (N \<union> ?E\<^sup>* `` import_nodes mode d imps))"
    by (rule add_dependency_represents [OF assms(1) node_ok_grows [OF ok g(1)] i g(2)])
  have "process_imports t (Suc limit) i d ad w =
      (Inr (a1\<lparr>ad_deps := D, ad_version := v, ad_name := base_name i\<rparr>), w2\<lparr>w_rec := k\<rparr>)"
    using st Suc.prems(5,7) imports_of_nested [of "k + 1" mode i v] imps(1) loop l1 add(1,2)
    by (simp add: rec_add_def rec_get_def io_res_def io_bind_def io_return_def listed_def)
  moreover have "insert (n, v) (N \<union> ?E\<^sup>* `` import_nodes mode d imps) = N \<union> ?E\<^sup>* `` {(n, v)}"
    using rtrancl_Image_unfold [of ?E "(n, v)"] nodes by simp
  ultimately show ?case using add l1 grows_trans [OF g(1) add(3)] by (auto simp: listed_def)
qed simp

section \<open>Dependencies of an interface\<close>

text \<open>The mode in which the dependencies of a version are resolved.\<close>

definition dep_mode :: "string \<Rightarrow> string \<Rightarrow> bool \<Rightarrow> string" where
  "dep_mode nv version is_freeze = (if version = nv then (if is_freeze then ''latest'' else ''next'') else ''frozen'')"

text \<open>The nodes that the resolution visits for a version, and that nothing is in its way.\<close>

definition needed :: "AidlInterface dict \<Rightarrow> string \<Rightarrow> string dict \<Rightarrow> (string \<times> string) set" where
  "needed d mode imps = (visit_edges mode d)\<^sup>* `` import_nodes mode d imps"

definition resolvable :: "AidlInterface dict \<Rightarrow> fs \<Rightarrow> nat \<Rightarrow> string \<Rightarrow> string dict \<Rightarrow> bool" where
  "resolvable d fs limit mode imps \<longleftrightarrow> imports_known mode d imps \<and> card (needed d mode imps) < limit \<and>
     (\<forall>x \<in> needed d mode imps. node_ok mode d fs x \<and> (x, x) \<notin> (visit_edges mode d)\<^sup>+)"

lemma resolvable_grows: "resolvable d fs limit mode imps \<Longrightarrow> grows fs fs' \<Longrightarrow> resolvable d fs' limit mode imps"
  using node_ok_grows by (auto simp: resolvable_def)

lemma finite_needed: "finite (needed d mode imps)"
proof -
  have "needed d mode imps = import_nodes mode d imps \<union> (visit_edges mode d)\<^sup>+ `` import_nodes mode d imps"
    by (auto simp: needed_def rtrancl_eq_or_trancl)
  then show ?thesis by (simp add: finite_import_nodes finite_reach)
qed

lemma get_dependencies_listed:
  assumes "aidl_accepts t" "w_rec w = 0" "next_version i = Inr nv" "version \<noteq> []"
    and "imports_of (dep_mode nv version fz) 1 i version = Inr imps"
    and "resolvable d (w_fs w) limit (dep_mode nv version fz) imps"
  shows "\<exists>D w'. get_dependencies t limit i d version fz w = (Inr (list_dependencies D), w') \<and> w_rec w' = 0 \<and>
    grows (w_fs w) (w_fs w') \<and> represents d D (needed d (dep_mode nv version fz) imps)"
proof -
  define mode where "mode = dep_mode nv version fz"
  let ?E = "visit_edges mode d"
  let ?V = "needed d mode imps"
  have r: "imports_known mode d imps" "card ?V < limit" "\<And>x. x \<in> ?V \<Longrightarrow> node_ok mode d (w_fs w) x \<and> (x, x) \<notin> ?E\<^sup>+"
    using assms(6) by (auto simp: resolvable_def mode_def)
  obtain l where l: "limit = Suc l" using r(2) by (cases limit) auto
  let ?ad = "\<lparr>ad_name = base_name i, ad_version = version, ad_type = mode, ad_deps = []\<rparr>"
  have visit: "\<exists>a' v'. process_imports t l j d a b = (Inr a', v') \<and> listed d mode (w_fs w) 1 (M \<union> ?E\<^sup>* `` {(m, u)}) a' v'"
    if x: "(m, u) \<in> import_nodes mode d imps" "map_of d m = Some j" "listed d mode (w_fs w) 1 M a b" "ad_version a = u" for m u j a b M
  proof (rule visit_returns [OF assms(1) x(2) _ _ _ _ x(3,4)])
    have V: "y \<in> ?V" if "((m, u), y) \<in> ?E\<^sup>*" for y using that x(1) by (auto simp: needed_def)
    show "\<forall>y \<in> ?E\<^sup>* `` {(m, u)}. node_ok mode d (w_fs w) y" "loop_free ?E (m, u)" using r(3) V by (auto simp: loop_free_def)
    have "?E\<^sup>+ `` {(m, u)} \<subseteq> ?V" using V by (auto dest: trancl_into_rtrancl)
    moreover have "(m, u) \<in> ?V - ?E\<^sup>+ `` {(m, u)}" using V r(3) [of "(m, u)"] by blast
    ultimately have "?E\<^sup>+ `` {(m, u)} \<subset> ?V" by blast
    then have "reach_rank ?E (m, u) < card ?V" unfolding reach_rank_def by (rule psubset_card_mono [OF finite_needed])
    then show "reach_rank ?E (m, u) < l" using r(2) l by simp
  qed simp
  have "listed d mode (w_fs w) 1 {} ?ad (w\<lparr>w_rec := 1\<rparr>)" by (simp add: listed_def represents_Nil)
  then have "\<exists>a1 w1. io_fold (import_step (\<lambda>j. process_imports t l j d) d) imps ?ad (w\<lparr>w_rec := 1\<rparr>) = (Inr a1, w1) \<and>
      listed d mode (w_fs w) 1 ({} \<union> ?E\<^sup>* `` import_nodes mode d imps) a1 w1"
    by (rule visit_loop [OF r(1), rotated]) (rule visit)
  then obtain a1 w1 where
    loop: "io_fold (import_step (\<lambda>j. process_imports t l j d) d) imps ?ad (w\<lparr>w_rec := 1\<rparr>) = (Inr a1, w1)"
    and l1: "listed d mode (w_fs w) 1 ?V a1 w1" unfolding needed_def by auto
  have "process_imports t limit i d ?ad w = (Inr a1, w1\<lparr>w_rec := 0\<rparr>)"
    using assms(2,5) loop l1 unfolding l mode_def [symmetric]
    by (simp add: rec_add_def rec_get_def io_res_def io_bind_def io_return_def listed_def)
  then have "get_dependencies t limit i d version fz w = (Inr (list_dependencies (ad_deps a1)), w1\<lparr>w_rec := 0\<rparr>)"
    using assms(3,4) unfolding mode_def dep_mode_def
    by (simp add: get_dependencies_def io_check_def io_bind_step io_return_def Let_def)
  then show ?thesis using l1 unfolding mode_def [symmetric] by (auto simp: listed_def)
qed

end
