(* ===== verification/Freeze_Facts.thy ===== *)
theory Freeze_Facts
  imports Api_Freeze
begin

text \<open>
  What an update and a freeze do to the stable tree: a rejected update leaves it alone, the hash
  written is the one the integrity check computes, and a frozen version is a copy of the current
  one that passes that check.
\<close>

section \<open>Hashes\<close>

text \<open>A version number is not the name of the version under development.\<close>

lemma str_of_nat_current: "str_of_nat k \<noteq> CURRENT_VERSION"
proof
  assume "str_of_nat k = CURRENT_VERSION"
  then have "CHR ''c'' \<in> set (str_of_nat k)" by (simp add: CURRENT_VERSION_def)
  then have "is_dec (CHR ''c'')" by (rule str_of_nat_digits)
  then show False by (simp add: is_dec_def)
qed

text \<open>What is known of \<^verbatim>\<open>sha1sum\<close>: it prints one non-empty word.\<close>

definition sha1_word :: "tools \<Rightarrow> bool" where
  "sha1_word t \<longleftrightarrow> (\<forall>s. t_sha1 t s \<noteq> [] \<and> (\<forall>c \<in> set (t_sha1 t s). \<not> is_ifs c))"

lemma last_line_snoc: "chr_nl \<notin> set h \<Longrightarrow> last_line (h @ [chr_nl]) = h"
proof -
  assume "chr_nl \<notin> set h"
  then have "takeWhile (\<lambda>c. c \<noteq> chr_nl) (rev h) = rev h" by (intro takeWhile_all) auto
  then show "last_line (h @ [chr_nl]) = h" by (simp add: last_line_def del: takeWhile_eq_all_conv)
qed

lemma hash_not_aidl: "\<not> py_endswith (d @ ''/.hash'') ''.aidl''"
  by (simp add: suffix_to_prefix)

abbreviation current_dir :: "AidlInterface \<Rightarrow> string" where
  "current_dir i \<equiv> get_versioned_dir i CURRENT_VERSION"

abbreviation current_hash :: "AidlInterface \<Rightarrow> string" where
  "current_hash i \<equiv> path_join (current_dir i) ''.hash''"

lemma current_hash_eq: "plain_dir (interface_root_stable i) \<Longrightarrow> current_hash i = current_dir i @ ''/.hash''"
  using path_join_plain [of "current_dir i" "''.hash''"] current_plain
  by (simp add: get_versioned_dir_def plain_name_def not_slash_def)

text \<open>Updating the hash changes the hash file only, and what it writes is intact.\<close>

lemma update_hash_ok:
  assumes "update_hash_for_current_api t i w = (Inr (), w')" "wf_dict (w_fs w)" "sha1_word t"
    "plain_dir (interface_root_stable i)"
  shows "\<And>p. p \<noteq> current_hash i \<Longrightarrow> map_of (w_fs w') p = map_of (w_fs w) p" "wf_dict (w_fs w')"
    "\<exists>nv hv. next_version i = Inr nv \<and> version_for_hashgen nv = Inr hv \<and>
      integrity_ok (t_sha1 t) (w_fs w') (current_dir i) hv (current_hash i)"
proof -
  let ?h = "current_hash i"
  obtain nv hv where v: "next_version i = Inr nv" "version_for_hashgen nv = Inr hv"
    using assms(1) by (auto simp: update_hash_for_current_api_def io_bind_Inr io_res_def)
  define fs1 where "fs1 = (if path_exists (w_fs w) ?h then os_remove ?h (w_fs w) else w_fs w)"
  have w': "w_fs w' = aidl_hash_gen t (current_dir i) hv ?h fs1"
    using assms(1) v by (auto simp: update_hash_for_current_api_def io_bind_def io_modify_def Let_def fs1_def)
  have fs1: "map_of fs1 p = (if p = ?h then None else map_of (w_fs w) p)" for p
    by (auto simp: fs1_def map_of_os_remove path_exists_def)
  have wf1: "wf_dict fs1"
    using assms(2) by (auto simp: fs1_def wf_dict_def os_remove_def intro: distinct_map_filter)
  show same: "\<And>p. p \<noteq> ?h \<Longrightarrow> map_of (w_fs w') p = map_of (w_fs w) p"
    unfolding w' aidl_hash_gen_def append_file_def by (simp add: fs1)
  show wf': "wf_dict (w_fs w')" unfolding w' aidl_hash_gen_def append_file_def using wf1 by simp
  have "map_of (w_fs w') ?h = Some (FFile (api_hash (t_sha1 t) fs1 (current_dir i) hv @ [chr_nl]))"
    unfolding w' aidl_hash_gen_def append_file_def by (simp add: fs1 the_default_def node_text_def)
  moreover have "api_hash (t_sha1 t) (w_fs w') (current_dir i) hv = api_hash (t_sha1 t) fs1 (current_dir i) hv"
  proof (rule api_hash_same(2) [OF wf1 wf'])
    fix p assume "py_endswith p ''.aidl''"
    then have "p \<noteq> ?h" using hash_not_aidl current_hash_eq [OF assms(4)] by metis
    then show "map_of (w_fs w') p = map_of fs1 p" using same fs1 by simp
  qed
  moreover have h: "api_hash (t_sha1 t) fs1 (current_dir i) hv \<noteq> []" "\<forall>c \<in> set (api_hash (t_sha1 t) fs1 (current_dir i) hv). \<not> is_ifs c"
    using assms(3) by (simp_all add: sha1_word_def api_hash_def)
  moreover have "chr_nl \<notin> set (api_hash (t_sha1 t) fs1 (current_dir i) hv)" using h(2) by (auto simp: is_ifs_def)
  ultimately have "integrity_ok (t_sha1 t) (w_fs w') (current_dir i) hv ?h"
    by (simp add: integrity_ok_def node_text_def last_line_snoc shell_words_single)
  then show "\<exists>nv hv. next_version i = Inr nv \<and> version_for_hashgen nv = Inr hv \<and>
      integrity_ok (t_sha1 t) (w_fs w') (current_dir i) hv ?h" using v by blast
qed

section \<open>Rejected updates\<close>

lemma pre_validate_same:
  assumes "plain_dir d" "aidl_frame t d" "outputs_outside i d"
  shows "io_keeps (same_below d) (pre_validate t limit i ds)"
proof -
  have c: "io_keeps (same_below d) (io_catch (io_bind (check_compatibility t limit i ds old new) (\<lambda>_. io_return ()))
      (\<lambda>e. if is_check_error e then io_raise (f e) else io_raise e))" for old new and f :: "py_error \<Rightarrow> py_error"
    unfolding check_compatibility_def
    using check_api_same [OF assms] by (intro below.keeps) (auto simp: below.keeps_pure)
  show ?thesis
    unfolding pre_validate_def Let_def split_beta by (auto intro!: below.keeps c)
qed

text \<open>The compiler finds one directory incompatible with another, whatever flags it is given.\<close>

definition aidl_rejects :: "tools \<Rightarrow> string \<Rightarrow> string \<Rightarrow> bool" where
  "aidl_rejects t old new \<longleftrightarrow>
     (\<forall>flags fs. fst (t_aidl t ([t_cmd_aidl t, ''--checkapi=compatible''] @ flags @ [old, new]) fs) \<noteq> 0)"

lemma check_compatibility_rejected:
  assumes "aidl_rejects t (du_api_dir old) (du_api_dir new)"
  shows "\<exists>e w'. check_compatibility t limit i ds old new w = (Inl e, w')"
proof -
  obtain r w1 where g: "get_dependencies t limit i ds (du_version new) False w = (r, w1)" by fastforce
  show ?thesis
  proof (cases r)
    case (Inl e)
    then show ?thesis using g by (simp add: check_compatibility_def check_api_def io_bind_fail)
  next
    case (Inr x)
    obtain deps imps l where x: "x = (deps, imps, l)" by (cases x) auto
    let ?flags = "stability_flag i @ map (\<lambda>dep. ''-p '' @ dep) deps"
    obtain rc fs' where rc: "t_aidl t ([t_cmd_aidl t, ''--checkapi=compatible''] @ ?flags @ [du_api_dir old, du_api_dir new])
        (w_fs w1) = (rc, fs')" by fastforce
    then have "rc \<noteq> 0" using assms unfolding aidl_rejects_def by (metis fst_conv)
    then show ?thesis using g Inr x rc
      by (simp add: check_compatibility_def check_api_def io_bind_step run_aidl_def io_bind_def io_check_def io_raise_def)
  qed
qed

lemma update_rejected:
  assumes "map_of ds n = Some i" "layout i \<noteq> ''module-local''" "next_version i = Inr nv"
    and "path_exists (w_fs w) (current_dir i)" "has_frozen_versions (w_fs w) i"
      "aidl_rejects t (current_dir i) (interface_root i)"
    and "plain_dir d" "aidl_frame t d" "outputs_outside i d"
  shows "\<exists>e w'. handle_update_api t limit n ds w = (Inl e, w') \<and> same_below d (w_fs w) (w_fs w')"
proof -
  let ?old = "dump_of (w_fs w) nv (current_dir i)"
    and ?new = "(dump_of (w_fs w) nv (interface_root i))\<lparr>du_hash_file := None\<rparr>"
  obtain r w1 where p: "pre_validate t limit i ds w = (r, w1)" by fastforce
  have "aidl_rejects t (du_api_dir ?old) (du_api_dir ?new)" using assms(6) by (simp add: dump_of_def)
  then obtain e w2 where "check_compatibility t limit i ds ?old ?new w = (Inl e, w2)"
    using check_compatibility_rejected by blast
  then have "\<exists>e. r = Inl e"
    using p assms(3-5) by (auto simp: pre_validate_def Let_def io_bind_def io_gets_def io_catch_def io_raise_def split: if_splits)
  then obtain e' where "r = Inl e'" by blast
  then have "handle_update_api t limit n ds w = (Inl e', w1)"
    using p assms(1,2) by (simp add: handle_update_api_def dict_get_def io_bind_fail)
  moreover have "same_below d (w_fs w) (w_fs w1)"
    using pre_validate_same [OF assms(7-9)] p by (auto simp: io_keeps_def)
  ultimately show ?thesis by blast
qed

section \<open>Successful updates\<close>

lemma fold_dict_set_wf: "wf_dict fs \<Longrightarrow> wf_dict (fold (\<lambda>(p, n). dict_set (f p) n) es fs)"
  by (induction es arbitrary: fs) auto

lemma copy_below_wf: "wf_dict fs \<Longrightarrow> wf_dict (copy_below keep src dst fs)"
  unfolding copy_below_def by (rule fold_dict_set_wf)

lemma makedirs_wf: "wf_dict fs \<Longrightarrow> wf_dict (os_makedirs p fs)"
  unfolding os_makedirs_def by (rule mkdirs_wf)

lemma move_suffix:
  assumes "under src p" "py_endswith p ''.aidl''"
  shows "py_endswith (move_path src dst p) ''.aidl''"
proof -
  obtain r where r: "p = src @ ''/'' @ r" using assms(1) by (auto simp: under_def prefix_def)
  then have "suffix (CHR ''/'' # r) p" by (simp add: suffix_def)
  then have "suffix ''.aidl'' (CHR ''/'' # r) \<or> suffix (CHR ''/'' # r) ''.aidl''"
    using assms(2) suffix_same_cases by blast
  moreover have "\<not> suffix (CHR ''/'' # r) ''.aidl''"
  proof
    assume "suffix (CHR ''/'' # r) ''.aidl''"
    then have "CHR ''/'' \<in> set ''.aidl''" by (meson list.set_intros(1) set_mono_suffix subsetD)
    then show False by simp
  qed
  ultimately have "suffix ''.aidl'' (CHR ''/'' # r)" by blast
  then show ?thesis using r by (simp add: move_path_def suffix_appendI)
qed

lemma current_below:
  assumes "plain_dir (interface_root_stable i)"
  shows "below (interface_root_stable i) (current_dir i)" "below (interface_root_stable i) (current_hash i)"
  using version_dir_below [OF assms current_plain] by (simp_all add: get_versioned_dir_def)

lemma copy_sources_wf: "wf_dict fs \<Longrightarrow> wf_dict (copy_sources i fs)"
  unfolding copy_sources_def Let_def by (intro copy_below_wf makedirs_wf)

lemma copy_sources_get:
  assumes "wf_dict fs" "under (interface_root i) p" "py_endswith p ''.aidl''" "map_of fs p = Some m"
  shows "map_of (copy_sources i fs) (move_path (interface_root i) (current_dir i) p) = Some m"
proof -
  have "map_of (os_makedirs (current_dir i) fs) p = Some m" using assms(4) by (rule os_makedirs_old)
  then show ?thesis
    unfolding copy_sources_def Let_def
    by (rule copy_below_get [OF makedirs_wf [OF assms(1)]]) (use assms(2,3) in \<open>simp_all add: aidl_or_dir_def\<close>)
qed

lemma update_stores_sources:
  assumes i: "map_of ds n = Some i" "layout i \<noteq> ''module-local''"
    and run: "handle_update_api t limit n ds w = (Inr (), w')"
    and wf: "wf_dict (w_fs w)" "sha1_word t"
    and st: "plain_dir (interface_root_stable i)" "aidl_frame t (interface_root_stable i)"
      "outputs_outside i (interface_root_stable i)"
    and ro: "plain_dir (interface_root i)" "aidl_frame t (interface_root i)" "outputs_outside i (interface_root i)"
  shows "under (interface_root i) p \<Longrightarrow> py_endswith p ''.aidl'' \<Longrightarrow> map_of (w_fs w) p = Some m \<Longrightarrow>
      map_of (w_fs w') (move_path (interface_root i) (current_dir i) p) = Some m"
    and "\<exists>nv hv. next_version i = Inr nv \<and> version_for_hashgen nv = Inr hv \<and>
      integrity_ok (t_sha1 t) (w_fs w') (current_dir i) hv (current_hash i)"
proof -
  obtain w1 w3 r4 where pre: "pre_validate t limit i ds w = (Inr (), w1)"
    and hash: "update_hash_for_current_api t i (w1\<lparr>w_fs := copy_sources i (w_fs w1)\<rparr>) = (Inr (), w3)"
    and val: "validate_interface t limit i ds w3 = (Inr r4, w')"
    using run i by (auto simp: handle_update_api_def dict_get_def io_bind_Inr io_modify_def io_return_def)
  have s1: "same_below (interface_root i) (w_fs w) (w_fs w1)"
    using pre_validate_same [OF ro] pre by (auto simp: io_keeps_def)
  then have wf1: "wf_dict (w_fs w1)" using wf(1) by (simp add: same_below_def)
  note h = update_hash_ok [OF hash _ wf(2) st(1), simplified, OF copy_sources_wf [OF wf1]]
  have s4: "same_below (interface_root_stable i) (w_fs w3) (w_fs w')"
    using validate_interface_same [OF st] val by (auto simp: io_keeps_def)
  show "\<exists>nv hv. next_version i = Inr nv \<and> version_for_hashgen nv = Inr hv \<and>
      integrity_ok (t_sha1 t) (w_fs w') (current_dir i) hv (current_hash i)"
    using h(3) integrity_same [OF s4 h(2) current_below [OF st(1)]] by simp
  assume p: "under (interface_root i) p" "py_endswith p ''.aidl''" "map_of (w_fs w) p = Some m"
  let ?q = "move_path (interface_root i) (current_dir i) p"
  have "map_of (w_fs w1) p = Some m" using s1 p by (simp add: same_below_def below_def)
  then have q: "map_of (copy_sources i (w_fs w1)) ?q = Some m" by (rule copy_sources_get [OF wf1 p(1,2)])
  have "?q \<noteq> current_hash i"
    using move_suffix [OF p(1,2), of "current_dir i"] hash_not_aidl current_hash_eq [OF st(1)] by metis
  then have "map_of (w_fs w3) ?q = Some m" using h(1) q by simp
  moreover have "below (interface_root_stable i) ?q"
    using below_trans [OF current_below(1) [OF st(1)]] under_move [OF p(1), of "current_dir i"] by (simp add: below_def)
  ultimately show "map_of (w_fs w') ?q = Some m" using s4 by (simp add: same_below_def)
qed

section \<open>The copy of a freeze\<close>

lemma move_back: "under dst q \<Longrightarrow> move_path src dst (move_path dst src q) = q"
  by (auto simp: under_def move_path_def prefix_def)

lemma copy_below_lookup:
  assumes "wf_dict fs" "under dst q"
  shows "map_of (copy_below all_nodes src dst fs) q =
    (case map_of fs (move_path dst src q) of Some n \<Rightarrow> Some n | None \<Rightarrow> map_of fs q)"
proof (cases "map_of fs (move_path dst src q)")
  case None
  have "q \<notin> move_path src dst ` fst ` set (filter (\<lambda>(p, n). under src p \<and> all_nodes p n) fs)"
  proof
    assume "q \<in> move_path src dst ` fst ` set (filter (\<lambda>(p, n). under src p \<and> all_nodes p n) fs)"
    then obtain p n where p: "(p, n) \<in> set fs" "under src p" "q = move_path src dst p" by auto
    then have "move_path dst src q = p" using move_back by blast
    then have "map_of fs (move_path dst src q) = Some n" using in_dict_iff_map_of [OF assms(1)] p(1) by blast
    then show False using None by simp
  qed
  then show ?thesis using None unfolding copy_below_def by (simp add: fold_dict_set_frame)
next
  case (Some n)
  have "map_of (copy_below all_nodes src dst fs) (move_path src dst (move_path dst src q)) = Some n"
    by (rule copy_below_get [OF assms(1) Some under_move [OF assms(2)]]) (simp add: all_nodes_def)
  then show ?thesis using Some move_back [OF assms(2), of src] by simp
qed

text \<open>Two versions of an interface: their directories are siblings.\<close>

definition siblings :: "string \<Rightarrow> string \<Rightarrow> bool" where
  "siblings src dst \<longleftrightarrow> (\<exists>s a b. plain_dir s \<and> plain_name a \<and> plain_name b \<and> a \<noteq> b \<and>
     src = path_join s a \<and> dst = path_join s b)"

lemma siblingsE:
  assumes "siblings src dst"
  obtains s a b where "src = s @ CHR ''/'' # a" "dst = s @ CHR ''/'' # b" "a \<noteq> b"
    "CHR ''/'' \<notin> set a" "CHR ''/'' \<notin> set b"
proof -
  obtain s a b where s: "plain_dir s" "plain_name a" "plain_name b" "a \<noteq> b" "src = path_join s a" "dst = path_join s b"
    using assms by (auto simp: siblings_def)
  have "CHR ''/'' \<notin> set a" "CHR ''/'' \<notin> set b"
    using s(2,3) by (auto simp: plain_name_def list_all_iff not_slash_def)
  then show thesis using that [of s a b] s by (simp add: path_join_plain)
qed

lemma under_src_not_prefix:
  assumes "siblings src dst" "under src p"
  shows "\<not> prefix p dst"
proof
  assume "prefix p dst"
  obtain s a b where d: "src = s @ CHR ''/'' # a" "dst = s @ CHR ''/'' # b" "CHR ''/'' \<notin> set b"
    using siblingsE [OF assms(1)] by metis
  have "prefix (src @ ''/'') dst" using assms(2) \<open>prefix p dst\<close> unfolding under_def by (rule prefix_order.trans)
  then have "prefix (a @ ''/'') b" by (simp add: d)
  then show False using d(3) by (auto simp: prefix_def)
qed

lemma under_dst_not_prefix: "under dst q \<Longrightarrow> \<not> prefix q dst"
  by (auto simp: under_def dest!: prefix_length_le)

lemma siblings_disjoint:
  assumes "siblings src dst" "under dst q"
  shows "\<not> below src q"
proof
  assume b: "below src q"
  obtain s a b where d: "src = s @ CHR ''/'' # a" "dst = s @ CHR ''/'' # b" "a \<noteq> b"
    "CHR ''/'' \<notin> set a" "CHR ''/'' \<notin> set b"
    using siblingsE [OF assms(1)] by metis
  obtain r' where "q = (dst @ ''/'') @ r'" using assms(2) unfolding under_def by (rule prefixE)
  then have r': "q = s @ CHR ''/'' # b @ CHR ''/'' # r'" using d(2) by simp
  consider "q = src" | r where "q = s @ CHR ''/'' # a @ CHR ''/'' # r"
  proof (cases "q = src")
    case False
    then have "prefix (src @ ''/'') q" using b by (simp add: below_def under_def)
    then obtain r where "q = (src @ ''/'') @ r" by (rule prefixE)
    then show thesis using that(2) d(1) by simp
  qed (rule that(1))
  then show False
  proof cases
    case 1
    then have "a = b @ CHR ''/'' # r'" using r' d by simp
    then show False using d(4) by simp
  next
    case (2 r)
    then have "a @ CHR ''/'' # r = b @ CHR ''/'' # r'" using r' by simp
    moreover have "takeWhile not_slash (x @ CHR ''/'' # y) = x" if "CHR ''/'' \<notin> set x" for x y
      using that by (induction x) (auto simp: not_slash_def)
    ultimately have "a = b" using d(4,5) by metis
    then show False using d(3) by simp
  qed
qed

text \<open>There is nothing below a directory yet.\<close>

definition fresh_dir :: "fs \<Rightarrow> string \<Rightarrow> bool" where
  "fresh_dir fs d \<longleftrightarrow> (\<forall>p. under d p \<longrightarrow> map_of fs p = None)"

text \<open>What is in the directory of the new version afterwards.\<close>

lemma freeze_copy_target:
  assumes "siblings src dst" "wf_dict fs" "fresh_dir fs dst" "under dst q"
  shows "map_of (freeze_copy src dst fs) q =
    (if q = dst @ ''/interface.json'' \<or> q = dst @ ''/interface.yaml'' then None
     else map_of fs (move_path dst src q))"
proof -
  let ?fs = "os_makedirs dst fs"
  have "map_of ?fs (move_path dst src q) = map_of fs (move_path dst src q)"
    using under_src_not_prefix [OF assms(1) under_move [OF assms(4)]] by (rule os_makedirs_frame)
  moreover have "map_of ?fs q = None"
    using under_dst_not_prefix [OF assms(4)] assms(3,4) by (simp add: os_makedirs_frame fresh_dir_def)
  ultimately have "map_of (copy_below all_nodes src dst ?fs) q = map_of fs (move_path dst src q)"
    using copy_below_lookup [OF makedirs_wf [OF assms(2)] assms(4)] by (simp split: option.splits)
  then show ?thesis by (auto simp: freeze_copy_def map_of_os_remove)
qed

lemma os_remove_wf: "wf_dict fs \<Longrightarrow> wf_dict (os_remove p fs)"
  by (auto simp: os_remove_def wf_dict_def intro: distinct_map_filter)

lemma freeze_copy_wf: "wf_dict fs \<Longrightarrow> wf_dict (freeze_copy src dst fs)"
  unfolding freeze_copy_def by (intro os_remove_wf copy_below_wf makedirs_wf)

lemma freeze_copy_frame:
  assumes "\<not> below dst q" "map_of fs q \<noteq> None \<or> \<not> prefix q dst"
  shows "map_of (freeze_copy src dst fs) q = map_of fs q"
proof -
  have "map_of (os_makedirs dst fs) q = map_of fs q"
    using assms(2) os_makedirs_old [of fs q _ dst] os_makedirs_frame by fastforce
  moreover have "q \<noteq> dst @ ''/interface.json''" "q \<noteq> dst @ ''/interface.yaml''"
    using assms(1) by (auto simp: below_def under_def prefix_def)
  ultimately show ?thesis
    using assms(1) by (simp add: freeze_copy_def map_of_os_remove copy_below_frame below_def)
qed

text \<open>The hash of the copy is the hash of the original.\<close>

lemma string_le_append: "(a :: string) @ x \<le> a @ y \<longleftrightarrow> x \<le> y"
  by (induction a) simp_all

lemma move_path_le:
  assumes "under src p" "under src q"
  shows "move_path src dst p \<le> move_path src dst q \<longleftrightarrow> p \<le> q"
proof -
  obtain x y where "p = src @ x" "q = src @ y" using assms by (auto simp: under_def prefix_def)
  then show ?thesis by (simp add: move_path_def string_le_append)
qed

lemma aidl_not_def: "py_endswith q ''.aidl'' \<Longrightarrow> q \<noteq> d @ ''/interface.json'' \<and> q \<noteq> d @ ''/interface.yaml''"
  by (auto simp: suffix_to_prefix)

lemma frozen_aidl_files:
  assumes "siblings src dst" "wf_dict fs" "fresh_dir fs dst"
  shows "aidl_files (freeze_copy src dst fs) dst = map (move_path src dst) (aidl_files fs src)"
proof (rule sorted_distinct_set_unique)
  let ?fs = "freeze_copy src dst fs"
  have at: "map_of ?fs q = map_of fs (move_path dst src q)" if "under dst q" "py_endswith q ''.aidl''" for q
    using freeze_copy_target [OF assms that(1)] aidl_not_def [OF that(2)] by simp
  show "set (aidl_files ?fs dst) = set (map (move_path src dst) (aidl_files fs src))"
  proof (intro equalityI subsetI)
    fix q assume "q \<in> set (aidl_files ?fs dst)"
    then have q: "under dst q" "py_endswith q ''.aidl''" "path_isfile ?fs q" by (simp_all add: aidl_files_mem)
    then have "move_path dst src q \<in> set (aidl_files fs src)"
      using at [OF q(1,2)] under_move move_suffix by (auto simp: aidl_files_mem path_isfile_def path_exists_def path_isdir_def)
    then show "q \<in> set (map (move_path src dst) (aidl_files fs src))"
      using move_back [OF q(1), of src] by (metis imageI list.set_map)
  next
    fix q assume "q \<in> set (map (move_path src dst) (aidl_files fs src))"
    then obtain p where p: "under src p" "py_endswith p ''.aidl''" "path_isfile fs p" "q = move_path src dst p"
      by (auto simp: aidl_files_mem)
    have q: "under dst q" "py_endswith q ''.aidl''" using under_move move_suffix p by auto
    have "move_path dst src q = p" using p move_back by blast
    then show "q \<in> set (aidl_files ?fs dst)"
      using at [OF q] p(3) q by (auto simp: aidl_files_mem path_isfile_def path_exists_def path_isdir_def)
  qed
  show "sorted (aidl_files ?fs dst)" by (simp add: aidl_files_def)
  show "distinct (aidl_files ?fs dst)" using freeze_copy_wf [OF assms(2)] by (simp add: aidl_files_def wf_dict_def)
  have un: "\<forall>p \<in> set (aidl_files fs src). under src p" by (simp add: aidl_files_mem)
  have "sorted (aidl_files fs src)" "distinct (aidl_files fs src)"
    using assms(2) by (simp_all add: aidl_files_def wf_dict_def)
  then show "sorted (map (move_path src dst) (aidl_files fs src))"
    "distinct (map (move_path src dst) (aidl_files fs src))"
    using un by (auto simp: sorted_map distinct_map inj_on_def move_path_inject move_path_le
        intro: sorted_wrt_mono_rel [rotated])
qed

lemma frozen_integrity:
  assumes "siblings src dst" "wf_dict fs" "fresh_dir fs dst"
  shows "integrity_ok sha1 (freeze_copy src dst fs) dst ver (dst @ ''/.hash'') \<longleftrightarrow>
    integrity_ok sha1 fs src ver (src @ ''/.hash'')"
proof -
  let ?fs = "freeze_copy src dst fs"
  have "map_of ?fs (move_path src dst p) = map_of fs p" if "p \<in> set (aidl_files fs src)" for p
  proof -
    have p: "under src p" "py_endswith p ''.aidl''" using that by (simp_all add: aidl_files_mem)
    have "move_path dst src (move_path src dst p) = p" using move_back [OF p(1)] .
    then show ?thesis
      using freeze_copy_target [OF assms under_move [OF p(1)]] aidl_not_def [OF move_suffix [OF p]] by simp
  qed
  then have "map (\<lambda>p. sha1 (node_text (the (map_of ?fs p))) @ ''  .'' @ drop (length dst) p @ [chr_nl]) (aidl_files ?fs dst) =
      map (\<lambda>p. sha1 (node_text (the (map_of fs p))) @ ''  .'' @ drop (length src) p @ [chr_nl]) (aidl_files fs src)"
    unfolding frozen_aidl_files [OF assms] map_map by (intro map_cong refl) (simp add: move_path_def)
  then have "sha1_lines sha1 ?fs dst = sha1_lines sha1 fs src"
    unfolding sha1_lines_def by (simp only: frozen_aidl_files [OF assms] map_is_Nil_conv)
  then have h: "api_hash sha1 ?fs dst ver = api_hash sha1 fs src ver" by (simp add: api_hash_def)
  have "under dst (dst @ ''/.hash'')" "move_path dst src (dst @ ''/.hash'') = src @ ''/.hash''"
    by (simp_all add: under_def move_path_def)
  then have "map_of ?fs (dst @ ''/.hash'') = map_of fs (src @ ''/.hash'')"
    using freeze_copy_target [OF assms, of "dst @ ''/.hash''"] by simp
  then show ?thesis by (simp add: integrity_ok_def h split: option.splits)
qed

section \<open>Freezing\<close>

text \<open>Appending a version writes the definition file or nothing.\<close>

definition writes_def :: "string \<Rightarrow> fs \<Rightarrow> fs \<Rightarrow> bool" where
  "writes_def file fs fs' \<longleftrightarrow> fs' = fs \<or>
     (\<exists>f n. (f = file @ ''.json'' \<or> f = file @ ''.yaml'') \<and> fs' = dict_set f n fs)"

lemma process_file_writes: "process_file p l m file fs = Inr fs' \<Longrightarrow> writes_def file fs fs'"
proof (cases "definition_file fs file")
  case None
  assume "process_file p l m file fs = Inr fs'"
  then show ?thesis using None by (simp add: process_file_def writes_def_def)
next
  case (Some f)
  assume "process_file p l m file fs = Inr fs'"
  then obtain data' where "fs' = dict_set f (FDef data') fs"
    using Some by (auto simp: process_file_def rbind_eq_Inr split: option.split_asm node.split_asm)
  moreover have "f = file @ ''.json'' \<or> f = file @ ''.yaml''"
    using Some by (auto simp: definition_file_def split: if_splits)
  ultimately show ?thesis by (auto simp: writes_def_def)
qed

lemma update_file_writes:
  assumes "update_file args file w = (r, w')"
  shows "writes_def file (w_fs w) (w_fs w')"
proof (cases "process_file (ua_property args) (ua_literal args) (ua_modules args) file (w_fs w)")
  case (Inl e)
  then show ?thesis using assms by (simp add: update_file_def io_bind_def io_gets_def io_raise_def writes_def_def)
next
  case (Inr fs')
  then have "w_fs w' = fs'" using assms by (auto simp: update_file_def io_bind_def io_gets_def io_modify_def)
  then show ?thesis using process_file_writes [OF Inr] by simp
qed

text \<open>The options of the command are those that are written; its only input is the file.\<close>

lemma getopt_append:
  "getopt UPDATE_SHORTS UPDATE_LONGS [] (append_argv i v imps) =
    getopt UPDATE_SHORTS UPDATE_LONGS [(''-w'', []), (''-m'', base_name i), (''--parameter'', ''versions_with_info''),
      (''--add-literal'', version_literal v imps)] [interface_root i @ ''/interface'']"
  by (simp add: append_argv_def UPDATE_SHORTS_def UPDATE_LONGS_def short_takes_def do_longs_def long_takes_def
      py_partition_def)

lemma update_main_writes:
  assumes "update_main (append_argv i v imps) w = (r, w')"
  shows "writes_def (interface_root i @ ''/interface'') (w_fs w) (w_fs w')"
proof (cases "w_fs w' = w_fs w")
  case False
  let ?file = "interface_root i @ ''/interface''"
  obtain opts inputs where g: "getopt UPDATE_SHORTS UPDATE_LONGS [] (append_argv i v imps) = Inr (opts, inputs)"
    using assms False
    by (cases "getopt UPDATE_SHORTS UPDATE_LONGS [] (append_argv i v imps)") (auto simp: update_main_def io_raise_def)
  then obtain args where args: "rfold update_option opts (no_args\<lparr>ua_inputs := inputs\<rparr>) = Inr args"
    using assms False
    by (cases "rfold update_option opts (no_args\<lparr>ua_inputs := inputs\<rparr>)") (auto simp: update_main_def io_raise_def)
  have "ua_inputs args = inputs"
    by (rule rfold_invariant [OF args, where P = "\<lambda>a. ua_inputs a = inputs"])
       (auto simp: update_option_def split: if_splits)
  moreover have "inputs = [?file] \<or> inputs = []" using getopt_single g unfolding getopt_append by blast
  ultimately have "ua_inputs args = [?file] \<or> ua_inputs args = []" by simp
  then obtain r1 where "update_file args ?file w = (r1, w')"
    using assms False g args
    by (auto simp: update_main_def io_check_def io_raise_def io_return_def io_bind_def split: if_splits prod.splits sum.splits)
  then show ?thesis by (rule update_file_writes)
qed (simp add: writes_def_def)

lemma append_version_writes:
  assumes "append_version i ds v hp w = (r, w')"
  shows "writes_def (interface_root i @ ''/interface'') (w_fs w) (w_fs w')"
proof (cases "w_fs w' = w_fs w")
  case False
  then obtain imps where "frozen_imports ds i = Inr imps" "cat_text (w_fs w) hp = ''1''"
    using assms by (cases "frozen_imports ds i")
      (auto simp: append_version_def io_raise_def io_bind_def io_gets_def io_return_def split: if_splits)
  then obtain r1 where "update_main (append_argv i v imps) w = (r1, w')"
    using assms by (auto simp: append_version_def io_bind_def io_gets_def io_catch_def io_return_def
        split: prod.splits sum.splits)
  then show ?thesis by (rule update_main_writes)
qed (simp add: writes_def_def)

lemma writes_def_frame:
  assumes "writes_def file fs fs'"
  shows "wf_dict fs \<Longrightarrow> wf_dict fs'" "q \<noteq> file @ ''.json'' \<Longrightarrow> q \<noteq> file @ ''.yaml'' \<Longrightarrow> map_of fs' q = map_of fs q"
  using assms by (auto simp: writes_def_def)

lemma check_for_development_same:
  assumes "plain_dir d" "aidl_frame t d" "outputs_outside i d"
  shows "io_keeps (same_below d) (check_for_development t limit i ds latest cur)"
proof -
  have m: "io_keeps (same_below d) (io_modify (os_makedirs (interface_api_dir_out i)))"
    "io_keeps (same_below d) (io_modify (dict_set (has_dev_path i) x))" for x
    using assms by (auto intro!: below.keeps_modify makedirs_same_below dict_set_same_below simp: outputs_outside_def)
  show ?thesis
    unfolding check_for_development_def split_beta
    by (cases latest)
       (simp_all add: m below.keeps below.keeps_get_dependencies run_aidl_keeps [OF assms(2)])
qed

lemma check_for_development_result:
  "check_for_development t limit i ds latest cur w = (Inr p, w') \<Longrightarrow> p = has_dev_path i"
  by (auto simp: check_for_development_def io_bind_Inr io_return_def split: option.splits)

lemma dependencies_check_same:
  assumes "aidl_frame t d"
  shows "io_keeps (same_below d) (dependecies_check_for_freeze t limit i ds)"
  unfolding dependecies_check_for_freeze_def split_beta Let_def
  by (intro below.keeps below.keeps_get_dependencies below.keeps_exec run_aidl_keeps assms)

text \<open>
  The steps of a freeze that returns: it validates, writes the hash, looks for a development,
  checks the dependencies, copies and records.
\<close>

definition last_two :: "ApiDump list \<Rightarrow> ApiDump option" where
  "last_two dumps = (if length dumps > 1 then Some (dumps ! (length dumps - 2)) else None)"

definition freeze_copied :: "AidlInterface \<Rightarrow> string \<Rightarrow> fs \<Rightarrow> fs" where
  "freeze_copied i v fs = (if cat_text fs (has_dev_path i) = ''1''
     then freeze_copy (current_dir i) (get_versioned_dir i v) fs else fs)"

lemma freeze_steps:
  assumes "map_of ds n = Some i" "handle_freeze_api t limit n ds w = (Inr (), w')"
  obtains dumps nv w1 w2 w3 w4 where "validate_interface t limit i ds w = (Inr dumps, w1)" "next_version i = Inr nv"
    "dumps \<noteq> []" "du_version (last dumps) = nv" "update_hash_for_current_api t i w1 = (Inr (), w2)"
    "check_for_development t limit i ds (last_two dumps) (last dumps) w2 = (Inr (has_dev_path i), w3)"
    "dependecies_check_for_freeze t limit i ds w3 = (Inr (), w4)"
    "io_then (make_api_dump_as_version i (last dumps) nv (has_dev_path i))
      (append_version i ds nv (has_dev_path i)) w4 = (Inr (), w')"
proof -
  obtain dumps w1 nv where v: "validate_interface t limit i ds w = (Inr dumps, w1)" "next_version i = Inr nv"
    "dumps \<noteq> []" "du_version (last dumps) = nv"
    and rest: "io_then (update_hash_for_current_api t i)
        (io_bind (check_for_development t limit i ds (last_two dumps) (last dumps)) (\<lambda>hp.
          io_then (dependecies_check_for_freeze t limit i ds)
          (io_then (make_api_dump_as_version i (last dumps) nv hp) (append_version i ds nv hp)))) w1 = (Inr (), w')"
    using assms unfolding handle_freeze_api_def
    by (auto simp: dict_get_def io_bind_Inr io_res_def Let_def io_raise_def last_two_def split: if_splits)
  obtain w2 hp w3 w4 where r: "update_hash_for_current_api t i w1 = (Inr (), w2)"
    "check_for_development t limit i ds (last_two dumps) (last dumps) w2 = (Inr hp, w3)"
    "dependecies_check_for_freeze t limit i ds w3 = (Inr (), w4)"
    "io_then (make_api_dump_as_version i (last dumps) nv hp) (append_version i ds nv hp) w4 = (Inr (), w')"
    using rest by (auto simp: io_bind_Inr)
  have "hp = has_dev_path i" by (rule check_for_development_result [OF r(2)])
  then show thesis using that [OF v r(1)] r(2-4) by simp
qed

text \<open>The last dump that validation returns for the next version is that of the current directory.\<close>

lemma validated_current:
  assumes "wf_interface i" "\<not> unstable i" "wf_dict (w_fs w)"
    and "plain_dir (interface_root_stable i)" "aidl_frame t (interface_root_stable i)"
      "outputs_outside i (interface_root_stable i)"
    and "validate_interface t limit i ds w = (Inr dumps, w1)" "dumps \<noteq> []" "next_version i = Inr (du_version (last dumps))"
  shows "du_api_dir (last dumps) = current_dir i"
proof -
  obtain cur where cur: "dumps = (if has_frozen_versions (w_fs w) i
        then map (\<lambda>v. dump_of (w_fs w) v (get_versioned_dir i v)) (versions i) else []) @ cur"
    "if path_exists (w_fs w) (current_dir i) then \<exists>nv. next_version i = Inr nv \<and> cur = [dump_of (w_fs w) nv (current_dir i)] else cur = []"
    using validate_passes(1) [OF assms(1,3-7)] by blast
  show ?thesis
  proof (cases "cur = []")
    case True
    then have "dumps = map (\<lambda>v. dump_of (w_fs w) v (get_versioned_dir i v)) (versions i)"
      using cur(1) assms(8) by (auto split: if_splits)
    then have "du_version (last dumps) = last (versions i)" "versions i \<noteq> []"
      using assms(8) by (auto simp: last_map dump_of_def)
    then show ?thesis using last_version [OF assms(1)] next_version_wf [OF assms(1,2)] assms(9) by simp
  qed (use cur in \<open>auto simp: dump_of_def split: if_splits\<close>)
qed

text \<open>
  The state just before the copy: the hash of the current version is right, and nothing but that
  hash has changed in the stable tree or in any directory that is apart from the outputs.
\<close>

definition freeze_ready :: "tools \<Rightarrow> AidlInterface \<Rightarrow> fs \<Rightarrow> fs \<Rightarrow> bool" where
  "freeze_ready t i fs fs4 \<longleftrightarrow> wf_dict fs4 \<and>
     (\<exists>hv. version_for_hashgen (next_of i) = Inr hv \<and>
       integrity_ok (t_sha1 t) fs4 (current_dir i) hv (current_hash i)) \<and>
     (\<forall>q. below (interface_root_stable i) q \<and> q \<noteq> current_hash i \<longrightarrow> map_of fs4 q = map_of fs q) \<and>
     (\<forall>d. plain_dir d \<and> aidl_frame t d \<and> outputs_outside i d \<and> \<not> below d (current_hash i) \<longrightarrow> same_below d fs fs4)"

lemma freeze_ready_steps:
  assumes nv: "next_version i = Inr (next_of i)" and wf: "wf_dict (w_fs w)" "sha1_word t"
    and st: "plain_dir (interface_root_stable i)" "aidl_frame t (interface_root_stable i)"
      "outputs_outside i (interface_root_stable i)"
    and val: "validate_interface t limit i ds w = (Inr dumps, w1)" and hash: "update_hash_for_current_api t i w1 = (Inr (), w2)"
    and dev: "check_for_development t limit i ds latest cur w2 = (Inr hp, w3)"
    and dep: "dependecies_check_for_freeze t limit i ds w3 = (Inr (), w4)"
  shows "freeze_ready t i (w_fs w) (w_fs w4)"
proof -
  let ?S = "interface_root_stable i"
  have v: "same_below d (w_fs w) (w_fs w1)" "same_below d (w_fs w2) (w_fs w4)"
    if d: "plain_dir d" "aidl_frame t d" "outputs_outside i d" for d
  proof -
    have "same_below d (w_fs w2) (w_fs w3)" "same_below d (w_fs w3) (w_fs w4)"
      using check_for_development_same [OF d] dev dependencies_check_same [OF d(2)] dep by (auto simp: io_keeps_def)
    then show "same_below d (w_fs w2) (w_fs w4)" by (rule below.keep_trans)
    show "same_below d (w_fs w) (w_fs w1)" using validate_interface_same [OF d] val by (auto simp: io_keeps_def)
  qed
  note s = v [OF st]
  have wf1: "wf_dict (w_fs w1)" using s(1) wf(1) by (simp add: same_below_def)
  note h = update_hash_ok [OF hash wf1 wf(2) st(1)]
  have "same_below d (w_fs w) (w_fs w4)"
    if "plain_dir d" "aidl_frame t d" "outputs_outside i d" "\<not> below d (current_hash i)" for d
  proof -
    have "same_below d (w_fs w1) (w_fs w2)" using that(4) h(1,2) unfolding same_below_def by metis
    then show ?thesis using v [OF that(1-3)] below.keep_trans by blast
  qed
  moreover have "\<exists>hv. version_for_hashgen (next_of i) = Inr hv \<and>
      integrity_ok (t_sha1 t) (w_fs w4) (current_dir i) hv (current_hash i)"
    using h(3) nv integrity_same [OF s(2) h(2) current_below [OF st(1)]] by auto
  moreover have "wf_dict (w_fs w4)" "\<forall>q. below ?S q \<and> q \<noteq> current_hash i \<longrightarrow> map_of (w_fs w4) q = map_of (w_fs w) q"
    using s h(1,2) by (simp_all add: same_below_def)
  ultimately show ?thesis unfolding freeze_ready_def by blast
qed

lemma freeze_stages:
  assumes i: "map_of ds n = Some i" and run: "handle_freeze_api t limit n ds w = (Inr (), w')"
    and wf: "wf_interface i" "\<not> unstable i" "wf_dict (w_fs w)" "sha1_word t"
    and st: "plain_dir (interface_root_stable i)" "aidl_frame t (interface_root_stable i)"
      "outputs_outside i (interface_root_stable i)"
  obtains w4 where "freeze_ready t i (w_fs w) (w_fs w4)"
    "append_version i ds (next_of i) (has_dev_path i) (w4\<lparr>w_fs := freeze_copied i (next_of i) (w_fs w4)\<rparr>) = (Inr (), w')"
proof -
  obtain dumps nv w1 w2 w3 w4 where s: "validate_interface t limit i ds w = (Inr dumps, w1)" "next_version i = Inr nv"
    "dumps \<noteq> []" "du_version (last dumps) = nv" "update_hash_for_current_api t i w1 = (Inr (), w2)"
    "check_for_development t limit i ds (last_two dumps) (last dumps) w2 = (Inr (has_dev_path i), w3)"
    "dependecies_check_for_freeze t limit i ds w3 = (Inr (), w4)"
    "io_then (make_api_dump_as_version i (last dumps) nv (has_dev_path i))
      (append_version i ds nv (has_dev_path i)) w4 = (Inr (), w')"
    by (rule freeze_steps [OF i run])
  have nv: "nv = next_of i" using next_version_wf [OF wf(1,2)] s(2) by simp
  have api: "du_api_dir (last dumps) = current_dir i"
    using s(2,4) by (intro validated_current [OF wf(1-3) st s(1,3)]) simp
  have "nv \<noteq> CURRENT_VERSION" unfolding nv by (rule str_of_nat_current)
  then have app: "append_version i ds (next_of i) (has_dev_path i) (w4\<lparr>w_fs := freeze_copied i (next_of i) (w_fs w4)\<rparr>) = (Inr (), w')"
    using s(8) unfolding make_api_dump_as_version_def Let_def io_bind_def io_modify_def freeze_copied_def nv api
    by (simp split del: if_split)
  have "freeze_ready t i (w_fs w) (w_fs w4)"
    using s(2) nv by (intro freeze_ready_steps [OF _ wf(3,4) st s(1,5-7)]) simp
  then show thesis using that app by blast
qed

lemma cat_text_one: "cat_text fs p = ''1'' \<Longrightarrow> map_of fs p \<noteq> None"
  by (cases "map_of fs p") (auto simp: cat_text_def the_default_def node_text_def)

lemma version_siblings:
  assumes "plain_dir (interface_root_stable i)" "nv = str_of_nat k"
  shows "siblings (current_dir i) (get_versioned_dir i nv)"
proof -
  have "nv \<noteq> CURRENT_VERSION" using assms(2) str_of_nat_current by simp
  then show ?thesis
    using assms current_plain str_of_nat_plain [of k] unfolding siblings_def get_versioned_dir_def by metis
qed

text \<open>The definition file is not in the stable tree.\<close>

definition defs_outside :: "AidlInterface \<Rightarrow> bool" where
  "defs_outside i \<longleftrightarrow> list_all (\<lambda>f. \<not> below (interface_root_stable i) f \<and> f \<noteq> has_dev_path i)
     [interface_root i @ ''/interface.json'', interface_root i @ ''/interface.yaml'']"

text \<open>What recording the version leaves alone.\<close>

lemma append_version_frame:
  assumes "append_version i ds v hp w = (r, w')" "defs_outside i" "below (interface_root_stable i) q \<or> q = has_dev_path i"
  shows "map_of (w_fs w') q = map_of (w_fs w) q"
proof -
  have "q \<noteq> interface_root i @ ''/interface.json''" "q \<noteq> interface_root i @ ''/interface.yaml''"
    using assms(2,3) unfolding defs_outside_def by auto
  then show ?thesis using writes_def_frame(2) [OF append_version_writes [OF assms(1)], of q] by simp
qed

lemma next_dir_below:
  assumes "plain_dir (interface_root_stable i)"
  shows "below (interface_root_stable i) (get_versioned_dir i (next_of i))"
  using version_dir_below(1) [OF assms str_of_nat_plain] by (simp add: get_versioned_dir_def)

lemma fresh_ready:
  assumes "fresh_dir fs (get_versioned_dir i (next_of i))" "freeze_ready t i fs fs4" "plain_dir (interface_root_stable i)"
  shows "fresh_dir fs4 (get_versioned_dir i (next_of i))"
  unfolding fresh_dir_def
proof (intro allI impI)
  let ?T = "get_versioned_dir i (next_of i)"
  fix p assume p: "under ?T p"
  then have "below (interface_root_stable i) p" using below_trans [OF next_dir_below [OF assms(3)]] by (simp add: below_def)
  moreover have "p \<noteq> current_hash i"
  proof
    assume "p = current_hash i"
    then have "below (current_dir i) p" unfolding current_hash_eq [OF assms(3)] by (simp add: below_def under_def)
    then show False using siblings_disjoint [OF version_siblings [OF assms(3) refl] p] by blast
  qed
  ultimately show "map_of fs4 p = None" using assms(1,2) p by (simp add: fresh_dir_def freeze_ready_def)
qed

text \<open>Whether a change was found does not depend on the copy.\<close>

lemma freeze_copied_dev:
  assumes "plain_dir (interface_root_stable i)" "outputs_outside i (interface_root_stable i)"
  shows "map_of (freeze_copied i (next_of i) fs) (has_dev_path i) = map_of fs (has_dev_path i)"
proof (cases "cat_text fs (has_dev_path i) = ''1''")
  case True
  have "\<not> below (get_versioned_dir i (next_of i)) (has_dev_path i)"
    using below_trans [OF next_dir_below [OF assms(1)]] assms(2) by (auto simp: outputs_outside_def)
  then show ?thesis using True freeze_copy_frame cat_text_one by (simp add: freeze_copied_def)
qed (simp add: freeze_copied_def)

text \<open>
  The copy itself: the hash of the new version is right, and the other files are those of the
  current one, without its definition file.
\<close>

lemma freeze_copied_result:
  assumes st: "plain_dir (interface_root_stable i)" and fresh: "fresh_dir fs (get_versioned_dir i (next_of i))"
    and ready: "freeze_ready t i fs fs4" and dev: "cat_text fs4 (has_dev_path i) = ''1''"
  shows "\<exists>hv. version_for_hashgen (next_of i) = Inr hv \<and>
      integrity_ok (t_sha1 t) (freeze_copied i (next_of i) fs4) (get_versioned_dir i (next_of i)) hv
        (get_versioned_dir i (next_of i) @ ''/.hash'')"
    and "under (current_dir i) p \<Longrightarrow> p \<noteq> current_hash i \<Longrightarrow>
      p \<noteq> current_dir i @ ''/interface.json'' \<Longrightarrow> p \<noteq> current_dir i @ ''/interface.yaml'' \<Longrightarrow>
      map_of (freeze_copied i (next_of i) fs4) (move_path (current_dir i) (get_versioned_dir i (next_of i)) p) = map_of fs p"
    and "wf_dict (freeze_copied i (next_of i) fs4)"
proof -
  let ?C = "current_dir i" and ?T = "get_versioned_dir i (next_of i)"
  have fs5: "freeze_copied i (next_of i) fs4 = freeze_copy ?C ?T fs4" using dev by (simp add: freeze_copied_def)
  have sib: "siblings ?C ?T" by (rule version_siblings [OF st refl])
  have wf: "wf_dict fs4" using ready by (simp add: freeze_ready_def)
  have fresh4: "fresh_dir fs4 ?T" by (rule fresh_ready [OF fresh ready st])
  show "wf_dict (freeze_copied i (next_of i) fs4)" unfolding fs5 by (rule freeze_copy_wf [OF wf])
  show "\<exists>hv. version_for_hashgen (next_of i) = Inr hv \<and>
      integrity_ok (t_sha1 t) (freeze_copied i (next_of i) fs4) ?T hv (?T @ ''/.hash'')"
    using ready current_hash_eq [OF st] unfolding fs5 frozen_integrity [OF sib wf fresh4] freeze_ready_def by simp
  assume p: "under ?C p" "p \<noteq> current_hash i" "p \<noteq> ?C @ ''/interface.json''" "p \<noteq> ?C @ ''/interface.yaml''"
  have bk: "move_path ?T ?C (move_path ?C ?T p) = p" by (rule move_back [OF p(1)])
  have "move_path ?C ?T p \<noteq> ?T @ ''/interface.json''" "move_path ?C ?T p \<noteq> ?T @ ''/interface.yaml''"
    using p(3,4) bk by (auto simp: move_path_def)
  then have "map_of (freeze_copy ?C ?T fs4) (move_path ?C ?T p) = map_of fs4 p"
    using freeze_copy_target [OF sib wf fresh4 under_move [OF p(1)]] bk by simp
  moreover have "below (interface_root_stable i) p"
    using p(1) current_below(1) [OF st] below_trans by (auto simp: below_def)
  ultimately show "map_of (freeze_copied i (next_of i) fs4) (move_path ?C ?T p) = map_of fs p"
    using ready p(2) unfolding fs5 by (simp add: freeze_ready_def)
qed

text \<open>
  The result of a freeze. Where a change was found, the new version is a copy of the current
  one without its definition file, and passes the integrity check; where none was found, the
  stable tree stays as it was but for the hash of the current version.
\<close>

lemma freeze_result:
  assumes i: "map_of ds n = Some i" and run: "handle_freeze_api t limit n ds w = (Inr (), w')"
    and wf: "wf_interface i" "\<not> unstable i" "wf_dict (w_fs w)" "sha1_word t"
    and st: "plain_dir (interface_root_stable i)" "aidl_frame t (interface_root_stable i)"
      "outputs_outside i (interface_root_stable i)"
    and fresh: "fresh_dir (w_fs w) (get_versioned_dir i (next_of i))"
    and defs: "defs_outside i"
  shows "cat_text (w_fs w') (has_dev_path i) = ''1'' \<Longrightarrow>
      (\<exists>hv. version_for_hashgen (next_of i) = Inr hv \<and>
        integrity_ok (t_sha1 t) (w_fs w') (get_versioned_dir i (next_of i)) hv
          (get_versioned_dir i (next_of i) @ ''/.hash''))"
    and "cat_text (w_fs w') (has_dev_path i) = ''1'' \<Longrightarrow> under (current_dir i) p \<Longrightarrow> p \<noteq> current_hash i \<Longrightarrow>
      p \<noteq> current_dir i @ ''/interface.json'' \<Longrightarrow> p \<noteq> current_dir i @ ''/interface.yaml'' \<Longrightarrow>
      map_of (w_fs w') (move_path (current_dir i) (get_versioned_dir i (next_of i)) p) = map_of (w_fs w) p"
    and "cat_text (w_fs w') (has_dev_path i) \<noteq> ''1'' \<Longrightarrow> below (interface_root_stable i) q \<Longrightarrow> q \<noteq> current_hash i \<Longrightarrow>
      map_of (w_fs w') q = map_of (w_fs w) q"
proof -
  let ?S = "interface_root_stable i" and ?T = "get_versioned_dir i (next_of i)" and ?H = "has_dev_path i"
  obtain w4 where ready: "freeze_ready t i (w_fs w) (w_fs w4)"
    and app: "append_version i ds (next_of i) ?H (w4\<lparr>w_fs := freeze_copied i (next_of i) (w_fs w4)\<rparr>) = (Inr (), w')"
    by (rule freeze_stages [OF i run wf st])
  let ?fs5 = "freeze_copied i (next_of i) (w_fs w4)"
  have app': "map_of (w_fs w') q = map_of ?fs5 q" if "below ?S q \<or> q = ?H" for q
    using append_version_frame [OF app defs that] by simp
  have dev: "cat_text (w_fs w') ?H = cat_text (w_fs w4) ?H"
    using app' [of ?H] freeze_copied_dev [OF st(1,3)] by (simp add: cat_text_def)
  have T: "map_of (w_fs w') q = map_of ?fs5 q" "below ?S q" if "below ?T q" for q
    using app' [of q] below_trans [OF next_dir_below [OF st(1)] that] by blast+
  {
    assume "cat_text (w_fs w') ?H = ''1''"
    then have d: "cat_text (w_fs w4) ?H = ''1''" using dev by simp
    note c = freeze_copied_result [OF st(1) fresh ready d]
    have "same_below ?T ?fs5 (w_fs w')"
      using T(1) writes_def_frame(1) [OF append_version_writes [OF app]] c(3) by (simp add: same_below_def)
    then show "\<exists>hv. version_for_hashgen (next_of i) = Inr hv \<and> integrity_ok (t_sha1 t) (w_fs w') ?T hv (?T @ ''/.hash'')"
      using c(1,3) integrity_same [of ?T ?fs5 "w_fs w'" ?T "?T @ ''/.hash''"] by (auto simp: below_def under_def)
    fix p assume p: "under (current_dir i) p" "p \<noteq> current_hash i"
      "p \<noteq> current_dir i @ ''/interface.json''" "p \<noteq> current_dir i @ ''/interface.yaml''"
    show "map_of (w_fs w') (move_path (current_dir i) ?T p) = map_of (w_fs w) p"
      using c(2) [OF p] T(1) under_move [OF p(1)] by (simp add: below_def)
  }
  assume "cat_text (w_fs w') ?H \<noteq> ''1''" "below ?S q" "q \<noteq> current_hash i"
  then show "map_of (w_fs w') q = map_of (w_fs w) q"
    using app' [of q] dev ready by (simp add: freeze_copied_def freeze_ready_def)
qed

text \<open>The sources and the stable tree are apart, as in the central layout.\<close>

definition apart :: "AidlInterface \<Rightarrow> bool" where
  "apart i \<longleftrightarrow> \<not> below (interface_root_stable i) (interface_root i) \<and> \<not> below (interface_root i) (interface_root_stable i)"

lemma below_linear: "below a p \<Longrightarrow> below b p \<Longrightarrow> below a b \<or> below b a"
proof -
  assume "below a p" "below b p"
  then have "prefix (a @ ''/'') (p @ ''/'')" "prefix (b @ ''/'') (p @ ''/'')"
    by (auto simp: below_def under_def)
  then have "prefix (a @ ''/'') (b @ ''/'') \<or> prefix (b @ ''/'') (a @ ''/'')"
    by (rule prefix_same_cases)
  then show "below a b \<or> below b a" by (auto simp: below_def under_def)
qed

lemma apart_disjoint:
  assumes "apart i" "below (interface_root_stable i) p"
  shows "\<not> below (interface_root i) p"
  using assms below_linear unfolding apart_def by blast

text \<open>The name of the interface is one word of the \<^verbatim>\<open>-m\<close> option.\<close>

definition module_word :: "string \<Rightarrow> bool" where
  "module_word n \<longleftrightarrow> py_split (py_replace '','' '' '' n) = [n]"

lemma append_version_adds:
  assumes "frozen_imports ds i = Inr imps" "cat_text (w_fs w) hp = ''1''" "module_word (base_name i)"
    and "\<not> py_startswith (interface_root i @ ''/interface'') ''-''"
    and "definition_file (w_fs w) (interface_root i @ ''/interface'') = Some f" "map_of (w_fs w) f = Some (FDef data)"
    and "df_name data = base_name i" "quotable v" "list_all quotable imps" "df_versions_with_info data \<noteq> Null"
    and "append_version i ds v hp w = (r, w')"
  shows "w_fs w' = dict_set f (FDef (data\<lparr>df_versions_with_info :=
    Present (field_list (df_versions_with_info data) @ [(v, imps)])\<rparr>)) (w_fs w)"
proof -
  let ?file = "interface_root i @ ''/interface''" and ?lit = "version_literal v imps"
  let ?args = "\<lparr>ua_modules = [base_name i], ua_write = True, ua_literal = ?lit,
    ua_property = Some ''versions_with_info'', ua_remove = False, ua_inputs = [?file]\<rparr>"
  have ne: "?lit \<noteq> []" by (simp add: version_literal_def)
  have g: "getopt UPDATE_SHORTS UPDATE_LONGS [] (append_argv i v imps) =
      Inr ([(''-w'', []), (''-m'', base_name i), (''--parameter'', ''versions_with_info''), (''--add-literal'', ?lit)], [?file])"
    using assms(4) by (simp add: getopt_append)
  have "update_main (append_argv i v imps) = io_fold (\<lambda>file _. update_file ?args file) [?file] ()"
    using assms(3) ne
    by (simp add: update_main_def g update_option_def no_args_def module_word_def io_check_def)
  then have "snd (update_main (append_argv i v imps) w) = w\<lparr>w_fs := dict_set f (FDef (data\<lparr>df_versions_with_info :=
      Present (field_list (df_versions_with_info data) @ [(v, imps)])\<rparr>)) (w_fs w)\<rparr> \<and>
    \<not> isl (fst (update_main (append_argv i v imps) w))"
    using process_file_adds [OF assms(5-10)]
    by (simp add: update_file_def io_bind_def io_gets_def io_modify_def io_return_def)
  then show ?thesis
    using assms(1,2,11)
    by (auto simp: append_version_def io_bind_def io_gets_def io_catch_def split: prod.splits sum.splits)
qed

text \<open>The sources of the module are as they were when the version is recorded.\<close>

lemma freeze_copied_sources:
  assumes "apart i" "plain_dir (interface_root_stable i)" "freeze_ready t i fs fs4"
    and "plain_dir (interface_root i)" "aidl_frame t (interface_root i)" "outputs_outside i (interface_root i)"
    and q: "under (interface_root i) q"
  shows "map_of (freeze_copied i (next_of i) fs4) q = map_of fs q"
proof -
  let ?R = "interface_root i" and ?T = "get_versioned_dir i (next_of i)"
  note T = next_dir_below [OF assms(2)]
  have "\<not> below ?T q" using below_trans [OF T] apart_disjoint [OF assms(1), of q] q by (auto simp: below_def)
  moreover have "\<not> prefix q ?T"
  proof
    assume "prefix q ?T"
    then have "below ?R ?T" using q prefix_order.trans by (auto simp: under_def below_def)
    then show False using apart_disjoint [OF assms(1) T] by blast
  qed
  ultimately have "map_of (freeze_copied i (next_of i) fs4) q = map_of fs4 q"
    using freeze_copy_frame by (simp add: freeze_copied_def)
  moreover have "same_below ?R fs fs4"
    using assms(3-6) apart_disjoint [OF assms(1) current_below(2) [OF assms(2)]] by (simp add: freeze_ready_def)
  ultimately show ?thesis using q by (simp add: same_below_def below_def)
qed

lemma definition_file_under: "definition_file fs (r @ ''/interface'') = Some f \<Longrightarrow> under r f"
  by (auto simp: definition_file_def under_def split: if_splits)

lemma definition_file_same:
  assumes "\<And>q. under r q \<Longrightarrow> map_of fs' q = map_of fs q"
  shows "definition_file fs' (r @ ''/interface'') = definition_file fs (r @ ''/interface'')"
proof -
  have "under r ((r @ ''/interface'') @ ''.json'')" "under r ((r @ ''/interface'') @ ''.yaml'')"
    by (simp_all add: under_def)
  then show ?thesis unfolding definition_file_def path_exists_def by (simp only: assms)
qed

lemma next_quotable: "quotable (next_of i)"
  using str_of_nat_digits [of _ "Suc (length (versions i))"] is_dec_facts by (fastforce simp: quotable_def is_dec_def)

lemma freeze_definition:
  assumes i: "map_of ds n = Some i" and run: "handle_freeze_api t limit n ds w = (Inr (), w')"
    and wf: "wf_interface i" "\<not> unstable i" "wf_dict (w_fs w)" "sha1_word t"
    and st: "plain_dir (interface_root_stable i)" "aidl_frame t (interface_root_stable i)"
      "outputs_outside i (interface_root_stable i)"
    and ro: "plain_dir (interface_root i)" "aidl_frame t (interface_root i)" "outputs_outside i (interface_root i)"
    and apart: "apart i" "\<not> py_startswith (interface_root i @ ''/interface'') ''-''"
    and dev: "cat_text (w_fs w') (has_dev_path i) = ''1''"
    and imps: "frozen_imports ds i = Inr imps" "module_word (base_name i)" "list_all quotable imps"
    and data: "definition_file (w_fs w) (interface_root i @ ''/interface'') = Some f" "map_of (w_fs w) f = Some (FDef data)"
      "df_name data = base_name i" "df_versions_with_info data \<noteq> Null"
  shows "map_of (w_fs w') f = Some (FDef (data\<lparr>df_versions_with_info :=
    Present (field_list (df_versions_with_info data) @ [(next_of i, imps)])\<rparr>))"
proof -
  let ?H = "has_dev_path i" and ?R = "interface_root i"
  obtain w4 where ready: "freeze_ready t i (w_fs w) (w_fs w4)"
    and app: "append_version i ds (next_of i) ?H (w4\<lparr>w_fs := freeze_copied i (next_of i) (w_fs w4)\<rparr>) = (Inr (), w')"
    by (rule freeze_stages [OF i run wf st])
  let ?fs5 = "freeze_copied i (next_of i) (w_fs w4)"
  note at5 = freeze_copied_sources [OF apart(1) st(1) ready ro]
  have "\<not> below ?R ?H" using ro(3) by (simp add: outputs_outside_def)
  then have "?H \<noteq> ?R @ ''/interface'' @ ''.json''" "?H \<noteq> ?R @ ''/interface'' @ ''.yaml''"
    by (auto simp: below_def under_def)
  then have "map_of (w_fs w') ?H = map_of ?fs5 ?H"
    using writes_def_frame(2) [OF append_version_writes [OF app], of ?H] by simp
  then have cat: "cat_text ?fs5 ?H = ''1''" using dev by (simp add: cat_text_def)
  have "definition_file ?fs5 (?R @ ''/interface'') = Some f"
    using definition_file_same [of ?R ?fs5 "w_fs w", OF at5] data(1) by simp
  moreover have "map_of ?fs5 f = Some (FDef data)" using at5 [OF definition_file_under [OF data(1)]] data(2) by simp
  ultimately have "w_fs w' = dict_set f (FDef (data\<lparr>df_versions_with_info :=
      Present (field_list (df_versions_with_info data) @ [(next_of i, imps)])\<rparr>)) ?fs5"
    using append_version_adds [OF imps(1) _ imps(2) apart(2) _ _ data(3) next_quotable imps(3) data(4) app] cat by simp
  then show ?thesis by simp
qed

end
