(* ===== verification/Frozen_Safe.thy ===== *)
theory Frozen_Safe
  imports Freeze_Facts
begin

text \<open>
  What a frozen version is safe from: an update and a freeze, also ones that end with an error,
  leave every directory alone that is apart from the directories they write. A session is any
  sequence of such operations on any interfaces.
\<close>

section \<open>Directories that are apart\<close>

definition separate :: "string \<Rightarrow> string \<Rightarrow> bool" where
  "separate a b \<longleftrightarrow> \<not> below a b \<and> \<not> below b a"

lemma separate_not_below: "separate d e \<Longrightarrow> below d q \<Longrightarrow> \<not> below e q"
  using below_linear unfolding separate_def by blast

lemma copy_below_same: "separate d dst \<Longrightarrow> same_below d fs (copy_below keep src dst fs)"
  using separate_not_below [of d dst] by (auto simp: same_below_def copy_below_wf below_def intro!: copy_below_frame)

lemma os_remove_same: "\<not> below d p \<Longrightarrow> same_below d fs (os_remove p fs)"
  by (auto simp: same_below_def os_remove_wf map_of_os_remove)

lemma freeze_copy_same:
  assumes "plain_dir d" "separate d dst"
  shows "same_below d fs (freeze_copy src dst fs)"
proof -
  have "below dst (dst @ ''/interface.json'')" "below dst (dst @ ''/interface.yaml'')"
    by (simp_all add: below_def under_def)
  then have "\<not> below d (dst @ ''/interface.json'')" "\<not> below d (dst @ ''/interface.yaml'')"
    using separate_not_below [OF assms(2)] by blast+
  then show ?thesis
    unfolding freeze_copy_def
    using assms by (meson below.keep_trans copy_below_same makedirs_same_below os_remove_same separate_def)
qed

lemma filter_wf: "wf_dict fs \<Longrightarrow> wf_dict (filter P fs)"
  unfolding wf_dict_def by (rule distinct_map_filter)

lemma map_of_filter_keys: "map_of (filter (\<lambda>(p, n). P p) fs) q = (if P q then map_of fs q else None)"
  by (induction fs) auto

lemma update_copy_same:
  assumes "plain_dir d" "separate d dst"
  shows "same_below d fs (update_copy src dst fs)"
proof -
  have "same_below d fs' (filter (\<lambda>(p, n). \<not> visible dst p) fs')" for fs'
    using separate_not_below [OF assms(2)]
    unfolding same_below_def map_of_filter_keys by (auto simp: filter_wf visible_def below_def)
  then show ?thesis
    unfolding update_copy_def
    using assms by (meson below.keep_trans copy_below_same makedirs_same_below separate_def)
qed

lemma copy_sources_same:
  assumes "plain_dir d" "separate d (current_dir i)"
  shows "same_below d fs (copy_sources i fs)"
  unfolding copy_sources_def Let_def using assms
  by (meson below.keep_trans copy_below_same makedirs_same_below separate_def)

lemma update_hash_same:
  assumes "\<not> below d (current_hash i)"
  shows "io_keeps (same_below d) (update_hash_for_current_api t i)"
proof -
  have "io_keeps (same_below d) (io_modify (\<lambda>fs. if path_exists fs (current_hash i) then os_remove (current_hash i) fs else fs))"
    using assms by (intro below.keeps_modify) (auto simp: os_remove_same below.keep_refl)
  moreover have "io_keeps (same_below d) (io_modify (aidl_hash_gen t (current_dir i) hv (current_hash i)))" for hv
    using assms by (intro below.keeps_modify) (auto simp: aidl_hash_gen_def append_file_def dict_set_same_below)
  ultimately show ?thesis
    unfolding update_hash_for_current_api_def Let_def by (intro below.keeps)
qed

text \<open>An operation on an interface stays clear of a directory.\<close>

definition clear_of :: "AidlInterface \<Rightarrow> string \<Rightarrow> bool" where
  "clear_of i d \<longleftrightarrow> outputs_outside i d \<and> separate d (current_dir i) \<and>
     (\<forall>nv. next_version i = Inr nv \<longrightarrow> separate d (get_versioned_dir i nv)) \<and>
     \<not> below d (interface_root i @ ''/interface.json'') \<and> \<not> below d (interface_root i @ ''/interface.yaml'')"

lemma clear_of_hash: "clear_of i d \<Longrightarrow> plain_dir (interface_root_stable i) \<Longrightarrow> \<not> below d (current_hash i)"
  using separate_not_below [of d "current_dir i" "current_hash i"]
  by (auto simp: clear_of_def current_hash_eq below_def under_def)

lemma update_same:
  assumes "map_of ds n = Some i" "plain_dir d" "aidl_frame t d" "clear_of i d" "plain_dir (interface_root_stable i)"
  shows "io_keeps (same_below d) (handle_update_api t limit n ds)"
proof -
  have o: "outputs_outside i d" and s: "separate d (current_dir i)" using assms(4) by (simp_all add: clear_of_def)
  have c: "io_keeps (same_below d) (io_modify (copy_sources i))"
    by (rule below.keeps_modify [OF copy_sources_same [OF assms(2) s]])
  have "handle_update_api t limit n ds = (if layout i = ''module-local'' then io_return ()
      else io_then (pre_validate t limit i ds) (io_then (io_modify (copy_sources i))
        (io_then (update_hash_for_current_api t i) (io_bind (validate_interface t limit i ds) (\<lambda>_. io_return ())))))"
    using assms(1) by (simp add: handle_update_api_def dict_get_def)
  then show ?thesis
    by (simp add: below.keeps c pre_validate_same [OF assms(2,3) o] validate_interface_same [OF assms(2,3) o]
        update_hash_same [OF clear_of_hash [OF assms(4,5)]])
qed

lemma append_version_same:
  assumes "clear_of i d"
  shows "io_keeps (same_below d) (append_version i ds v hp)"
  unfolding io_keeps_def
proof (intro allI impI)
  fix w r w' assume "append_version i ds v hp w = (r, w')"
  then have "writes_def (interface_root i @ ''/interface'') (w_fs w) (w_fs w')" by (rule append_version_writes)
  from writes_def_frame [OF this] show "same_below d (w_fs w) (w_fs w')"
    using assms unfolding same_below_def clear_of_def by (metis append.assoc append_Cons append_Nil)
qed

lemma make_dump_same:
  assumes "plain_dir d" "separate d (get_versioned_dir i v)"
  shows "io_keeps (same_below d) (make_api_dump_as_version i dump v hp)"
  using assms unfolding make_api_dump_as_version_def Let_def
  by (auto intro!: below.keeps_modify simp: freeze_copy_same update_copy_same below.keep_refl)

lemma freeze_same:
  assumes "map_of ds n = Some i" "plain_dir d" "aidl_frame t d" "clear_of i d" "plain_dir (interface_root_stable i)"
  shows "io_keeps (same_below d) (handle_freeze_api t limit n ds)"
proof -
  have o: "outputs_outside i d" using assms(4) by (simp add: clear_of_def)
  note v = validate_interface_same [OF assms(2,3) o]
  show ?thesis
  proof (cases "next_version i")
    case (Inl e)
    then show ?thesis using assms(1) by (simp add: handle_freeze_api_def dict_get_def below.keeps v)
  next
    case (Inr nv)
    have s: "separate d (get_versioned_dir i nv)" using assms(4) Inr by (simp add: clear_of_def)
    show ?thesis
      using assms(1) Inr
      by (simp add: handle_freeze_api_def dict_get_def Let_def below.keeps v
          update_hash_same [OF clear_of_hash [OF assms(4,5)]] check_for_development_same [OF assms(2,3) o]
          dependencies_check_same [OF assms(3)] make_dump_same [OF assms(2) s] append_version_same [OF assms(4)])
  qed
qed

section \<open>Frozen versions\<close>

lemma same_below_mono: "below s d \<Longrightarrow> same_below s fs fs' \<Longrightarrow> same_below d fs fs'"
  using below_trans by (auto simp: same_below_def)

lemma aidl_frame_mono: "below s d \<Longrightarrow> aidl_frame t s \<Longrightarrow> aidl_frame t d"
  using same_below_mono by (auto simp: aidl_frame_def)

lemma outputs_outside_mono: "below s d \<Longrightarrow> outputs_outside i s \<Longrightarrow> outputs_outside i d"
  using below_trans unfolding outputs_outside_def by blast

lemma versioned_separate:
  assumes "plain_dir (interface_root_stable i)" "plain_name a" "plain_name b" "a \<noteq> b"
  shows "separate (get_versioned_dir i a) (get_versioned_dir i b)"
proof -
  have s: "siblings (get_versioned_dir i a) (get_versioned_dir i b)" "siblings (get_versioned_dir i b) (get_versioned_dir i a)"
    using assms unfolding siblings_def get_versioned_dir_def by metis+
  have "get_versioned_dir i a \<noteq> get_versioned_dir i b"
    using path_join_inject [OF assms(1,2) assms(1,3)] assms(4) by (simp add: get_versioned_dir_def)
  moreover have "\<not> under (get_versioned_dir i a) (get_versioned_dir i b)" "\<not> under (get_versioned_dir i b) (get_versioned_dir i a)"
    using siblings_disjoint [OF s(1)] siblings_disjoint [OF s(2)] by (auto simp: below_def)
  ultimately show ?thesis by (simp add: separate_def below_def)
qed

text \<open>The directories of the frozen versions are clear of what is done to the interface.\<close>

lemma frozen_clear:
  assumes "wf_interface i" "\<not> unstable i" "v \<in> set (versions i)"
    and "plain_dir (interface_root_stable i)" "outputs_outside i (interface_root_stable i)" "defs_outside i"
  shows "clear_of i (get_versioned_dir i v)" "plain_dir (get_versioned_dir i v)"
    "below (interface_root_stable i) (get_versioned_dir i v)"
proof -
  let ?n = "length (versions i)"
  have "v \<in> set (map (\<lambda>k. str_of_nat (k + 1)) [0..<?n])"
    using assms(1,3) unfolding wf_interface_def by (metis (no_types, lifting))
  then obtain k where k: "v = str_of_nat (Suc k)" "k < ?n" by auto
  have v: "plain_name v" "v \<noteq> CURRENT_VERSION" "v \<noteq> next_of i"
    using k str_of_nat_plain [of "Suc k"] str_of_nat_current [of "Suc k"] by (auto simp: str_of_nat_inject)
  show b: "below (interface_root_stable i) (get_versioned_dir i v)"
    using version_dir_below(1) [OF assms(4) v(1)] by (simp add: get_versioned_dir_def)
  show "plain_dir (get_versioned_dir i v)" using assms(4) v(1) by (simp add: get_versioned_dir_def)
  have "separate (get_versioned_dir i v) (current_dir i)" "separate (get_versioned_dir i v) (get_versioned_dir i (next_of i))"
    using versioned_separate [OF assms(4)] v current_plain str_of_nat_plain by metis+
  then show "clear_of i (get_versioned_dir i v)"
    using assms(6) outputs_outside_mono [OF b assms(5)] below_trans [OF b] next_version_wf [OF assms(1,2)]
    by (auto simp: clear_of_def defs_outside_def)
qed

text \<open>Any sequence of updates and freezes that stay clear of a directory, whatever their outcome.\<close>

inductive session :: "tools \<Rightarrow> nat \<Rightarrow> string \<Rightarrow> world \<Rightarrow> world \<Rightarrow> bool" for t limit d w where
  start: "session t limit d w w"
| update: "session t limit d w w1 \<Longrightarrow> map_of ds n = Some i \<Longrightarrow> clear_of i d \<Longrightarrow>
    plain_dir (interface_root_stable i) \<Longrightarrow> handle_update_api t limit n ds w1 = (r, w2) \<Longrightarrow> session t limit d w w2"
| freeze: "session t limit d w w1 \<Longrightarrow> map_of ds n = Some i \<Longrightarrow> clear_of i d \<Longrightarrow>
    plain_dir (interface_root_stable i) \<Longrightarrow> handle_freeze_api t limit n ds w1 = (r, w2) \<Longrightarrow> session t limit d w w2"

lemma session_same:
  assumes "session t limit d w w'" "plain_dir d" "aidl_frame t d"
  shows "same_below d (w_fs w) (w_fs w')"
  using assms(1)
proof (induction rule: session.induct)
  case start
  show ?case by (rule below.keep_refl)
next
  case (update w1 ds n i r w2)
  then have "same_below d (w_fs w1) (w_fs w2)"
    using update_same [OF update.hyps(2) assms(2,3) update.hyps(3,4), of limit] by (simp add: io_keeps_def)
  then show ?case using update.IH below.keep_trans by blast
next
  case (freeze w1 ds n i r w2)
  then have "same_below d (w_fs w1) (w_fs w2)"
    using freeze_same [OF freeze.hyps(2) assms(2,3) freeze.hyps(3,4), of limit] by (simp add: io_keeps_def)
  then show ?case using freeze.IH below.keep_trans by blast
qed

end
