(* ===== verification/Progress.thy ===== *)
theory Progress
  imports Import_Modes Frozen_Safe
begin

text \<open>
  That the operations get through. \<open>io_total P m Q\<close> says that from every world with \<open>P\<close> the operation
  returns, without an exception, in a world with \<open>Q\<close>; there is a rule for each construct. With them
  an update and a freeze return when the compiler accepts the sources, the frozen versions are
  intact and the imports can be resolved.
\<close>

section \<open>Total triples\<close>

definition io_total :: "(world \<Rightarrow> bool) \<Rightarrow> 'a io \<Rightarrow> ('a \<Rightarrow> world \<Rightarrow> bool) \<Rightarrow> bool" where
  "io_total P m Q \<longleftrightarrow> (\<forall>w. P w \<longrightarrow> (\<exists>x w'. m w = (Inr x, w') \<and> Q x w'))"

lemma io_totalD: "io_total P m Q \<Longrightarrow> P w \<Longrightarrow> \<exists>x w'. m w = (Inr x, w') \<and> Q x w'"
  by (simp add: io_total_def)

lemma total_bind:
  assumes "io_total P m Q" "\<And>x. io_total (Q x) (f x) R"
  shows "io_total P (io_bind m f) R"
  unfolding io_total_def
proof (intro allI impI)
  fix w assume "P w"
  then obtain x v where 1: "m w = (Inr x, v)" "Q x v" using io_totalD [OF assms(1)] by blast
  then obtain y v' where "f x v = (Inr y, v')" "R y v'" using io_totalD [OF assms(2)] by blast
  then show "\<exists>y w'. io_bind m f w = (Inr y, w') \<and> R y w'" using 1(1) by (simp add: io_bind_step)
qed

lemma total_conseq: "io_total P m Q \<Longrightarrow> (\<And>w. P' w \<Longrightarrow> P w) \<Longrightarrow> (\<And>x w. Q x w \<Longrightarrow> Q' x w) \<Longrightarrow> io_total P' m Q'"
  unfolding io_total_def by meson

lemma total_return: "(\<And>w. P w \<Longrightarrow> Q x w) \<Longrightarrow> io_total P (io_return x) Q"
  by (simp add: io_total_def io_return_def)

lemma total_gets: "(\<And>w. P w \<Longrightarrow> Q (f (w_fs w)) w) \<Longrightarrow> io_total P (io_gets f) Q"
  by (simp add: io_total_def io_gets_def)

lemma total_check: "(\<And>w. P w \<Longrightarrow> b \<and> Q () w) \<Longrightarrow> io_total P (io_check b e) Q"
  by (auto simp: io_total_def io_check_def io_return_def io_raise_def)

lemma total_modify: "(\<And>w. P w \<Longrightarrow> Q () (w\<lparr>w_fs := f (w_fs w)\<rparr>)) \<Longrightarrow> io_total P (io_modify f) Q"
  by (simp add: io_total_def io_modify_def)

text \<open>A loop whose body keeps an invariant.\<close>

lemma total_fold:
  assumes "\<And>x s. x \<in> set xs \<Longrightarrow> io_total P (f x s) (\<lambda>_. P)"
  shows "io_total P (io_fold f xs s) (\<lambda>_. P)"
  using assms
proof (induction xs arbitrary: s)
  case Nil
  show ?case by (simp add: total_return)
next
  case (Cons x xs)
  have "io_total P (f x s) (\<lambda>_. P)" "\<And>s'. io_total P (io_fold f xs s') (\<lambda>_. P)" using Cons by auto
  then show ?case by (simp add: total_bind)
qed

section \<open>What stays while the checks run\<close>

text \<open>Nothing is deleted, nothing below a directory changes, and no resolution is under way.\<close>

definition steady :: "string \<Rightarrow> fs \<Rightarrow> world \<Rightarrow> bool" where
  "steady s fs w \<longleftrightarrow> w_rec w = 0 \<and> grows fs (w_fs w) \<and> same_below s fs (w_fs w)"

lemma steady_start: "w_rec w = 0 \<Longrightarrow> steady s (w_fs w) w"
  by (simp add: steady_def below.keep_refl)

lemma steady_step:
  "steady s fs w \<Longrightarrow> w_rec w' = w_rec w \<Longrightarrow> grows (w_fs w) (w_fs w') \<Longrightarrow> same_below s (w_fs w) (w_fs w') \<Longrightarrow> steady s fs w'"
  using grows_trans below.keep_trans unfolding steady_def by metis

lemma steady_modify:
  assumes "\<And>fs. grows fs (f fs)" "\<And>fs. same_below s fs (f fs)"
  shows "io_total (steady s fs) (io_modify f) (\<lambda>_. steady s fs)"
  by (rule total_modify, erule steady_step) (simp_all add: assms)

lemma run_aidl_total:
  assumes "aidl_accepts t" "aidl_frame t s" "\<And>fs'. Q (fst (t_aidl t cmd fs'))"
  shows "io_total (steady s fs) (run_aidl t cmd) (\<lambda>rc w. Q rc \<and> steady s fs w)"
  unfolding io_total_def
proof (intro allI impI)
  fix w assume st: "steady s fs w"
  obtain rc fs' where r: "t_aidl t cmd (w_fs w) = (rc, fs')" by fastforce
  then have "grows (w_fs w) fs'" "same_below s (w_fs w) fs'" "Q rc"
    using assms unfolding aidl_accepts_def aidl_frame_def by (metis snd_conv, metis snd_conv, metis fst_conv)
  then show "\<exists>x w'. run_aidl t cmd w = (Inr x, w') \<and> Q x \<and> steady s fs w'"
    using r steady_step [OF st, of "w\<lparr>w_fs := fs'\<rparr>"] by (simp add: run_aidl_def)
qed

lemma makedirs_grows: "grows fs (os_makedirs p fs)"
  by (auto simp: grows_def path_exists_def dest: os_makedirs_old)

lemma touch_grows: "grows fs (os_touch p fs)"
  by (auto simp: grows_def os_touch_def path_exists_def map_add_def split: option.splits)

lemma dict_set_grows: "grows fs (dict_set p n fs)"
  by (auto simp: grows_def path_exists_def)

text \<open>The dependencies of a version of the interface can be resolved.\<close>

definition resolves_version :: "AidlInterface dict \<Rightarrow> fs \<Rightarrow> nat \<Rightarrow> AidlInterface \<Rightarrow> string \<Rightarrow> bool \<Rightarrow> bool" where
  "resolves_version d fs limit i version fz \<longleftrightarrow> version \<noteq> [] \<and> (\<exists>nv imps. next_version i = Inr nv \<and>
     imports_of (dep_mode nv version fz) 1 i version = Inr imps \<and> resolvable d fs limit (dep_mode nv version fz) imps)"

lemma resolves_version_grows: "resolves_version d fs limit i v fz \<Longrightarrow> grows fs fs' \<Longrightarrow> resolves_version d fs' limit i v fz"
  using resolvable_grows unfolding resolves_version_def by blast

lemma dependencies_total:
  assumes "aidl_accepts t" "aidl_frame t s" "resolves_version d fs limit i v fz"
  shows "io_total (steady s fs) (get_dependencies t limit i d v fz) (\<lambda>_. steady s fs)"
  unfolding io_total_def
proof (intro allI impI)
  fix w assume st: "steady s fs w"
  have "resolves_version d (w_fs w) limit i v fz" using resolves_version_grows [OF assms(3)] st by (simp add: steady_def)
  then obtain D w' where g: "get_dependencies t limit i d v fz w = (Inr (list_dependencies D), w')" "w_rec w' = 0"
    "grows (w_fs w) (w_fs w')"
    using get_dependencies_listed [OF assms(1)] st unfolding resolves_version_def steady_def by blast
  have "same_below s (w_fs w) (w_fs w')"
    using below.keeps_get_dependencies [OF run_aidl_keeps [OF assms(2)]] g(1) unfolding io_keeps_def by blast
  then have "steady s fs w'" using steady_step [OF st] g st by (simp add: steady_def)
  then show "\<exists>x w'. get_dependencies t limit i d v fz w = (Inr x, w') \<and> steady s fs w'" using g(1) by blast
qed

section \<open>Validation\<close>

text \<open>The compiler finds one directory compatible with another, whatever flags it is given.\<close>

definition aidl_passes :: "tools \<Rightarrow> string \<Rightarrow> string \<Rightarrow> bool" where
  "aidl_passes t old new \<longleftrightarrow>
     (\<forall>flags fs. fst (t_aidl t ([t_cmd_aidl t, ''--checkapi=compatible''] @ flags @ [old, new]) fs) = 0)"

lemma compatibility_total:
  assumes "aidl_accepts t" "plain_dir s" "aidl_frame t s" "outputs_outside i s"
    and "resolves_version d fs limit i (du_version new) False" "aidl_passes t (du_api_dir old) (du_api_dir new)"
  shows "io_total (steady s fs) (check_compatibility t limit i d old new) (\<lambda>_. steady s fs)"
proof -
  have m: "io_total (steady s fs) (io_modify (os_makedirs (path_dirname (timestamp_file i new)))) (\<lambda>_. steady s fs)"
    "io_total (steady s fs) (io_modify (os_touch (timestamp_file i new))) (\<lambda>_. steady s fs)"
    using assms(2,4)
    by (auto intro!: steady_modify makedirs_grows touch_grows makedirs_same_below touch_same_below simp: outputs_outside_def)
  have r: "io_total (steady s fs) (run_aidl t ([t_cmd_aidl t, ''--checkapi='' @ ''compatible''] @ stability_flag i @
      map (\<lambda>dep. ''-p '' @ dep) deps @ [du_api_dir old, du_api_dir new])) (\<lambda>rc w. rc = 0 \<and> steady s fs w)" for deps
    using assms(6) [unfolded aidl_passes_def, rule_format, of "stability_flag i @ map (\<lambda>dep. ''-p '' @ dep) deps"]
    by (intro run_aidl_total [OF assms(1,3)]) simp
  have c: "io_total (\<lambda>w. rc = 0 \<and> steady s fs w) (io_check (rc = 0) e) (\<lambda>_. steady s fs)" for rc :: int and e
    by (rule total_check) simp
  show ?thesis
    unfolding check_compatibility_def check_api_def split_beta
    by (rule total_bind [OF dependencies_total [OF assms(1,3,5)]], rule total_bind [OF r], rule total_bind [OF c],
        rule total_bind [OF m(1)], rule total_bind [OF m(2)], rule total_return)
qed

text \<open>The versions of an interface with the one under development, and their directories.\<close>

abbreviation all_versions :: "AidlInterface \<Rightarrow> string list" where
  "all_versions i \<equiv> versions i @ [next_of i]"

abbreviation all_dirs :: "AidlInterface \<Rightarrow> string list" where
  "all_dirs i \<equiv> map (get_versioned_dir i) (versions i) @ [current_dir i]"

definition version_intact :: "tools \<Rightarrow> fs \<Rightarrow> string \<Rightarrow> string \<Rightarrow> bool" where
  "version_intact t fs v dir = (case version_for_hashgen v of Inl _ \<Rightarrow> False
     | Inr hv \<Rightarrow> integrity_ok (t_sha1 t) fs dir hv (path_join dir ''.hash''))"

text \<open>The compiler and the outputs stay out of the stable directory of the interface.\<close>

definition tools_fit :: "tools \<Rightarrow> AidlInterface \<Rightarrow> bool" where
  "tools_fit t i \<longleftrightarrow> aidl_accepts t \<and> sha1_word t \<and> plain_dir (interface_root_stable i) \<and>
     aidl_frame t (interface_root_stable i) \<and> outputs_outside i (interface_root_stable i)"

text \<open>The frozen versions are there and intact.\<close>

definition frozen_sound :: "tools \<Rightarrow> fs \<Rightarrow> AidlInterface \<Rightarrow> bool" where
  "frozen_sound t fs i \<longleftrightarrow> (\<forall>v \<in> set (versions i). path_exists fs (get_versioned_dir i v) \<and> version_intact t fs v (get_versioned_dir i v))"

text \<open>The version under development is there; if it has a hash, this is right.\<close>

definition current_sound :: "tools \<Rightarrow> fs \<Rightarrow> AidlInterface \<Rightarrow> bool" where
  "current_sound t fs i \<longleftrightarrow> path_exists fs (current_dir i) \<and>
     (path_exists fs (current_hash i) \<longrightarrow> version_intact t fs (next_of i) (current_dir i))"

text \<open>Each version is compatible with the one before, and its imports can be resolved.\<close>

definition chain_ok :: "tools \<Rightarrow> nat \<Rightarrow> AidlInterface dict \<Rightarrow> fs \<Rightarrow> AidlInterface \<Rightarrow> bool" where
  "chain_ok t limit d fs i \<longleftrightarrow> (\<forall>k < length (versions i). aidl_passes t (all_dirs i ! k) (all_dirs i ! Suc k) \<and>
     resolves_version d fs limit i (all_versions i ! Suc k) False)"

lemma chain_ok_grows: "chain_ok t limit d fs i \<Longrightarrow> grows fs fs' \<Longrightarrow> chain_ok t limit d fs' i"
  using resolves_version_grows by (auto simp: chain_ok_def)

text \<open>The dump of the version at a position.\<close>

definition dump_at :: "AidlInterface \<Rightarrow> nat \<Rightarrow> ApiDump \<Rightarrow> bool" where
  "dump_at i j dump \<longleftrightarrow> du_version dump = all_versions i ! j \<and> du_api_dir dump = all_dirs i ! j \<and>
     du_hash_file dump = Some (path_join (all_dirs i ! j) ''.hash'')"

lemma all_dirs_below:
  assumes "wf_interface i" "plain_dir (interface_root_stable i)" "j \<le> length (versions i)"
  shows "below (interface_root_stable i) (all_dirs i ! j)" "below (interface_root_stable i) (path_join (all_dirs i ! j) ''.hash'')"
proof -
  have "\<exists>v. all_dirs i ! j = get_versioned_dir i v \<and> plain_name v"
    using assms(3) versions_plain [OF assms(1)] current_plain by (auto simp: nth_append not_less)
  then show "below (interface_root_stable i) (all_dirs i ! j)" "below (interface_root_stable i) (path_join (all_dirs i ! j) ''.hash'')"
    using version_dir_below [OF assms(2)] by (auto simp: get_versioned_dir_def)
qed

text \<open>The hash of a version stays right while the checks run.\<close>

lemma version_intact_steady:
  assumes "wf_interface i" "plain_dir (interface_root_stable i)" "j \<le> length (versions i)" "wf_dict fs"
    and "steady (interface_root_stable i) fs w"
  shows "version_intact t (w_fs w) v (all_dirs i ! j) = version_intact t fs v (all_dirs i ! j)"
    "path_exists (w_fs w) (path_join (all_dirs i ! j) ''.hash'') = path_exists fs (path_join (all_dirs i ! j) ''.hash'')"
proof -
  have s: "same_below (interface_root_stable i) fs (w_fs w)" using assms(5) by (simp add: steady_def)
  note b = all_dirs_below [OF assms(1-3)]
  show "version_intact t (w_fs w) v (all_dirs i ! j) = version_intact t fs v (all_dirs i ! j)"
    using integrity_same [OF s assms(4) b] by (simp add: version_intact_def split: sum.splits)
  show "path_exists (w_fs w) (path_join (all_dirs i ! j) ''.hash'') = path_exists fs (path_join (all_dirs i ! j) ''.hash'')"
    using s b(2) by (simp add: same_below_def path_exists_def)
qed

lemma sound_positions:
  assumes "frozen_sound t fs i" "current_sound t fs i" "j \<le> length (versions i)"
  shows "path_exists fs (path_join (all_dirs i ! j) ''.hash'') \<Longrightarrow> version_intact t fs (all_versions i ! j) (all_dirs i ! j)"
    and "j < length (versions i) \<Longrightarrow> path_exists fs (path_join (all_dirs i ! j) ''.hash'')"
proof -
  have "version_intact t fs v dir \<Longrightarrow> path_exists fs (path_join dir ''.hash'')" for v dir
    by (auto simp: version_intact_def integrity_ok_def path_exists_def split: sum.splits option.splits)
  then show "j < length (versions i) \<Longrightarrow> path_exists fs (path_join (all_dirs i ! j) ''.hash'')"
    using assms(1) nth_mem by (simp add: frozen_sound_def nth_append) blast
  show "version_intact t fs (all_versions i ! j) (all_dirs i ! j)" if "path_exists fs (path_join (all_dirs i ! j) ''.hash'')"
    using assms that by (cases "j < length (versions i)") (auto simp: frozen_sound_def current_sound_def nth_append)
qed

lemma integrity_total:
  assumes "\<And>w. P w \<Longrightarrow> version_intact t (w_fs w) (du_version dump) (du_api_dir dump)"
    and "du_hash_file dump = Some (path_join (du_api_dir dump) ''.hash'')"
  shows "io_total P (check_integrity t i dump) (\<lambda>_. P)"
  unfolding io_total_def
proof (intro allI impI)
  fix w assume w: "P w"
  obtain hv where "version_for_hashgen (du_version dump) = Inr hv"
    "integrity_ok (t_sha1 t) (w_fs w) (du_api_dir dump) hv (path_join (du_api_dir dump) ''.hash'')"
    using assms(1) [OF w] by (auto simp: version_intact_def split: sum.splits)
  then show "\<exists>x w'. check_integrity t i dump w = (Inr x, w') \<and> P w'"
    using w assms(2)
    by (simp add: check_integrity_def io_bind_def io_res_def io_gets_def io_check_def io_return_def the_default_def)
qed

lemma validate_dump_total:
  assumes fit: "tools_fit t i" and wf: "wf_interface i" "wf_dict fs"
    and sound: "frozen_sound t fs i" "current_sound t fs i" "chain_ok t limit d fs i"
    and at: "dump_at i j (dumps ! k)" "j \<le> length (versions i)" "j = length (versions i) \<Longrightarrow> k = length dumps - 1"
    and prev: "k > 0 \<Longrightarrow> j > 0 \<and> dump_at i (j - 1) (dumps ! (k - 1))"
  shows "io_total (steady (interface_root_stable i) fs) (validate_dump t limit i d dumps k) (\<lambda>_. steady (interface_root_stable i) fs)"
proof -
  let ?S = "interface_root_stable i" and ?h = "path_join (all_dirs i ! j) ''.hash''"
  have f: "aidl_accepts t" "plain_dir ?S" "aidl_frame t ?S" "outputs_outside i ?S" using fit by (simp_all add: tools_fit_def)
  note same = version_intact_steady [OF wf(1) f(2) at(2) wf(2)]
  have g: "io_total (steady ?S fs) (io_gets (\<lambda>fs. path_exists fs (the_default ''None'' (du_hash_file (dumps ! k)))))
      (\<lambda>hashed w. hashed = path_exists fs ?h \<and> steady ?S fs w)"
    using at(1) same(2) by (intro total_gets) (simp add: dump_at_def the_default_def)
  have c: "io_total (\<lambda>w. hashed = path_exists fs ?h \<and> steady ?S fs w)
      (if hashed then check_integrity t i (dumps ! k) else io_check (k = length dumps - 1) e) (\<lambda>_. steady ?S fs)" for hashed e
  proof (cases hashed)
    case True
    have "io_total (\<lambda>w. path_exists fs ?h \<and> steady ?S fs w) (check_integrity t i (dumps ! k)) (\<lambda>_ w. path_exists fs ?h \<and> steady ?S fs w)"
      using at(1) same(1) sound_positions(1) [OF sound(1,2) at(2)] by (intro integrity_total) (auto simp: dump_at_def)
    then show ?thesis using True by (auto elim: total_conseq)
  next
    case False
    have "\<not> path_exists fs ?h \<Longrightarrow> k = length dumps - 1" using at(2,3) sound_positions(2) [OF sound(1,2) at(2)] by fastforce
    then show ?thesis using False by (auto intro!: total_check)
  qed
  have "io_total (steady ?S fs) (check_compatibility t limit i d (dumps ! (k - 1)) (dumps ! k)) (\<lambda>_. steady ?S fs)" if pos: "k > 0"
  proof -
    obtain l where l: "j = Suc l" "dump_at i l (dumps ! (k - 1))" using prev [OF pos] by (cases j) auto
    have "aidl_passes t (all_dirs i ! l) (all_dirs i ! Suc l)" "resolves_version d fs limit i (all_versions i ! Suc l) False"
      using sound(3) at(2) l(1) by (simp_all add: chain_ok_def)
    then show ?thesis using at(1) l by (intro compatibility_total [OF f]) (simp_all add: dump_at_def)
  qed
  then have k: "io_total (steady ?S fs) (if k = 0 then io_return () else io_bind (check_compatibility t limit i d (dumps ! (k - 1)) (dumps ! k))
      (\<lambda>_. io_return ())) (\<lambda>_. steady ?S fs)"
    by (cases "k = 0") (auto intro!: total_return total_bind)
  show ?thesis
    unfolding validate_dump_def by (rule total_bind [OF g], rule total_bind [OF c], rule k)
qed

text \<open>The dumps that are validated: those of the frozen versions when they are listed, and the current one.\<close>

definition dumps_of :: "fs \<Rightarrow> AidlInterface \<Rightarrow> ApiDump list" where
  "dumps_of fs i = (if has_frozen_versions fs i then map (\<lambda>v. dump_of fs v (get_versioned_dir i v)) (versions i) else []) @
     [dump_of fs (next_of i) (current_dir i)]"

lemma dumps_at:
  assumes "k < length (dumps_of fs i)"
  shows "\<exists>j. dump_at i j (dumps_of fs i ! k) \<and> j \<le> length (versions i) \<and> (j = length (versions i) \<longrightarrow> k = length (dumps_of fs i) - 1) \<and>
    (k > 0 \<longrightarrow> j > 0 \<and> dump_at i (j - 1) (dumps_of fs i ! (k - 1)))"
proof (cases "has_frozen_versions fs i")
  case True
  then show ?thesis
    using assms by (intro exI [of _ k]) (auto simp: dumps_of_def dump_at_def dump_of_def nth_append not_less less_Suc_eq)
next
  case False
  then show ?thesis
    using assms by (intro exI [of _ "length (versions i)"]) (auto simp: dumps_of_def dump_at_def dump_of_def nth_append)
qed

lemma validate_unfold:
  assumes "next_version i = Inr (next_of i)" "path_exists (w_fs w) (current_dir i)"
    and "\<And>v. v \<in> set (versions i) \<Longrightarrow> path_exists (w_fs w) (get_versioned_dir i v)"
  shows "validate_interface t limit i d w = io_bind (io_fold (\<lambda>k _. validate_dump t limit i d (dumps_of (w_fs w) i) k)
    [0..<length (dumps_of (w_fs w) i)] ()) (\<lambda>_. io_return (dumps_of (w_fs w) i)) w"
proof -
  let ?frozen = "if has_frozen_versions (w_fs w) i then map (\<lambda>v. dump_of (w_fs w) v (get_versioned_dir i v)) (versions i) else []"
  have "rmap (\<lambda>v. let dir = get_versioned_dir i v in if path_exists (w_fs w) dir then Inr (dump_of (w_fs w) v dir)
      else Inl (RuntimeError v)) (versions i) = rmap (\<lambda>v. Inr (dump_of (w_fs w) v (get_versioned_dir i v))) (versions i)"
    using assms(3) by (intro rmap_cong refl) simp
  then have "frozen_dumps (w_fs w) i = Inr ?frozen" by (simp add: frozen_dumps_def rmap_Inr)
  then show ?thesis
    using assms(1,2) unfolding dumps_of_def
    by (simp add: validate_interface_def Let_def io_bind_def io_gets_def io_res_def split del: if_split)
qed

text \<open>The validation of a sound interface returns.\<close>

lemma validate_total:
  assumes fit: "tools_fit t i" and wf: "wf_interface i" "\<not> unstable i" "wf_dict fs"
    and sound: "frozen_sound t fs i" "current_sound t fs i" "chain_ok t limit d fs i"
  shows "io_total (steady (interface_root_stable i) fs) (validate_interface t limit i d)
    (\<lambda>dumps w. steady (interface_root_stable i) fs w \<and> dumps \<noteq> [] \<and> dump_at i (length (versions i)) (last dumps) \<and>
      (\<forall>l. last_two dumps = Some l \<longrightarrow> versions i \<noteq> [] \<and> du_api_dir l = get_versioned_dir i (last (versions i))))"
  unfolding io_total_def
proof (intro allI impI)
  let ?S = "interface_root_stable i"
  fix w assume st: "steady ?S fs w"
  let ?dumps = "dumps_of (w_fs w) i"
  have g: "path_exists fs p \<Longrightarrow> path_exists (w_fs w) p" for p using st by (simp add: steady_def grows_def)
  have eq: "validate_interface t limit i d w =
      io_bind (io_fold (\<lambda>k _. validate_dump t limit i d ?dumps k) [0..<length ?dumps] ()) (\<lambda>_. io_return ?dumps) w"
    using sound(1,2) g by (intro validate_unfold next_version_wf wf(1,2)) (auto simp: frozen_sound_def current_sound_def)
  have "io_total (steady ?S fs) (validate_dump t limit i d ?dumps k) (\<lambda>_. steady ?S fs)" if "k < length ?dumps" for k
    using dumps_at [OF that] by (auto intro: validate_dump_total [OF fit wf(1,3) sound])
  then have "io_total (steady ?S fs) (io_fold (\<lambda>k _. validate_dump t limit i d ?dumps k) [0..<length ?dumps] ()) (\<lambda>_. steady ?S fs)"
    by (intro total_fold) simp
  from io_totalD [OF this st] obtain w' where
    "io_fold (\<lambda>k _. validate_dump t limit i d ?dumps k) [0..<length ?dumps] () w = (Inr (), w')" "steady ?S fs w'" by auto
  moreover have "dump_at i (length (versions i)) (last ?dumps)" "?dumps \<noteq> []"
    by (simp_all add: dumps_of_def dump_at_def dump_of_def nth_append)
  moreover have "versions i \<noteq> [] \<and> du_api_dir l = get_versioned_dir i (last (versions i))" if "last_two ?dumps = Some l" for l
    using that by (auto simp: last_two_def dumps_of_def nth_append last_conv_nth dump_of_def split: if_splits)
  ultimately show "\<exists>x w'. validate_interface t limit i d w = (Inr x, w') \<and> steady ?S fs w' \<and> x \<noteq> [] \<and>
      dump_at i (length (versions i)) (last x) \<and>
      (\<forall>l. last_two x = Some l \<longrightarrow> versions i \<noteq> [] \<and> du_api_dir l = get_versioned_dir i (last (versions i)))"
    unfolding eq by (simp add: io_bind_step io_return_def)
qed

section \<open>Updates\<close>

lemma copy_below_grows: "grows fs (copy_below keep src dst fs)"
proof -
  have "grows fs (fold (\<lambda>(p, n). dict_set (f p) n) es fs)" for f and es :: fs
    by (induction es arbitrary: fs) (auto intro: grows_trans dict_set_grows)
  then show ?thesis by (simp add: copy_below_def)
qed

lemma copy_sources_grows: "grows fs (copy_sources i fs)"
  unfolding copy_sources_def Let_def by (rule grows_trans [OF makedirs_grows copy_below_grows])

text \<open>Writing the hash of the current version returns, and the hash is right.\<close>

lemma update_hash_total:
  assumes "wf_interface i" "\<not> unstable i" "wf_dict (w_fs w)" "sha1_word t" "plain_dir (interface_root_stable i)"
  shows "\<exists>w'. update_hash_for_current_api t i w = (Inr (), w') \<and> w_rec w' = w_rec w \<and> grows (w_fs w) (w_fs w') \<and>
    wf_dict (w_fs w') \<and> version_intact t (w_fs w') (next_of i) (current_dir i)"
proof -
  note nv = next_version_wf [OF assms(1,2)]
  obtain hv where hv: "version_for_hashgen (next_of i) = Inr hv" using version_for_hashgen_nat by blast
  define w' where "w' = w\<lparr>w_fs := aidl_hash_gen t (current_dir i) hv (current_hash i)
      (if path_exists (w_fs w) (current_hash i) then os_remove (current_hash i) (w_fs w) else w_fs w)\<rparr>"
  have w': "update_hash_for_current_api t i w = (Inr (), w')"
    using nv hv by (simp add: update_hash_for_current_api_def io_bind_def io_modify_def Let_def w'_def)
  note h = update_hash_ok [OF w' assms(3-5)]
  have "path_exists (w_fs w') (current_hash i)" by (simp add: w'_def aidl_hash_gen_def append_file_def path_exists_def)
  then have "grows (w_fs w) (w_fs w')" using h(1) unfolding grows_def path_exists_def by metis
  moreover have "w_rec w' = w_rec w" by (simp add: w'_def)
  ultimately show ?thesis using w' h(2,3) nv hv by (auto simp: version_intact_def)
qed

text \<open>
  When versions are frozen, the compiler finds the sources compatible with the version under
  development, whose imports can be resolved.
\<close>

definition sources_pass :: "tools \<Rightarrow> nat \<Rightarrow> AidlInterface dict \<Rightarrow> fs \<Rightarrow> AidlInterface \<Rightarrow> bool" where
  "sources_pass t limit d fs i \<longleftrightarrow> (path_exists fs (current_dir i) \<and> has_frozen_versions fs i \<longrightarrow>
     aidl_passes t (current_dir i) (interface_root i) \<and> resolves_version d fs limit i (next_of i) False)"

lemma pre_validate_returns:
  assumes fit: "tools_fit t i" and wf: "wf_interface i" "\<not> unstable i"
    and src: "sources_pass t limit d (w_fs w) i" and rec: "w_rec w = 0"
  shows "\<exists>w'. pre_validate t limit i d w = (Inr (), w') \<and> steady (interface_root_stable i) (w_fs w) w'"
proof (cases "path_exists (w_fs w) (current_dir i) \<and> has_frozen_versions (w_fs w) i")
  case True
  let ?S = "interface_root_stable i"
  let ?old = "dump_of (w_fs w) (next_of i) (current_dir i)"
    and ?new = "(dump_of (w_fs w) (next_of i) (interface_root i))\<lparr>du_hash_file := None\<rparr>"
  have "io_total (steady ?S (w_fs w)) (check_compatibility t limit i d ?old ?new) (\<lambda>_. steady ?S (w_fs w))"
    using fit src True by (intro compatibility_total) (simp_all add: tools_fit_def dump_of_def sources_pass_def)
  from io_totalD [OF this steady_start [OF rec]] obtain x w' where
    "check_compatibility t limit i d ?old ?new w = (Inr x, w')" "steady ?S (w_fs w) w'" by blast
  then show ?thesis
    using True next_version_wf [OF wf]
    by (simp add: pre_validate_def Let_def io_bind_def io_gets_def io_catch_def io_return_def)
next
  case False
  then show ?thesis
    using steady_start [OF rec] by (auto simp: pre_validate_def Let_def io_bind_def io_gets_def io_return_def)
qed

text \<open>What is done to the current version leaves the frozen ones sound.\<close>

lemma frozen_sound_same:
  assumes "frozen_sound t fs i" "wf_dict fs" "grows fs fs'"
    and "\<And>v. v \<in> set (versions i) \<Longrightarrow> same_below (get_versioned_dir i v) fs fs'"
    and "wf_interface i" "plain_dir (interface_root_stable i)"
  shows "frozen_sound t fs' i"
  unfolding frozen_sound_def
proof (intro ballI conjI)
  fix v assume v: "v \<in> set (versions i)"
  let ?d = "get_versioned_dir i v"
  have p: "plain_dir ?d" "plain_name ''.hash''"
    using versions_plain [OF assms(5) v] assms(6) by (simp_all add: get_versioned_dir_def plain_name_def not_slash_def)
  have "below ?d (path_join ?d ''.hash'')" using path_join_plain [OF p] by (simp add: below_def under_def)
  then have "integrity_ok sha1 fs' ?d hv (path_join ?d ''.hash'') = integrity_ok sha1 fs ?d hv (path_join ?d ''.hash'')" for sha1 hv
    using integrity_same [OF assms(4) [OF v] assms(2)] by (simp add: below_def)
  then show "version_intact t fs' v ?d" "path_exists fs' ?d"
    using assms(1,3) v by (auto simp: frozen_sound_def version_intact_def grows_def split: sum.splits)
qed

lemma version_apart:
  assumes "plain_dir (interface_root_stable i)" "plain_name v" "v \<noteq> CURRENT_VERSION"
  shows "plain_dir (get_versioned_dir i v)" "separate (get_versioned_dir i v) (current_dir i)"
    "below (interface_root_stable i) (get_versioned_dir i v)" "\<not> below (get_versioned_dir i v) (current_hash i)"
proof -
  show "plain_dir (get_versioned_dir i v)" using assms(1,2) by (simp add: get_versioned_dir_def)
  show s: "separate (get_versioned_dir i v) (current_dir i)"
    by (rule versioned_separate [OF assms(1,2) current_plain assms(3)])
  show "below (interface_root_stable i) (get_versioned_dir i v)"
    using version_dir_below(1) [OF assms(1,2)] by (simp add: get_versioned_dir_def)
  have "below (current_dir i) (current_hash i)" unfolding current_hash_eq [OF assms(1)] by (simp add: below_def under_def)
  then show "\<not> below (get_versioned_dir i v) (current_hash i)" using separate_not_below [OF s] by blast
qed

lemma versions_numbers: "wf_interface i \<Longrightarrow> v \<in> set (versions i) \<Longrightarrow> plain_name v \<and> v \<noteq> CURRENT_VERSION"
  using versions_plain str_of_nat_current unfolding wf_interface_def by (metis (mono_tags, lifting) imageE list.set_map)

text \<open>An update of a sound interface returns and leaves it sound.\<close>

lemma update_returns:
  assumes fit: "tools_fit t i" and i: "map_of d n = Some i" "layout i \<noteq> ''module-local''"
    and wf: "wf_interface i" "\<not> unstable i" "wf_dict (w_fs w)" "w_rec w = 0"
    and sound: "frozen_sound t (w_fs w) i" "chain_ok t limit d (w_fs w) i" "sources_pass t limit d (w_fs w) i"
  shows "\<exists>w'. handle_update_api t limit n d w = (Inr (), w') \<and> w_rec w' = 0 \<and> grows (w_fs w) (w_fs w') \<and> wf_dict (w_fs w') \<and>
    frozen_sound t (w_fs w') i \<and> current_sound t (w_fs w') i \<and>
    (\<forall>v. plain_name v \<and> v \<noteq> CURRENT_VERSION \<longrightarrow> same_below (get_versioned_dir i v) (w_fs w) (w_fs w'))"
proof -
  let ?S = "interface_root_stable i"
  have f: "sha1_word t" "plain_dir ?S" using fit by (simp_all add: tools_fit_def)
  obtain w1 where pre: "pre_validate t limit i d w = (Inr (), w1)" and s1: "steady ?S (w_fs w) w1"
    using pre_validate_returns [OF fit wf(1,2) sound(3) wf(4)] by blast
  define w2 where "w2 = w1\<lparr>w_fs := copy_sources i (w_fs w1)\<rparr>"
  have w2: "w_rec w2 = 0" "wf_dict (w_fs w2)" "grows (w_fs w) (w_fs w2)" "path_exists (w_fs w2) (current_dir i)"
    using s1 wf(3) copy_sources_wf grows_trans [OF _ copy_sources_grows] copy_below_grows [of "os_makedirs (current_dir i) (w_fs w1)"]
      os_makedirs_exists [of "current_dir i" "w_fs w1"]
    by (auto simp: w2_def steady_def same_below_def copy_sources_def Let_def grows_def)
  obtain w3 where hash: "update_hash_for_current_api t i w2 = (Inr (), w3)"
    and w3: "w_rec w3 = w_rec w2" "grows (w_fs w2) (w_fs w3)" "wf_dict (w_fs w3)" "version_intact t (w_fs w3) (next_of i) (current_dir i)"
    using update_hash_total [OF wf(1,2) w2(2) f] by blast
  have g3: "grows (w_fs w) (w_fs w3)" using grows_trans [OF w2(3) w3(2)] .
  have same: "same_below (get_versioned_dir i v) (w_fs w) (w_fs w3)" if v: "plain_name v" "v \<noteq> CURRENT_VERSION" for v
  proof -
    note a = version_apart [OF f(2) v]
    have "same_below (get_versioned_dir i v) (w_fs w) (w_fs w1)" using same_below_mono [OF a(3)] s1 by (simp add: steady_def)
    moreover have "same_below (get_versioned_dir i v) (w_fs w1) (w_fs w2)" using copy_sources_same [OF a(1,2)] by (simp add: w2_def)
    moreover have "same_below (get_versioned_dir i v) (w_fs w2) (w_fs w3)" using update_hash_same [OF a(4)] hash by (auto simp: io_keeps_def)
    ultimately show ?thesis using below.keep_trans by blast
  qed
  have fr: "frozen_sound t (w_fs w3) i"
    using versions_numbers [OF wf(1)] same by (intro frozen_sound_same [OF sound(1) wf(3) g3 _ wf(1) f(2)]) blast
  have cu: "current_sound t (w_fs w3) i" using w2(4) w3(2,4) by (simp add: current_sound_def grows_def)
  from io_totalD [OF validate_total [OF fit wf(1,2) w3(3) fr cu chain_ok_grows [OF sound(2) g3]] steady_start] w2(1) w3(1)
  obtain dumps w4 where val: "validate_interface t limit i d w3 = (Inr dumps, w4)" and s4: "steady ?S (w_fs w3) w4" by auto
  have s5: "same_below (get_versioned_dir i v) (w_fs w3) (w_fs w4)" if "plain_name v" "v \<noteq> CURRENT_VERSION" for v
    using s4 same_below_mono [OF version_apart(3) [OF f(2) that]] by (simp add: steady_def)
  have "frozen_sound t (w_fs w4) i"
    using versions_numbers [OF wf(1)] s5 s4
    by (intro frozen_sound_same [OF fr w3(3) _ _ wf(1) f(2)]) (auto simp: steady_def)
  moreover have "current_sound t (w_fs w4) i"
    using cu s4 version_intact_steady [OF wf(1) f(2) order_refl w3(3) s4] by (auto simp: current_sound_def steady_def grows_def nth_append)
  moreover have "handle_update_api t limit n d w = (Inr (), w4)"
    using i pre hash val
    by (simp add: handle_update_api_def dict_get_def io_bind_def io_modify_def w2_def [symmetric] io_return_def)
  moreover have "w_rec w4 = 0" "grows (w_fs w) (w_fs w4)" "wf_dict (w_fs w4)"
    using s4 grows_trans [OF g3] w3(3) by (auto simp: steady_def same_below_def)
  ultimately show ?thesis using same s5 below.keep_trans by blast
qed

section \<open>Freezes\<close>

text \<open>The compiler finds two directories different.\<close>

definition aidl_differs :: "tools \<Rightarrow> string \<Rightarrow> string \<Rightarrow> bool" where
  "aidl_differs t old new \<longleftrightarrow>
     (\<forall>flags fs. fst (t_aidl t ([t_cmd_aidl t, ''--checkapi=equal''] @ flags @ [old, new]) fs) = 1)"

lemma development_total:
  assumes fit: "tools_fit t i" and new: "\<And>l. latest = Some l \<Longrightarrow> resolves_version d fs limit i (du_version cur) False"
    and diff: "\<And>l. latest = Some l \<Longrightarrow> aidl_differs t (du_api_dir l) (du_api_dir cur)"
  shows "io_total (steady (interface_root_stable i) fs) (check_for_development t limit i d latest cur)
    (\<lambda>hp w. hp = has_dev_path i \<and> cat_text (w_fs w) hp = ''1'' \<and> steady (interface_root_stable i) fs w)"
proof -
  let ?S = "interface_root_stable i"
  have f: "aidl_accepts t" "plain_dir ?S" "aidl_frame t ?S" "outputs_outside i ?S" using fit by (simp_all add: tools_fit_def)
  have m: "io_total (steady ?S fs) (io_modify (os_makedirs (interface_api_dir_out i))) (\<lambda>_. steady ?S fs)"
    using f(2,4) by (intro steady_modify makedirs_grows makedirs_same_below) (simp_all add: outputs_outside_def)
  have rc: "io_total (steady ?S fs) (case latest of
      Some l \<Rightarrow> io_bind (get_dependencies t limit i d (du_version cur) False) (\<lambda>(deps, imps, _).
        run_aidl t ([t_cmd_aidl t, ''--checkapi=equal''] @ stability_flag i @ concat (map (\<lambda>dep. [''-p'', dep]) deps) @
          [du_api_dir l, du_api_dir cur]))
    | None \<Rightarrow> io_return 1) (\<lambda>rc w. rc = 1 \<and> steady ?S fs w)"
  proof (cases latest)
    case None
    then show ?thesis by (simp add: total_return)
  next
    case (Some l)
    have "io_total (steady ?S fs) (run_aidl t ([t_cmd_aidl t, ''--checkapi=equal''] @ stability_flag i @
        concat (map (\<lambda>dep. [''-p'', dep]) deps) @ [du_api_dir l, du_api_dir cur])) (\<lambda>rc w. rc = 1 \<and> steady ?S fs w)" for deps
      using diff [OF Some, unfolded aidl_differs_def, rule_format, of "stability_flag i @ concat (map (\<lambda>dep. [''-p'', dep]) deps)"]
      by (intro run_aidl_total [OF f(1,3)]) simp
    then show ?thesis
      unfolding Some option.case split_beta by (intro total_bind [OF dependencies_total [OF f(1,3) new [OF Some]]])
  qed
  have "io_total (\<lambda>w. rc = 1 \<and> steady ?S fs w) (io_modify (dict_set (has_dev_path i) (FFile (str_of_int rc @ [chr_nl]))))
      (\<lambda>_ w. cat_text (w_fs w) (has_dev_path i) = ''1'' \<and> steady ?S fs w)" for rc :: int
  proof (rule total_modify)
    fix w assume w: "rc = 1 \<and> steady ?S fs w"
    have "str_of_int 1 = ''1''" by code_simp
    then have "cat_text (dict_set (has_dev_path i) (FFile (str_of_int 1 @ [chr_nl])) (w_fs w)) (has_dev_path i) = ''1''"
      by (simp add: cat_text_def the_default_def node_text_def)
    moreover have "steady ?S fs (w\<lparr>w_fs := dict_set (has_dev_path i) x (w_fs w)\<rparr>)" for x
      by (rule steady_step [of ?S fs w]) (use w f(4) in \<open>auto simp: dict_set_grows dict_set_same_below outputs_outside_def\<close>)
    ultimately show "cat_text (w_fs (w\<lparr>w_fs := dict_set (has_dev_path i) (FFile (str_of_int rc @ [chr_nl])) (w_fs w)\<rparr>)) (has_dev_path i) = ''1'' \<and>
        steady ?S fs (w\<lparr>w_fs := dict_set (has_dev_path i) (FFile (str_of_int rc @ [chr_nl])) (w_fs w)\<rparr>)" using w by simp
  qed
  then show ?thesis
    unfolding check_for_development_def
    by (rule total_bind [OF m, OF total_bind [OF rc, OF total_bind [OF _ total_return]]]) simp
qed

lemma dependencies_check_total:
  assumes fit: "tools_fit t i" and wf: "wf_interface i" "\<not> unstable i"
    and new: "resolves_version d fs limit i (next_of i) True" and cur: "path_exists fs (current_dir i)"
  shows "io_total (steady (interface_root_stable i) fs) (dependecies_check_for_freeze t limit i d) (\<lambda>_. steady (interface_root_stable i) fs)"
proof -
  let ?S = "interface_root_stable i"
  have f: "aidl_accepts t" "aidl_frame t ?S" using fit by (simp_all add: tools_fit_def)
  have files: "io_total (steady ?S fs) (io_gets (\<lambda>fs. glob_files fs (interface_root i) (srcs i))) (\<lambda>_. steady ?S fs)"
    by (rule total_gets)
  have there: "io_total (steady ?S fs) (io_gets (\<lambda>fs. path_exists fs (current_dir i))) (\<lambda>ok w. ok \<and> steady ?S fs w)"
    using cur by (intro total_gets) (simp add: steady_def grows_def)
  have check: "io_total (\<lambda>w. ok \<and> steady ?S fs w) (io_check ok e) (\<lambda>_. steady ?S fs)" for ok e
    by (rule total_check) simp
  have run: "io_total (steady ?S fs) (exec_cmd t (t_cmd_aidl t # ''--preprocess'' # args)) (\<lambda>ok w. ok \<and> steady ?S fs w)" for args
    unfolding exec_cmd_def
    by (rule total_bind [OF run_aidl_total [OF f, of "\<lambda>rc. rc = 0"] total_return]) (use f(1) in \<open>auto simp: aidl_accepts_def\<close>)
  show ?thesis
    unfolding dependecies_check_for_freeze_def Let_def split_beta next_version_wf [OF wf] io_bind_simps append_Cons
    by (rule total_bind [OF dependencies_total [OF f new]], rule total_bind [OF files], rule total_bind [OF there],
        rule total_bind [OF check], rule total_bind [OF run], rule check)
qed

lemma append_version_returns:
  assumes "frozen_imports d i = Inr imps"
  shows "\<exists>w'. append_version i d v hp w = (Inr (), w')"
proof (cases "cat_text (w_fs w) hp = ''1''")
  case True
  obtain r w1 where "update_main (append_argv i v imps) w = (r, w1)" by fastforce
  then show ?thesis
    using assms True by (cases r) (auto simp: append_version_def io_bind_def io_gets_def io_catch_def io_return_def)
qed (use assms in \<open>simp add: append_version_def io_bind_def io_gets_def io_return_def\<close>)

lemma chain_ok_next: "chain_ok t limit d fs i \<Longrightarrow> versions i \<noteq> [] \<Longrightarrow> resolves_version d fs limit i (next_of i) False"
  unfolding chain_ok_def
  by (drule spec [of _ "length (versions i) - 1"]) (simp add: nth_append)

text \<open>A freeze is put together from the steps it takes; copying and recording come last.\<close>

lemma freeze_run:
  assumes "map_of d n = Some i" "validate_interface t limit i d w = (Inr dumps, w1)" "next_version i = Inr (next_of i)"
    and "dumps \<noteq> []" "du_version (last dumps) = next_of i" "du_api_dir (last dumps) = current_dir i"
    and "update_hash_for_current_api t i w1 = (Inr (), w2)"
    and "check_for_development t limit i d (last_two dumps) (last dumps) w2 = (Inr (has_dev_path i), w3)"
    and "dependecies_check_for_freeze t limit i d w3 = (Inr (), w4)"
    and "append_version i d (next_of i) (has_dev_path i) (w4\<lparr>w_fs := freeze_copied i (next_of i) (w_fs w4)\<rparr>) = (Inr (), w5)"
  shows "handle_freeze_api t limit n d w = (Inr (), w5)"
proof -
  have "make_api_dump_as_version i (last dumps) (next_of i) (has_dev_path i) w4 =
      (Inr (), w4\<lparr>w_fs := freeze_copied i (next_of i) (w_fs w4)\<rparr>)"
    using str_of_nat_current assms(6) by (simp add: make_api_dump_as_version_def Let_def io_modify_def freeze_copied_def)
  then show ?thesis
    using assms unfolding handle_freeze_api_def Let_def last_two_def [symmetric] by (simp add: dict_get_def io_bind_step)
qed

lemma freeze_returns:
  assumes fit: "tools_fit t i" and i: "map_of d n = Some i"
    and wf: "wf_interface i" "\<not> unstable i" "wf_dict (w_fs w)" "w_rec w = 0"
    and sound: "frozen_sound t (w_fs w) i" "current_sound t (w_fs w) i" "chain_ok t limit d (w_fs w) i"
    and latest: "resolves_version d (w_fs w) limit i (next_of i) True" "frozen_imports d i = Inr imps"
    and diff: "versions i \<noteq> [] \<Longrightarrow> aidl_differs t (get_versioned_dir i (last (versions i))) (current_dir i)"
    and dev: "aidl_frame t (has_dev_path i)" "defs_outside i"
  shows "\<exists>w'. handle_freeze_api t limit n d w = (Inr (), w') \<and> cat_text (w_fs w') (has_dev_path i) = ''1''"
proof -
  let ?S = "interface_root_stable i" and ?H = "has_dev_path i"
  have f: "sha1_word t" "plain_dir ?S" "outputs_outside i ?S" using fit by (simp_all add: tools_fit_def)
  obtain dumps w1 where val: "validate_interface t limit i d w = (Inr dumps, w1)" and s1: "steady ?S (w_fs w) w1"
    and d: "dumps \<noteq> []" "dump_at i (length (versions i)) (last dumps)"
    and l: "\<forall>l. last_two dumps = Some l \<longrightarrow> versions i \<noteq> [] \<and> du_api_dir l = get_versioned_dir i (last (versions i))"
    using io_totalD [OF validate_total [OF fit wf(1-3) sound] steady_start [OF wf(4)]] by blast
  have cur: "du_version (last dumps) = next_of i" "du_api_dir (last dumps) = current_dir i" using d(2) by (simp_all add: dump_at_def nth_append)
  have wf1: "wf_dict (w_fs w1)" using s1 wf(3) by (simp add: steady_def same_below_def)
  obtain w2 where hash: "update_hash_for_current_api t i w1 = (Inr (), w2)" and w2: "w_rec w2 = w_rec w1" "grows (w_fs w1) (w_fs w2)"
    using update_hash_total [OF wf(1,2) wf1 f(1,2)] by blast
  have g2: "grows (w_fs w) (w_fs w2)" and r2: "w_rec w2 = 0" using s1 w2 grows_trans by (auto simp: steady_def)
  have "resolves_version d (w_fs w2) limit i (next_of i) False" if "versions i \<noteq> []"
    by (rule resolves_version_grows [OF chain_ok_next [OF sound(3) that] g2])
  then have "io_total (steady ?S (w_fs w2)) (check_for_development t limit i d (last_two dumps) (last dumps))
      (\<lambda>hp w. hp = ?H \<and> cat_text (w_fs w) hp = ''1'' \<and> steady ?S (w_fs w2) w)"
    using l diff cur by (intro development_total [OF fit]) auto
  from io_totalD [OF this steady_start [OF r2]] obtain w3 where
    dv: "check_for_development t limit i d (last_two dumps) (last dumps) w2 = (Inr ?H, w3)"
    and w3: "cat_text (w_fs w3) ?H = ''1''" "steady ?S (w_fs w2) w3" by auto
  have "path_exists (w_fs w2) (current_dir i)" using sound(2) g2 by (simp add: current_sound_def grows_def)
  from io_totalD [OF dependencies_check_total [OF fit wf(1,2) resolves_version_grows [OF latest(1) g2] this] w3(2)]
  obtain w4 where dep: "dependecies_check_for_freeze t limit i d w3 = (Inr (), w4)" by auto
  then have H4: "map_of (w_fs w4) ?H = map_of (w_fs w3) ?H"
    using dependencies_check_same [OF dev(1)] by (fastforce simp: io_keeps_def same_below_def below_def)
  obtain w5 where app: "append_version i d (next_of i) ?H (w4\<lparr>w_fs := freeze_copied i (next_of i) (w_fs w4)\<rparr>) = (Inr (), w5)"
    using append_version_returns [OF latest(2)] by blast
  have "cat_text (w_fs w5) ?H = ''1''"
    using append_version_frame [OF app dev(2), of ?H] freeze_copied_dev [OF f(2,3)] H4 w3(1) by (simp add: cat_text_def)
  moreover have "handle_freeze_api t limit n d w = (Inr (), w5)"
    by (rule freeze_run [OF i val next_version_wf [OF wf(1,2)] d(1) cur hash dv dep app])
  ultimately show ?thesis by blast
qed

section \<open>A release\<close>

lemma move_path_twice: "under src p \<Longrightarrow> move_path mid dst (move_path src mid p) = move_path src dst p"
  by (simp add: move_path_def)

lemma fresh_dir_same: "fresh_dir fs d \<Longrightarrow> same_below d fs fs' \<Longrightarrow> fresh_dir fs' d"
  by (auto simp: fresh_dir_def same_below_def below_def)

lemma source_not_special:
  assumes "under (interface_root i) p" "py_endswith p ''.aidl''" "plain_dir (interface_root_stable i)"
  shows "move_path (interface_root i) (current_dir i) p \<notin>
    {current_hash i, current_dir i @ ''/interface.json'', current_dir i @ ''/interface.yaml''}"
  using aidl_not_def [OF move_suffix [OF assms(1,2)], of "current_dir i"] move_suffix [OF assms(1,2), of "current_dir i"]
    hash_not_aidl current_hash_eq [OF assms(3)] by auto

end
