(* ===== verification/Gen_Progress.thy ===== *)
theory Gen_Progress
  imports Progress Gen_Rule
begin

text \<open>
  That source generation gets to the compiler: from a sound state, with imports that can be
  resolved, the compiler is run on the files of the requested version, and its status decides.
\<close>

section \<open>Files found by a walk\<close>

lemma child_below:
  assumes "below s d" "path_dirname p = d" "length d < length p" "plain_dir s"
  shows "below s p"
proof -
  have "last s \<in> set d" using assms(1,4) by (auto simp: below_def under_def prefix_def plain_dir_def)
  then have "\<not> list_all (\<lambda>c. c = CHR ''/'') d" using assms(4) by (auto simp: list_all_iff plain_dir_def not_slash_def)
  then show ?thesis using assms dirname_under below_trans unfolding below_def by blast
qed

lemma children_mem: "p \<in> set (children fs d) \<longleftrightarrow> path_dirname p = d \<and> length d < length p \<and> path_exists fs p"
  using in_keys_iff [of p fs] by (auto simp: children_def path_exists_def simp del: set_map)

lemma dir_file_paths_same:
  assumes "\<And>p. below s p \<Longrightarrow> map_of fs' p = map_of fs p" "plain_dir s" "below s d"
  shows "set (dir_file_paths fs' d) = set (dir_file_paths fs d)"
  using child_below [OF assms(3) _ _ assms(2)] assms(1)
  by (auto simp: dir_file_paths_def children_mem path_isfile_def path_exists_def path_isdir_def)

lemma walk_dirs_same:
  assumes "\<And>p. below s p \<Longrightarrow> map_of fs' p = map_of fs p" "plain_dir s" "below s d"
  shows "set (walk_dirs skip fs' d) = set (walk_dirs skip fs d)"
  using assms
proof (induction skip fs d rule: walk_dirs.induct)
  case (1 skip fs d)
  have same: "path_isdir fs' p = path_isdir fs p" "path_exists fs' p = path_exists fs p" if "below s p" for p
    using 1(2) [OF that] by (simp_all add: path_isdir_def path_exists_def)
  let ?sub = "\<lambda>g. {p. path_dirname p = d \<and> length d < length p \<and> path_isdir g p \<and> p \<notin> set skip}"
  have walk: "set (walk_dirs skip g d) = (if path_isdir g d then insert d (\<Union>p \<in> ?sub g. set (walk_dirs skip g p)) else {})" for g
    by (subst walk_dirs.simps) (auto simp: children_mem path_isdir_def path_exists_def)
  have sub: "below s p" if "p \<in> ?sub fs \<or> p \<in> ?sub fs'" for p
    using that child_below [OF 1(4) _ _ 1(3)] by blast
  have "?sub fs' = ?sub fs" using same(1) sub by blast
  moreover have "set (walk_dirs skip fs' p) = set (walk_dirs skip fs p)" if "path_isdir fs d" "p \<in> ?sub fs" for p
    using that sub 1(2,3) by (intro 1(1)) (auto simp: children_mem path_isdir_def path_exists_def)
  ultimately show ?case using same(1) [OF 1(4)] by (simp add: walk)
qed

lemma walk_dirs_below:
  assumes "plain_dir s" "below s d" "x \<in> set (walk_dirs skip fs d)"
  shows "below s x"
  using assms
proof (induction skip fs d rule: walk_dirs.induct)
  case (1 skip fs d)
  from 1(4) consider "x = d" | p where "path_isdir fs d" "p \<in> set (children fs d)" "path_isdir fs p" "p \<notin> set skip" "x \<in> set (walk_dirs skip fs p)"
    by (subst (asm) walk_dirs.simps) (auto split: if_splits)
  then show ?case
  proof cases
    case 2
    then have "below s p" using child_below [OF 1(3) _ _ 1(2)] by (auto simp: children_mem)
    then show ?thesis using 1(1) [of p] 1(2) 2 by auto
  qed (use 1(3) in simp)
qed

text \<open>The files that are found below a directory depend on what is there and on nothing else.\<close>

lemma find_files_same:
  assumes "same_below s fs fs'" "plain_dir s" "below s dir"
  shows "set (find_files fs' dir pat) = set (find_files fs dir pat)"
proof -
  have eq: "map_of fs' p = map_of fs p" if "below s p" for p using assms(1) that by (simp add: same_below_def)
  have "set (walk_dirs [] fs' dir) = set (walk_dirs [] fs dir)" by (rule walk_dirs_same [OF eq assms(2,3)])
  moreover have "set (dir_file_paths fs' x) = set (dir_file_paths fs x)" if "x \<in> set (walk_dirs [] fs dir)" for x
    by (rule dir_file_paths_same [OF eq assms(2) walk_dirs_below [OF assms(2,3) that]])
  ultimately show ?thesis by (simp add: find_files_def)
qed

section \<open>Generation\<close>

text \<open>The directory of a version of the interface, the one under development included.\<close>

definition version_dir_of :: "AidlInterface \<Rightarrow> string \<Rightarrow> string" where
  "version_dir_of i v = get_versioned_dir i (if v = next_of i then CURRENT_VERSION else v)"

lemma version_dir_of_below:
  assumes "wf_interface i" "plain_dir (interface_root_stable i)" "v \<in> set (all_versions i)"
  shows "below (interface_root_stable i) (version_dir_of i v)"
    "below (interface_root_stable i) (path_join (version_dir_of i v) ''.hash'')"
proof -
  have "plain_name (if v = next_of i then CURRENT_VERSION else v)"
    using assms(3) versions_plain [OF assms(1)] current_plain by auto
  then show "below (interface_root_stable i) (version_dir_of i v)"
    "below (interface_root_stable i) (path_join (version_dir_of i v) ''.hash'')"
    using version_dir_below [OF assms(2)] by (simp_all add: version_dir_of_def get_versioned_dir_def)
qed

lemma requested_version_ok:
  assumes "wf_interface i" "layout i \<noteq> ''module-local''" "v \<in> set (all_versions i)"
  shows "check_gen_version i (next_of i) v = Inr ()"
proof -
  obtain k where "v = str_of_nat (Suc k)" "k \<le> length (versions i)"
  proof (cases "v \<in> set (versions i)")
    case True
    then have "v \<in> set (map (\<lambda>k. str_of_nat (k + 1)) [0..<length (versions i)])"
      using assms(1) unfolding wf_interface_def by metis
    then show ?thesis using that by auto
  qed (use assms(3) that in auto)
  then show ?thesis using assms(2) py_int_str_of_nat by (simp add: check_gen_version_def)
qed

text \<open>Where the sources and the headers of a version go.\<close>

definition gen_src_dir :: "AidlInterface \<Rightarrow> string option \<Rightarrow> string \<Rightarrow> string" where
  "gen_src_dir i gen_dir v = the_default
     (path_join (path_join (interface_gen_dir i) (if v = next_of i then CURRENT_VERSION else v)) ''src'') gen_dir"

definition gen_inc_dir :: "AidlInterface \<Rightarrow> string option \<Rightarrow> string \<Rightarrow> string" where
  "gen_inc_dir i gen_dir v = (case gen_dir of
       None \<Rightarrow> path_join (path_join (interface_gen_dir i) (if v = next_of i then CURRENT_VERSION else v)) ''include''
     | Some dir \<Rightarrow> path_join dir ''include'')"

text \<open>The command line of the compiler for a version, with the hash that is stored with it.\<close>

definition gen_command :: "tools \<Rightarrow> AidlInterface \<Rightarrow> fs \<Rightarrow> string option \<Rightarrow> string \<Rightarrow> string list \<Rightarrow> string list \<Rightarrow> string list" where
  "gen_command t i fs gen_dir v imps files = py_split (gen_cmd t i (version_dir_of i v # imps) (gen_inc_dir i gen_dir v) v
     (read_hash fs (path_join (version_dir_of i v) ''.hash'')) (gen_src_dir i gen_dir v) files)"

definition compile_result :: "int \<Rightarrow> unit res" where
  "compile_result rc = (if rc = 0 then Inr () else Inl (RuntimeError ''AIDL compilation failed''))"

lemma gen_cpp_sources_run:
  assumes "map_of d n = Some i" "next_version i = Inr (next_of i)" "layout i \<noteq> ''module-local''" "v = the_default (next_of i) gv"
    and "path_exists (w_fs w) (version_dir_of i v)" "find_files (w_fs w) (version_dir_of i v) ''*.aidl'' \<noteq> []"
    and "get_dependencies t limit i d v False w = (Inr (deps, imps, names), w1)"
    and "t_aidl t (gen_command t i (w_fs w1) gen_dir v imps (find_files (w_fs w) (version_dir_of i v) ''*.aidl'')) (w_fs w1) = (rc, fs')"
  shows "gen_cpp_sources t limit n d gen_dir gv w = (compile_result rc, w1\<lparr>w_fs := fs'\<rparr>)"
proof -
  have vd: "gen_version_dir i (next_of i) v = (if v = next_of i then CURRENT_VERSION else v)"
    using assms(3) by (simp add: gen_version_dir_def)
  have emit: "resolve_emit_version (layout i) mv v h b = Inr v" for mv h b
    using assms(3) by (simp add: resolve_emit_version_def split: option.splits)
  have dir: "get_versioned_dir i (if v = next_of i then CURRENT_VERSION else v) = version_dir_of i v"
    by (simp add: version_dir_of_def)
  show ?thesis
    using assms(1,2,5-8)
    unfolding gen_cpp_sources_def Let_def
    by (cases gen_dir; cases "rc = 0")
       (simp_all add: assms(4) [symmetric] dict_get_def io_bind_def io_res_def io_gets_def io_check_def io_return_def io_raise_def run_aidl_def vd dir emit
        gen_command_def gen_src_dir_def gen_inc_dir_def compile_result_def split del: if_split)
qed

text \<open>
  From a sound state, generation for a version of the interface runs the compiler, with the files
  of the version, the hash stored with it and the directories of its dependencies; it returns or
  fails as the compiler does.
\<close>

lemma source_gen_run:
  assumes fit: "tools_fit t i" and d: "map_of d n = Some i" "layout i \<noteq> ''module-local''"
    and wf: "wf_interface i" "\<not> unstable i" "wf_dict (w_fs w)" "w_rec w = 0"
    and sound: "frozen_sound t (w_fs w) i" "current_sound t (w_fs w) i" "chain_ok t limit d (w_fs w) i"
    and v: "v = the_default (next_of i) gv" "v \<in> set (all_versions i)"
    and imps: "imports_of (dep_mode (next_of i) v False) 1 i v = Inr imps"
      "resolvable d (w_fs w) limit (dep_mode (next_of i) v False) imps"
    and files: "find_files (w_fs w) (version_dir_of i v) ''*.aidl'' \<noteq> []"
  shows "\<exists>D files w1 rc fs'. represents d D (needed d (dep_mode (next_of i) v False) imps) \<and>
    set files = set (find_files (w_fs w) (version_dir_of i v) ''*.aidl'') \<and>
    same_below (interface_root_stable i) (w_fs w) (w_fs w1) \<and>
    t_aidl t (gen_command t i (w_fs w) gen_dir v (fst (snd (list_dependencies D))) files) (w_fs w1) = (rc, fs') \<and>
    handle_source_gen t limit n d gen_dir gv w = (compile_result rc, w1\<lparr>w_fs := fs'\<rparr>)"
proof -
  let ?S = "interface_root_stable i" and ?dir = "version_dir_of i v"
  have f: "aidl_accepts t" "plain_dir ?S" "aidl_frame t ?S" using fit by (simp_all add: tools_fit_def)
  note nv = next_version_wf [OF wf(1,2)]
  note below_dir = version_dir_of_below [OF wf(1) f(2) v(2)]
  obtain dumps w0 where val: "validate_interface t limit i d w = (Inr dumps, w0)" "steady ?S (w_fs w) w0" "dumps \<noteq> []"
    "dump_at i (length (versions i)) (last dumps)"
    using io_totalD [OF validate_total [OF fit wf(1-3) sound] steady_start [OF wf(4)]] by blast
  then have s0: "same_below ?S (w_fs w) (w_fs w0)" "grows (w_fs w) (w_fs w0)" "w_rec w0 = 0" by (simp_all add: steady_def)
  have "plain_name v" using v(2) versions_plain [OF wf(1)] str_of_nat_plain by auto
  then have "v \<noteq> []" by (simp add: plain_name_def)
  from get_dependencies_listed [OF f(1) s0(3) nv this imps(1) resolvable_grows [OF imps(2) s0(2)]]
  obtain D w1 where D: "get_dependencies t limit i d v False w0 = (Inr (list_dependencies D), w1)"
    "represents d D (needed d (dep_mode (next_of i) v False) imps)" by blast
  have "same_below ?S (w_fs w0) (w_fs w1)"
    using below.keeps_get_dependencies [OF run_aidl_keeps [OF f(3)]] D(1) unfolding io_keeps_def by blast
  then have s1: "same_below ?S (w_fs w) (w_fs w1)" using s0(1) below.keep_trans by blast
  have ff: "set (find_files (w_fs w0) ?dir ''*.aidl'') = set (find_files (w_fs w) ?dir ''*.aidl'')"
    by (rule find_files_same [OF s0(1) f(2) below_dir(1)])
  have "path_exists (w_fs w) ?dir" using sound(1,2) v(2) by (auto simp: frozen_sound_def current_sound_def version_dir_of_def)
  then have ex: "path_exists (w_fs w0) ?dir" using s0(2) by (simp add: grows_def)
  have cmd: "gen_command t i (w_fs w1) gen_dir v is fl = gen_command t i (w_fs w) gen_dir v is fl" for "is" fl
    using s1 below_dir(2) by (simp add: gen_command_def read_hash_def same_below_def)
  obtain rc fs' where rc: "t_aidl t (gen_command t i (w_fs w) gen_dir v (fst (snd (list_dependencies D)))
      (find_files (w_fs w0) ?dir ''*.aidl'')) (w_fs w1) = (rc, fs')" by fastforce
  have "find_files (w_fs w0) ?dir ''*.aidl'' \<noteq> []" using ff files by (metis set_empty)
  then have "gen_cpp_sources t limit n d gen_dir gv w0 = (compile_result rc, w1\<lparr>w_fs := fs'\<rparr>)"
    using gen_cpp_sources_run [OF d(1) nv d(2) v(1) ex _ D(1) [unfolded list_dependencies_def]] rc
    by (simp add: cmd list_dependencies_def)
  moreover have "(case gv of None \<Rightarrow> Inr () | Some u \<Rightarrow> check_gen_version i (next_of i) u) = Inr ()"
    using requested_version_ok [OF wf(1) d(2) v(2)] v(1) by (cases gv) (simp_all add: the_default_def)
  ultimately have "handle_source_gen t limit n d gen_dir gv w = (compile_result rc, w1\<lparr>w_fs := fs'\<rparr>)"
    using val d(1) nv wf(2)
    by (simp add: handle_source_gen_def dict_get_def io_bind_def io_res_def dump_at_def nth_append)
  then show ?thesis using D(2) ff s1 rc by blast
qed

text \<open>A requested version that is out of range, or requested where versions are directories, is refused after the checks.\<close>

lemma source_gen_refused:
  assumes fit: "tools_fit t i" and d: "map_of d n = Some i"
    and wf: "wf_interface i" "\<not> unstable i" "wf_dict (w_fs w)" "w_rec w = 0"
    and sound: "frozen_sound t (w_fs w) i" "current_sound t (w_fs w) i" "chain_ok t limit d (w_fs w) i"
    and refused: "check_gen_version i (next_of i) v = Inl e"
  shows "\<exists>w'. handle_source_gen t limit n d gen_dir (Some v) w = (Inl e, w') \<and> steady (interface_root_stable i) (w_fs w) w'"
proof -
  obtain dumps w0 where val: "validate_interface t limit i d w = (Inr dumps, w0)" "steady (interface_root_stable i) (w_fs w) w0"
    "dumps \<noteq> []" "dump_at i (length (versions i)) (last dumps)"
    using io_totalD [OF validate_total [OF fit wf(1-3) sound] steady_start [OF wf(4)]] by blast
  then have "handle_source_gen t limit n d gen_dir (Some v) w = (Inl e, w0)"
    using d next_version_wf [OF wf(1,2)] wf(2) refused
    by (simp add: handle_source_gen_def dict_get_def io_bind_def io_res_def dump_at_def nth_append io_raise_def)
  then show ?thesis using val(2) by blast
qed

end
