(* ===== verification/Import_Errors.thy ===== *)
theory Import_Errors
  imports Import_Modes
begin

text \<open>
  Resolutions that cannot succeed. A visit that returns leaves the counter and the mode as they were
  and keeps every mark on the dependencies that \<^verbatim>\<open>add_dependency\<close> keeps, a \<open>visit_mark\<close>. So a node that
  cannot be visited once a mark is set stops every visit that reaches it.
\<close>

section \<open>What a visit that returns leaves\<close>

lemma gen_preprocessed_rec: "aidl_gen_preprocessed t i v deps w = (Inr (), w') \<Longrightarrow> w_rec w' = w_rec w"
  by (auto simp: aidl_gen_preprocessed_def Let_def io_bind_Inr io_gets_def io_res_def io_check_def io_return_def io_raise_def
      exec_cmd_def run_aidl_def split: if_splits sum.splits prod.splits)

lemma store_dependency_Inr:
  assumes "store_dependency t i v ad w = (Inr ad', w')"
  obtains x where "ad' = ad\<lparr>ad_deps := dict_set (base_name i) x (ad_deps ad)\<rparr>" "di_version x = v" "w_rec w' = w_rec w"
  using assms gen_preprocessed_rec
  by (auto simp: store_dependency_def io_bind_Inr io_res_def io_return_def split: sum.splits)

lemma add_dependency_Inr:
  assumes "add_dependency t i v ad w = (Inr ad', w')"
  obtains y where "ad_type ad' = ad_type ad" "w_rec w' = w_rec w"
    "\<And>m. map_of (ad_deps ad') m = (if m = base_name i then Some y else map_of (ad_deps ad) m)"
    "case map_of (ad_deps ad) (base_name i) of None \<Rightarrow> di_version y = v
     | Some old \<Rightarrow> \<not> isl (py_int (di_version old)) \<and> \<not> isl (py_int v)"
proof (cases "map_of (ad_deps ad) (base_name i)")
  case None
  then have "store_dependency t i v ad w = (Inr ad', w')" using assms by (simp add: add_dependency_def)
  then obtain x where "ad' = ad\<lparr>ad_deps := dict_set (base_name i) x (ad_deps ad)\<rparr>" "di_version x = v" "w_rec w' = w_rec w"
    by (rule store_dependency_Inr)
  then show thesis using that [of x] None by simp
next
  case (Some old)
  then obtain k l where kl: "py_int (di_version old) = Inr k" "py_int v = Inr l"
    and r: "(if k \<ge> l then io_return ad else store_dependency t i v (ad\<lparr>ad_deps := dict_del (base_name i) (ad_deps ad)\<rparr>)) w = (Inr ad', w')"
    using assms by (auto simp: add_dependency_def io_bind_Inr io_res_def split: sum.splits)
  show thesis
  proof (cases "k \<ge> l")
    case True
    then show thesis using that [of old] r Some kl by (auto simp: io_return_def)
  next
    case False
    then obtain x where "ad' = ad\<lparr>ad_deps := dict_set (base_name i) x (dict_del (base_name i) (ad_deps ad))\<rparr>" "w_rec w' = w_rec w"
      using r by (auto elim: store_dependency_Inr)
    then show thesis using that [of x] Some kl by (simp add: map_of_dict_del)
  qed
qed

text \<open>The parts of a visit that returns.\<close>

lemma process_imports_Inr:
  assumes "process_imports t (Suc l) i d ad w = (Inr ad', w')"
  obtains imps ad1 w1 where "imports_of (ad_type ad) (w_rec w + 1) i (ad_version ad) = Inr imps"
    "io_fold (import_step (\<lambda>j. process_imports t l j d) d) imps ad (w\<lparr>w_rec := w_rec w + 1\<rparr>) = (Inr ad1, w1)"
    "w_rec w = 0 \<and> ad' = ad1 \<and> w' = w1\<lparr>w_rec := w_rec w1 - 1\<rparr> \<or>
     w_rec w \<noteq> 0 \<and> (\<exists>ad2 w2. add_dependency t i (ad_version ad) ad1 w1 = (Inr ad2, w2) \<and>
       ad_type ad' = ad_type ad2 \<and> ad_deps ad' = ad_deps ad2 \<and> w' = w2\<lparr>w_rec := w_rec w2 - 1\<rparr>)"
proof -
  let ?w = "w\<lparr>w_rec := w_rec w + 1\<rparr>" and ?f = "import_step (\<lambda>j. process_imports t l j d) d"
  obtain imps where imps: "imports_of (ad_type ad) (w_rec w + 1) i (ad_version ad) = Inr imps"
    using assms by (cases "imports_of (ad_type ad) (w_rec w + 1) i (ad_version ad)")
      (auto simp: io_bind_def rec_add_def rec_get_def io_res_def io_raise_def)
  obtain r1 w1 where loop: "io_fold ?f imps ad ?w = (r1, w1)" by fastforce
  obtain ad1 where ad1: "r1 = Inr ad1"
    using assms imps loop by (cases r1) (auto simp: io_bind_def rec_add_def rec_get_def io_res_def io_return_def)
  show thesis
  proof (cases "w_rec w = 0")
    case True
    then have "ad' = ad1 \<and> w' = w1\<lparr>w_rec := w_rec w1 - 1\<rparr>"
      using assms imps loop ad1 by (auto simp: io_bind_def rec_add_def rec_get_def io_res_def io_return_def)
    then show thesis using that imps loop ad1 True by blast
  next
    case False
    obtain r2 w2 where add: "add_dependency t i (ad_version ad) ad1 w1 = (r2, w2)" by fastforce
    obtain ad2 where "r2 = Inr ad2"
      using assms imps loop ad1 add False by (cases r2) (auto simp: io_bind_def rec_add_def rec_get_def io_res_def io_return_def)
    moreover from this have "ad_type ad' = ad_type ad2 \<and> ad_deps ad' = ad_deps ad2 \<and> w' = w2\<lparr>w_rec := w_rec w2 - 1\<rparr>"
      using assms imps loop ad1 add False by (auto simp: io_bind_def rec_add_def rec_get_def io_res_def io_return_def)
    ultimately show thesis using that imps loop ad1 add False by blast
  qed
qed

text \<open>One step of the loop that returns.\<close>

lemma import_step_Inr:
  assumes "import_step go d x ad w = (Inr ad', w')"
  obtains j v where "map_of d (fst x) = Some j" "import_version (ad_type ad) j (snd x) = Inr v"
    "go j (ad\<lparr>ad_version := v, ad_name := base_name j\<rparr>) w = (Inr ad', w')"
  using assms by (cases x) (auto simp: io_bind_Inr io_res_def dict_get_def split: sum.splits option.splits)

section \<open>Loops\<close>

lemma io_fold_keeps:
  assumes "io_fold f xs s w = (Inr s', w')" "I s w"
    and "\<And>x s w s' w'. x \<in> set xs \<Longrightarrow> I s w \<Longrightarrow> f x s w = (Inr s', w') \<Longrightarrow> I s' w'"
  shows "I s' w'"
  using assms
proof (induction xs arbitrary: s w)
  case (Cons x xs)
  obtain s1 w1 where "f x s w = (Inr s1, w1)" "io_fold f xs s1 w1 = (Inr s', w')"
    using Cons.prems(1) by (auto simp: io_bind_Inr)
  moreover from this(1) have "I s1 w1" using Cons.prems(2,3) by (meson list.set_intros(1))
  ultimately show ?case using Cons.IH Cons.prems(3) by (meson list.set_intros(2))
qed (simp add: io_return_def)

text \<open>What one of the steps establishes and the others keep holds in the end.\<close>

lemma io_fold_establishes:
  assumes "io_fold f xs s w = (Inr s', w')" "I s w" "y \<in> set xs"
    and keep: "\<And>x s w s' w'. x \<in> set xs \<Longrightarrow> I s w \<Longrightarrow> f x s w = (Inr s', w') \<Longrightarrow> I s' w' \<and> (Q s \<longrightarrow> Q s')"
    and step: "\<And>s w s' w'. I s w \<Longrightarrow> f y s w = (Inr s', w') \<Longrightarrow> Q s'"
  shows "Q s'"
  using assms(1-4)
proof (induction xs arbitrary: s w)
  case (Cons x xs)
  obtain s1 w1 where s1: "f x s w = (Inr s1, w1)" "io_fold f xs s1 w1 = (Inr s', w')"
    using Cons.prems(1) by (auto simp: io_bind_Inr)
  have k: "I s1 w1" using Cons.prems(2,4) s1(1) by (meson list.set_intros(1))
  show ?case
  proof (cases "y = x")
    case True
    then have "Q s1" using step Cons.prems(2) s1(1) by blast
    with k have "I s1 w1 \<and> Q s1" by blast
    then show ?thesis
      using io_fold_keeps [OF s1(2), of "\<lambda>s w. I s w \<and> Q s"] Cons.prems(4) by (meson list.set_intros(2))
  next
    case False
    then show ?thesis using Cons.IH [OF s1(2) k] Cons.prems(3,4) by (meson list.set_intros(2) set_ConsD)
  qed
qed simp

section \<open>Marks\<close>

locale visit_mark =
  fixes t :: tools and P :: "dep_info dict \<Rightarrow> bool"
  assumes keep: "add_dependency t i v ad w = (Inr ad', w') \<Longrightarrow> P (ad_deps ad) \<Longrightarrow> P (ad_deps ad')"
begin

lemma visit_keeps:
  "process_imports t l i d ad w = (Inr ad', w') \<Longrightarrow>
    ad_type ad' = ad_type ad \<and> w_rec w' = w_rec w \<and> (P (ad_deps ad) \<longrightarrow> P (ad_deps ad'))"
proof (induction l arbitrary: i ad w ad' w')
  case (Suc l)
  let ?I = "\<lambda>a v. ad_type a = ad_type ad \<and> w_rec v = w_rec w + 1 \<and> (P (ad_deps ad) \<longrightarrow> P (ad_deps a))"
  from Suc.prems obtain imps ad1 w1 where
    loop: "io_fold (import_step (\<lambda>j. process_imports t l j d) d) imps ad (w\<lparr>w_rec := w_rec w + 1\<rparr>) = (Inr ad1, w1)"
    and fin: "w_rec w = 0 \<and> ad' = ad1 \<and> w' = w1\<lparr>w_rec := w_rec w1 - 1\<rparr> \<or>
     w_rec w \<noteq> 0 \<and> (\<exists>ad2 w2. add_dependency t i (ad_version ad) ad1 w1 = (Inr ad2, w2) \<and>
       ad_type ad' = ad_type ad2 \<and> ad_deps ad' = ad_deps ad2 \<and> w' = w2\<lparr>w_rec := w_rec w2 - 1\<rparr>)"
    by (rule process_imports_Inr)
  have one: "?I ad1 w1"
  proof (rule io_fold_keeps [OF loop, where I = ?I])
    fix x a v a' v'
    assume I: "?I a v" and step: "import_step (\<lambda>j. process_imports t l j d) d x a v = (Inr a', v')"
    from step obtain j u where "process_imports t l j d (a\<lparr>ad_version := u, ad_name := base_name j\<rparr>) v = (Inr a', v')"
      by (rule import_step_Inr)
    from Suc.IH [OF this] I show "?I a' v'" by simp
  qed simp
  from fin show ?case
  proof
    assume "w_rec w \<noteq> 0 \<and> (\<exists>ad2 w2. add_dependency t i (ad_version ad) ad1 w1 = (Inr ad2, w2) \<and>
       ad_type ad' = ad_type ad2 \<and> ad_deps ad' = ad_deps ad2 \<and> w' = w2\<lparr>w_rec := w_rec w2 - 1\<rparr>)"
    then obtain ad2 w2 where add: "add_dependency t i (ad_version ad) ad1 w1 = (Inr ad2, w2)"
      "ad_type ad' = ad_type ad2" "ad_deps ad' = ad_deps ad2" "w' = w2\<lparr>w_rec := w_rec w2 - 1\<rparr>" by blast
    have "ad_type ad2 = ad_type ad1 \<and> w_rec w2 = w_rec w1" using add(1) by (blast elim: add_dependency_Inr)
    then show ?thesis using one add(2-4) keep [OF add(1)] by simp
  qed (use one in simp)
qed (simp add: io_raise_def)

lemma step_keeps:
  assumes "import_step (\<lambda>j. process_imports t l j d) d x ad w = (Inr ad', w')"
  shows "ad_type ad' = ad_type ad \<and> w_rec w' = w_rec w \<and> (P (ad_deps ad) \<longrightarrow> P (ad_deps ad'))"
proof -
  from assms obtain j u where "process_imports t l j d (ad\<lparr>ad_version := u, ad_name := base_name j\<rparr>) w = (Inr ad', w')"
    by (rule import_step_Inr)
  from visit_keeps [OF this] show ?thesis by simp
qed

text \<open>A visit inside of a resolution: the imports of its node, and the dependency it adds in the end.\<close>

lemma visit_parts:
  assumes "process_imports t l i d ad w = (Inr ad', w')" "w_rec w \<ge> 1" "ad_type ad = mode" "ad_version ad = v"
  obtains l1 imps ad1 w1 ad2 w2 where "imports_of mode 2 i v = Inr imps"
    "io_fold (import_step (\<lambda>j. process_imports t l1 j d) d) imps ad (w\<lparr>w_rec := w_rec w + 1\<rparr>) = (Inr ad1, w1)"
    "add_dependency t i v ad1 w1 = (Inr ad2, w2)" "ad_deps ad' = ad_deps ad2" "P (ad_deps ad) \<Longrightarrow> P (ad_deps ad1)"
proof (cases l)
  case 0
  then show thesis using assms(1) by (simp add: io_raise_def)
next
  case (Suc l1)
  from assms(1) [unfolded Suc] obtain imps ad1 w1 ad2 w2 where
    imps: "imports_of mode (w_rec w + 1) i v = Inr imps"
    and loop: "io_fold (import_step (\<lambda>j. process_imports t l1 j d) d) imps ad (w\<lparr>w_rec := w_rec w + 1\<rparr>) = (Inr ad1, w1)"
    and add: "add_dependency t i v ad1 w1 = (Inr ad2, w2)" "ad_deps ad' = ad_deps ad2"
    using assms(2-4) by (elim process_imports_Inr) auto
  have "imports_of mode 2 i v = Inr imps" using imps imports_of_nested [of "w_rec w + 1" mode i v] assms(2) by simp
  moreover have "P (ad_deps ad1)" if "P (ad_deps ad)"
    using io_fold_keeps [OF loop, of "\<lambda>a v. P (ad_deps a)"] that step_keeps by blast
  ultimately show thesis using that loop add by blast
qed

text \<open>A step of the loop at an import whose node is known.\<close>

lemma step_node:
  assumes "import_step (\<lambda>j. process_imports t l j d) d (m, pin) ad w = (Inr ad', w')"
    and "map_of d m = Some j" "import_version (ad_type ad) j pin = Inr u"
  shows "process_imports t l j d (ad\<lparr>ad_version := u, ad_name := base_name j\<rparr>) w = (Inr ad', w')"
proof -
  from assms(1) obtain j' u' where "map_of d m = Some j'" "import_version (ad_type ad) j' pin = Inr u'"
    and run: "process_imports t l j' d (ad\<lparr>ad_version := u', ad_name := base_name j'\<rparr>) w = (Inr ad', w')"
    by (rule import_step_Inr) auto
  then have "j' = j" "u' = u" using assms(2,3) by auto
  then show ?thesis using run by simp
qed

text \<open>The loop over imports: what the visit of one of them establishes, and that one of them cannot be visited.\<close>

lemma loop_marks:
  assumes "io_fold (import_step (\<lambda>j. process_imports t l j d) d) imps ad w = (Inr ad', w')"
    and "(m, pin) \<in> set imps" "map_of d m = Some j" "import_version mode j pin = Inr u"
    and "ad_type ad = mode" "w_rec w \<ge> 1"
    and visit: "\<And>a v a' v'. ad_type a = mode \<Longrightarrow> ad_version a = u \<Longrightarrow> w_rec v \<ge> 1 \<Longrightarrow>
      process_imports t l j d a v = (Inr a', v') \<Longrightarrow> P (ad_deps a')"
  shows "P (ad_deps ad')"
proof (rule io_fold_establishes [OF assms(1), where I = "\<lambda>a v. ad_type a = mode \<and> w_rec v \<ge> 1" and y = "(m, pin)" and
      Q = "\<lambda>a. P (ad_deps a)"])
  show "(ad_type a' = mode \<and> w_rec v' \<ge> 1) \<and> (P (ad_deps a) \<longrightarrow> P (ad_deps a'))"
    if "ad_type a = mode \<and> w_rec v \<ge> 1" "import_step (\<lambda>j. process_imports t l j d) d x a v = (Inr a', v')" for x a v a' v'
    using that(1) step_keeps [OF that(2)] by simp
  show "P (ad_deps a')"
    if I: "ad_type a = mode \<and> w_rec v \<ge> 1" and s: "import_step (\<lambda>j. process_imports t l j d) d (m, pin) a v = (Inr a', v')" for a v a' v'
    by (rule visit [OF _ _ _ step_node [OF s assms(3)]]) (use I assms(4) in simp_all)
qed (use assms in simp_all)

lemma loop_fails:
  assumes "(m, pin) \<in> set imps" "map_of d m = Some j" "import_version mode j pin = Inr u"
    and "P (ad_deps ad)" "ad_type ad = mode" "w_rec w \<ge> 1"
    and visit: "\<And>a v a' v'. P (ad_deps a) \<Longrightarrow> ad_type a = mode \<Longrightarrow> ad_version a = u \<Longrightarrow> w_rec v \<ge> 1 \<Longrightarrow>
      process_imports t l j d a v \<noteq> (Inr a', v')"
  shows "io_fold (import_step (\<lambda>j. process_imports t l j d) d) imps ad w \<noteq> (Inr ad', w')"
proof
  assume loop: "io_fold (import_step (\<lambda>j. process_imports t l j d) d) imps ad w = (Inr ad', w')"
  let ?I = "\<lambda>a v. P (ad_deps a) \<and> ad_type a = mode \<and> w_rec v \<ge> 1"
  have "(\<lambda>a. False) ad'"
  proof (rule io_fold_establishes [OF loop, where I = ?I and y = "(m, pin)"])
    show "?I a' v' \<and> (False \<longrightarrow> False)"
      if "?I a v" "import_step (\<lambda>j. process_imports t l j d) d x a v = (Inr a', v')" for x a v a' v'
      using that(1) step_keeps [OF that(2)] by simp
    show False if I: "?I a v" and s: "import_step (\<lambda>j. process_imports t l j d) d (m, pin) a v = (Inr a', v')" for a v a' v'
      using visit [of "a\<lparr>ad_version := u, ad_name := base_name j\<rparr>" v a' v'] step_node [OF s assms(2)] I assms(3) by simp
  qed (use assms in simp_all)
  then show False .
qed

lemma edge_import:
  assumes "(x, y) \<in> visit_edges mode d" "map_of d (fst x) = Some i" "imports_of mode 2 i (snd x) = Inr imps"
  obtains pin j where "(fst y, pin) \<in> set imps" "map_of d (fst y) = Some j" "import_version mode j pin = Inr (snd y)"
  using assms by (cases x; cases y) (auto simp: visit_edges_def import_nodes_def)

text \<open>What adding the dependency of a node establishes holds after every visit that reaches the node.\<close>

lemma reaching_marks:
  assumes "(x, z) \<in> (visit_edges mode d)\<^sup>*"
    and store: "\<And>j a w a' w'. map_of d (fst z) = Some j \<Longrightarrow> add_dependency t j (snd z) a w = (Inr a', w') \<Longrightarrow> P (ad_deps a')"
    and "map_of d (fst x) = Some i" "ad_type ad = mode" "ad_version ad = snd x" "w_rec w \<ge> 1"
    and "process_imports t l i d ad w = (Inr ad', w')"
  shows "P (ad_deps ad')"
  using assms(1,3-)
proof (induction x arbitrary: i ad w l ad' w' rule: converse_rtrancl_induct)
  case base
  obtain ad1 w1 ad2 w2 where "add_dependency t i (snd z) ad1 w1 = (Inr ad2, w2)" "ad_deps ad' = ad_deps ad2"
    by (rule visit_parts [OF base(5,4,2,3)])
  then show ?case using store [OF base(1)] by metis
next
  case (step x y)
  obtain l1 imps ad1 w1 ad2 w2 where imps: "imports_of mode 2 i (snd x) = Inr imps"
    and loop: "io_fold (import_step (\<lambda>j. process_imports t l1 j d) d) imps ad (w\<lparr>w_rec := w_rec w + 1\<rparr>) = (Inr ad1, w1)"
    and add: "add_dependency t i (snd x) ad1 w1 = (Inr ad2, w2)" "ad_deps ad' = ad_deps ad2"
    by (rule visit_parts [OF step.prems(5,4,2,3)])
  obtain pin j where y: "(fst y, pin) \<in> set imps" "map_of d (fst y) = Some j" "import_version mode j pin = Inr (snd y)"
    by (rule edge_import [OF step.hyps(1) step.prems(1) imps])
  have "P (ad_deps ad1)"
    by (rule loop_marks [OF loop y]) (use step.prems step.IH [OF y(2)] in auto)
  then show ?case using keep [OF add(1)] add(2) by simp
qed

text \<open>A node that cannot be visited once the mark is set stops every visit that reaches it.\<close>

lemma reaching_fails:
  assumes "(x, z) \<in> (visit_edges mode d)\<^sup>*"
    and bad: "\<And>j l a w a' w'. map_of d (fst z) = Some j \<Longrightarrow> P (ad_deps a) \<Longrightarrow> ad_type a = mode \<Longrightarrow> ad_version a = snd z \<Longrightarrow>
      w_rec w \<ge> 1 \<Longrightarrow> process_imports t l j d a w \<noteq> (Inr a', w')"
    and "map_of d (fst x) = Some i" "P (ad_deps ad)" "ad_type ad = mode" "ad_version ad = snd x" "w_rec w \<ge> 1"
  shows "process_imports t l i d ad w \<noteq> (Inr ad', w')"
  using assms(1,3-)
proof (induction x arbitrary: i ad w l ad' w' rule: converse_rtrancl_induct)
  case base
  then show ?case by (rule bad)
next
  case (step x y)
  show ?case
  proof
    assume run: "process_imports t l i d ad w = (Inr ad', w')"
    obtain l1 imps ad1 w1 where imps: "imports_of mode 2 i (snd x) = Inr imps"
      and loop: "io_fold (import_step (\<lambda>j. process_imports t l1 j d) d) imps ad (w\<lparr>w_rec := w_rec w + 1\<rparr>) = (Inr ad1, w1)"
      by (rule visit_parts [OF run step.prems(5,3,4)])
    obtain pin j where y: "(fst y, pin) \<in> set imps" "map_of d (fst y) = Some j" "import_version mode j pin = Inr (snd y)"
      by (rule edge_import [OF step.hyps(1) step.prems(1) imps])
    have "io_fold (import_step (\<lambda>j. process_imports t l1 j d) d) imps ad (w\<lparr>w_rec := w_rec w + 1\<rparr>) \<noteq> (Inr ad1, w1)"
      by (rule loop_fails [OF y]) (use step.prems step.IH [OF y(2)] in auto)
    then show False using loop by blast
  qed
qed

end

text \<open>
  The marks: none, an interface that is listed, and one that is listed at a version that is not an
  integer.
\<close>

definition listed_at_all :: "string \<Rightarrow> dep_info dict \<Rightarrow> bool" where
  "listed_at_all m D \<longleftrightarrow> map_of D m \<noteq> None"

definition listed_odd :: "string \<Rightarrow> dep_info dict \<Rightarrow> bool" where
  "listed_odd m D = (case map_of D m of None \<Rightarrow> False | Some x \<Rightarrow> isl (py_int (di_version x)))"

interpretation unmarked: visit_mark t "\<lambda>D. True" for t
  by unfold_locales simp

interpretation known: visit_mark t "listed_at_all m" for t m
  by unfold_locales (auto simp: listed_at_all_def elim!: add_dependency_Inr)

interpretation odd: visit_mark t "listed_odd m" for t m
proof unfold_locales
  fix i v ad w ad' w'
  assume "add_dependency t i v ad w = (Inr ad', w')" "listed_odd m (ad_deps ad)"
  then show "listed_odd m (ad_deps ad')"
    by (cases "m = base_name i") (auto simp: listed_odd_def elim!: add_dependency_Inr split: option.splits)
qed

section \<open>Resolutions that end with an error\<close>

text \<open>The first call: its imports are visited in their order.\<close>

lemma get_dependencies_Inr:
  assumes "get_dependencies t limit i d version fz w = (Inr x, w')" "next_version i = Inr nv" "w_rec w = 0"
    and "imports_of (dep_mode nv version fz) 1 i version = Inr imps"
  obtains l ad w1 ad' w2 where "ad_type ad = dep_mode nv version fz" "w_rec w1 = 1"
    "io_fold (import_step (\<lambda>j. process_imports t l j d) d) imps ad w1 = (Inr ad', w2)"
proof -
  let ?ad = "\<lparr>ad_name = base_name i, ad_version = version, ad_type = dep_mode nv version fz, ad_deps = []\<rparr>"
  have check: "io_check b e w = (Inr (), v) \<Longrightarrow> v = w" for b e v
    by (auto simp: io_check_def io_return_def io_raise_def split: if_splits)
  obtain ad' w3 where run: "process_imports t limit i d ?ad w = (Inr ad', w3)"
    using assms(1,2) by (auto simp: get_dependencies_def Let_def io_bind_Inr io_res_def dep_mode_def dest!: check)
  then obtain l where l: "limit = Suc l" by (cases limit) (auto simp: io_raise_def)
  from run [unfolded l] obtain imps' ad1 w1 where "imports_of (dep_mode nv version fz) (w_rec w + 1) i version = Inr imps'"
    "io_fold (import_step (\<lambda>j. process_imports t l j d) d) imps' ?ad (w\<lparr>w_rec := w_rec w + 1\<rparr>) = (Inr ad1, w1)"
    by (rule process_imports_Inr) simp
  then show thesis using that [of ?ad "w\<lparr>w_rec := 1\<rparr>" l ad1 w1] assms(3,4) by simp
qed

lemma import_nodesE:
  assumes "(a, va) \<in> import_nodes mode d imps"
  obtains pin j where "(a, pin) \<in> set imps" "map_of d a = Some j" "import_version mode j pin = Inr va"
  using assms by (auto simp: import_nodes_def)

text \<open>An import that leads to a node whose imports cannot be told.\<close>

lemma unknown_import_fails:
  assumes "next_version i = Inr nv" "w_rec w = 0"
    and "imports_of (dep_mode nv version fz) 1 i version = Inr imps" "(a, va) \<in> import_nodes (dep_mode nv version fz) d imps"
    and "((a, va), (m, v)) \<in> (visit_edges (dep_mode nv version fz) d)\<^sup>*"
    and "map_of d m = Some j" "isl (imports_of (dep_mode nv version fz) 2 j v)"
  shows "isl (fst (get_dependencies t limit i d version fz w))"
proof (rule ccontr)
  let ?mode = "dep_mode nv version fz"
  assume "\<not> isl (fst (get_dependencies t limit i d version fz w))"
  then obtain x w' where run: "get_dependencies t limit i d version fz w = (Inr x, w')"
    by (metis not_isl_iff prod.collapse)
  obtain l ad w1 ad' w2 where ad: "ad_type ad = ?mode" "w_rec w1 = 1"
    and loop: "io_fold (import_step (\<lambda>j. process_imports t l j d) d) imps ad w1 = (Inr ad', w2)"
    by (rule get_dependencies_Inr [OF run assms(1-3)])
  obtain pin ja where a: "(a, pin) \<in> set imps" "map_of d a = Some ja" "import_version ?mode ja pin = Inr va"
    by (rule import_nodesE [OF assms(4)])
  have bad: "process_imports t l' j' d b v1 \<noteq> (Inr b', v1')"
    if that: "map_of d (fst (m, v)) = Some j'" "ad_type b = ?mode" "ad_version b = snd (m, v)" "w_rec v1 \<ge> 1" for l' j' b v1 b' v1'
  proof
    assume "process_imports t l' j' d b v1 = (Inr b', v1')"
    from unmarked.visit_parts [OF this that(4,2,3)] obtain imps' where "imports_of ?mode 2 j' (snd (m, v)) = Inr imps'" by blast
    then show False using assms(6,7) that(1) by simp
  qed
  have "process_imports t l ja d b v1 \<noteq> (Inr b', v1')" if "ad_type b = ?mode" "ad_version b = va" "w_rec v1 \<ge> 1" for b v1 b' v1'
    by (rule unmarked.reaching_fails [OF assms(5)]) (use bad a(2) that in auto)
  then have "io_fold (import_step (\<lambda>j. process_imports t l j d) d) imps ad w1 \<noteq> (Inr ad', w2)"
    by (intro unmarked.loop_fails [OF a]) (use ad in auto)
  then show False using loop by blast
qed

text \<open>
  An interface that two imports lead to, at a version that is not an integer for one of them.
\<close>

lemma fold_split:
  "io_fold f (xs @ ys) s w = (Inr s', w') \<longleftrightarrow>
    (\<exists>s1 w1. io_fold f xs s w = (Inr s1, w1) \<and> io_fold f ys s1 w1 = (Inr s', w'))"
  by (induction xs arbitrary: s w) (auto simp: io_bind_Inr io_return_def)

text \<open>The mark that the first visit leaves, and that the second one cannot get past.\<close>

definition version_mark :: "string \<Rightarrow> string \<Rightarrow> dep_info dict \<Rightarrow> bool" where
  "version_mark m v = (if isl (py_int v) then listed_odd m else listed_at_all m)"

interpretation marked: visit_mark t "version_mark m v" for t m v
  using odd.visit_mark_axioms known.visit_mark_axioms by (simp add: version_mark_def)

lemma version_mark_set:
  assumes "add_dependency t j v a w = (Inr a', w')" "base_name j = m"
  shows "version_mark m v (ad_deps a')"
  using assms by (auto simp: version_mark_def listed_odd_def listed_at_all_def elim!: add_dependency_Inr split: option.splits)

lemma version_mark_stops:
  assumes "version_mark m v (ad_deps a)" "base_name j = m" "isl (py_int v) \<or> isl (py_int u)"
  shows "add_dependency t j u a w \<noteq> (Inr a', w')"
  using assms by (auto simp: version_mark_def listed_odd_def listed_at_all_def elim!: add_dependency_Inr split: option.splits if_splits)

lemma odd_version_fails:
  assumes "next_version i = Inr nv" "w_rec w = 0"
    and "imports_of (dep_mode nv version fz) 1 i version = Inr (us @ vs)"
    and "(a, va) \<in> import_nodes (dep_mode nv version fz) d us" "(b, vb) \<in> import_nodes (dep_mode nv version fz) d vs"
    and "((a, va), (m, v)) \<in> (visit_edges (dep_mode nv version fz) d)\<^sup>*" "((b, vb), (m, u)) \<in> (visit_edges (dep_mode nv version fz) d)\<^sup>*"
    and "map_of d m = Some j" "base_name j = m" "isl (py_int v) \<or> isl (py_int u)"
  shows "isl (fst (get_dependencies t limit i d version fz w))"
proof (rule ccontr)
  let ?mode = "dep_mode nv version fz"
  assume "\<not> isl (fst (get_dependencies t limit i d version fz w))"
  then obtain x w' where run: "get_dependencies t limit i d version fz w = (Inr x, w')"
    by (metis not_isl_iff prod.collapse)
  obtain l ad w1 ad' w2 where ad: "ad_type ad = ?mode" "w_rec w1 = 1"
    and loop: "io_fold (import_step (\<lambda>j. process_imports t l j d) d) (us @ vs) ad w1 = (Inr ad', w2)"
    by (rule get_dependencies_Inr [OF run assms(1-3)])
  obtain a1 v1 where first: "io_fold (import_step (\<lambda>j. process_imports t l j d) d) us ad w1 = (Inr a1, v1)"
    and second: "io_fold (import_step (\<lambda>j. process_imports t l j d) d) vs a1 v1 = (Inr ad', w2)"
    using loop unfolding fold_split by blast
  obtain pa ja where a: "(a, pa) \<in> set us" "map_of d a = Some ja" "import_version ?mode ja pa = Inr va"
    by (rule import_nodesE [OF assms(4)])
  obtain pb jb where b: "(b, pb) \<in> set vs" "map_of d b = Some jb" "import_version ?mode jb pb = Inr vb"
    by (rule import_nodesE [OF assms(5)])
  have mark: "version_mark m v (ad_deps a1)"
  proof (rule marked.loop_marks [OF first a])
    fix c z c' z'
    assume c: "ad_type c = ?mode" "ad_version c = va" "w_rec z \<ge> 1" "process_imports t l ja d c z = (Inr c', z')"
    show "version_mark m v (ad_deps c')"
    proof (rule marked.reaching_marks [OF assms(6)])
      show "process_imports t l ja d c z = (Inr c', z')" by (rule c(4))
    qed (use c a(2) assms(8,9) version_mark_set in auto)
  qed (use ad in simp_all)
  have st: "ad_type a1 = ?mode \<and> w_rec v1 \<ge> 1"
  proof (rule io_fold_keeps [OF first, where I = "\<lambda>c z. ad_type c = ?mode \<and> w_rec z \<ge> 1"])
    fix x c z c' z'
    assume I: "ad_type c = ?mode \<and> w_rec z \<ge> 1" and step: "import_step (\<lambda>j. process_imports t l j d) d x c z = (Inr c', z')"
    show "ad_type c' = ?mode \<and> w_rec z' \<ge> 1" using I unmarked.step_keeps [OF step] by simp
  qed (use ad in simp)
  have bad: "process_imports t l' j' d c z \<noteq> (Inr c', z')"
    if h: "map_of d (fst (m, u)) = Some j'" "version_mark m v (ad_deps c)" "ad_type c = ?mode" "ad_version c = snd (m, u)" "w_rec z \<ge> 1"
    for l' j' c z c' z'
  proof
    assume run: "process_imports t l' j' d c z = (Inr c', z')"
    obtain c1 z1 c2 z2 where "add_dependency t j' (snd (m, u)) c1 z1 = (Inr c2, z2)" "version_mark m v (ad_deps c1)"
      by (rule marked.visit_parts [where m = m and va = v, OF run h(5,3,4)]) (use h(2) in blast)
    then show False using version_mark_stops [OF _ assms(9,10)] h(1) assms(8) by simp
  qed
  have "io_fold (import_step (\<lambda>j. process_imports t l j d) d) vs a1 v1 \<noteq> (Inr ad', w2)"
  proof (rule marked.loop_fails [OF b mark])
    fix c :: ApiDependencies and z :: world and c' z'
    assume c: "version_mark m v (ad_deps c)" "ad_type c = ?mode" "ad_version c = vb" "w_rec z \<ge> 1"
    show "process_imports t l jb d c z \<noteq> (Inr c', z')"
      by (rule marked.reaching_fails [OF assms(7)]) (use bad b(2) c in auto)
  qed (use st in simp_all)
  then show False using second by blast
qed

end
