(* ===== verification/Version_Props.thy ===== *)
theory Version_Props
  imports Import_Errors
begin

text \<open>
  The properties of interfaces, their versions and their dependencies, \<^verbatim>\<open>host/aidl_interface.py\<close>:
  import specifications, version numbers, the build order of the libraries, loading, and the
  resolution of imports.
\<close>

section \<open>Import specifications\<close>

text \<open>
  C36: an import specification is read as it is written: a name without \<^verbatim>\<open>@\<close> is an unpinned
  import, \<^verbatim>\<open>name@version\<close> is read back as its two parts, also for a version with further \<^verbatim>\<open>@\<close>, and
  an empty part is a \<^verbatim>\<open>ValueError\<close>.
\<close>

theorem parse_import_spec_parts:
  assumes "CHR ''@'' \<notin> set name"
  shows "parse_import_spec (YStr name) = Inr (name, None) \<and>
    parse_import_spec (YStr (name @ ''@'' @ version)) =
      (if name = [] \<or> version = [] then Inl (ValueError (name @ ''@'' @ version)) else Inr (name, Some version))"
proof -
  have "py_find ''@'' (name @ ''@'' @ version) = Some (length name)"
    using assms by (induction name) auto
  then show ?thesis using assms by (simp add: parse_import_spec_def py_partition_def)
qed

theorem parse_import_spec_parts_witness:
  "parse_import_spec (YStr ''audiodecoder@0.1.0.0'') = Inr (''audiodecoder'', Some ''0.1.0.0'')"
  using parse_import_spec_parts [of "''audiodecoder''" "''0.1.0.0''"] by simp

section \<open>Version numbers\<close>

text \<open>
  C20: an interface that is loaded is well formed: its versions are 1, 2, 3 and so on without a gap,
  as many as its definition lists, its tables have one entry per key, and the pins are those of
  its imports; so a stable one has the number of its versions as the latest version and one more
  as the next version.
\<close>

theorem loaded_versions:
  assumes "load_interface realpath roots dir out data = Inr i" "\<not> unstable i"
  shows "wf_interface i \<and> length (versions i) = length (field_list (df_versions_with_info data)) \<and>
    latest_version i = str_of_nat (length (versions i)) \<and>
    next_version i = Inr (str_of_nat (Suc (length (versions i))))"
proof -
  have "length (versions i) = length (field_list (df_versions_with_info data))"
    using assms(1) by (auto simp: load_interface_def Let_def rbind_eq_Inr split: if_splits)
  then show ?thesis
    using load_interface_wf [OF assms(1)] assms(2) by (simp add: next_version_wf latest_version_wf)
qed

definition sample_def :: interface_def where
  "sample_def = \<lparr>df_name = ''hal'', df_stable_aidl_subdir = None, df_frozen_location = None, df_layout = None,
     df_srcs = [''*.aidl''], df_imports = Some [YStr ''common@current'', YStr ''base''], df_stability = Some ''vintf'',
     df_version = None, df_versions_with_info = Present [(''1'', []), (''2'', [''common-v1''])]\<rparr>"

definition sample_interface :: AidlInterface where
  "sample_interface = projr (load_interface id [''/w''] ''/w/hal/current'' ''/w/out'' sample_def)"

lemma sample_loaded:
  "load_interface id [''/w''] ''/w/hal/current'' ''/w/out'' sample_def = Inr sample_interface"
  "\<not> unstable sample_interface" "versions sample_interface = [''1'', ''2'']"
  "next_version sample_interface = Inr ''3''" "versions_with_info sample_interface = [(''1'', []), (''2'', [''common-v1''])]"
  "iface_imports sample_interface = [''common'', ''base'']"
  by code_simp+

theorem loaded_versions_witness:
  "wf_interface sample_interface \<and> latest_version sample_interface = ''2'' \<and> next_version sample_interface = Inr ''3''"
  using loaded_versions [OF sample_loaded(1,2)] sample_loaded(3,4)
  by (simp add: latest_version_def sample_loaded(2))

text \<open>
  C34: what a freeze records for an import is read back: the versioned name of an interface splits
  into its name and its version when the name has no \<^verbatim>\<open>-v\<close> in it.
\<close>

theorem versioned_name_round_trip:
  assumes "\<not> py_contains ''-v'' (base_name i)"
  shows "split_versioned (versioned_name i v) = (base_name i, v)"
  by (rule split_versioned_name [OF assms])

theorem versioned_name_round_trip_witness:
  "split_versioned (versioned_name sample_interface ''2'') = (''hal'', ''2'')"
proof -
  have "\<not> py_contains ''-v'' (base_name sample_interface)" "base_name sample_interface = ''hal''" by code_simp+
  then show ?thesis using versioned_name_round_trip [of sample_interface "''2''"] by simp
qed

text \<open>
  A name with \<^verbatim>\<open>-v\<close> in it is always read back wrongly: the name is cut short.
\<close>

theorem versioned_name_cut:
  assumes "py_contains ''-v'' (base_name i)"
  shows "length (fst (split_versioned (versioned_name i v))) < length (base_name i)"
  by (rule split_versioned_shorter [OF assms])

theorem versioned_name_cut_witness:
  "length (fst (split_versioned (versioned_name (empty_interface []\<lparr>base_name := ''audio-video''\<rparr>) ''1''))) < length ''audio-video''"
proof -
  have "py_contains ''-v'' (base_name (empty_interface []\<lparr>base_name := ''audio-video''\<rparr>))" by code_simp
  from versioned_name_cut [OF this, of "''1''"] show ?thesis by simp
qed

section \<open>The build order\<close>

text \<open>
  C4: the topological sort always returns, and its result is exactly one of three: a dependency
  that is no key is a \<^verbatim>\<open>KeyError\<close>; a cycle is a \<^verbatim>\<open>ValueError\<close>; otherwise it is an order of the
  libraries, each once, with every dependency before the libraries that need it.
\<close>

theorem topological_sort_correct:
  assumes "wf_dict d"
  shows "\<exists>r. topological_sort d = Some r \<and>
    (if \<not> closed_deps d then \<exists>k. r = Inl (KeyError k) \<and> k \<notin> set (dict_keys d)
     else if acyclic (dep_edges d) then \<exists>ls. r = Inr ls \<and> topo_order d ls
     else r = Inl (ValueError ''Cycle detected in dependencies''))"
proof (cases "closed_deps d")
  case True
  then show ?thesis
    using topological_sort_acyclic [OF assms True] topological_sort_cyclic [OF assms True]
    by (cases "acyclic (dep_edges d)") auto
next
  case False
  then show ?thesis using topological_sort_missing [OF False] by auto
qed

definition sample_deps :: deps where
  "sample_deps = [(''a'', [''b'', ''c'']), (''b'', [''c'']), (''c'', [])]"

lemma sample_deps_facts:
  "wf_dict sample_deps" "closed_deps sample_deps"
  "topological_sort sample_deps = Some (Inr [''c'', ''b'', ''a''])"
  by (simp add: wf_dict_def sample_deps_def, simp add: closed_deps_def sample_deps_def, code_simp)

theorem topological_sort_correct_witness:
  "topological_sort sample_deps = Some (Inr [''c'', ''b'', ''a'']) \<and> topo_order sample_deps [''c'', ''b'', ''a'']"
  using topological_sort_correct [OF sample_deps_facts(1)] sample_deps_facts(2,3) by (auto split: if_splits)

text \<open>
  C18: generating the library dependencies always returns. When it succeeds, the file lists every
  registered library exactly once, with its dependencies, after all libraries it depends on. When
  it fails, the reason is an error while registering, a dependency on a library that is not
  registered, which is named, or a cycle; a failure of the sort on a missing key is excluded.
\<close>

theorem build_order_file:
  "\<exists>r. generate_libraries_dependencies interfaces all_loaded = Some r \<and>
    (case lib_deps_dict interfaces all_loaded of
       Inl e \<Rightarrow> r = Inl e
     | Inr d \<Rightarrow>
         (case r of
            Inr ls \<Rightarrow> \<exists>libs. topo_order d libs \<and> ls = map (dep_line d) libs
          | Inl e \<Rightarrow>
              \<not> closed_deps d \<and> (\<exists>dep. e = RuntimeError dep \<and> dep \<notin> set (dict_keys d)) \<or>
              closed_deps d \<and> \<not> acyclic (dep_edges d) \<and> e = ValueError ''Cycle detected in dependencies''))"
proof (cases "lib_deps_dict interfaces all_loaded")
  case (Inl e)
  then show ?thesis by (simp add: generate_libraries_dependencies_def)
next
  case (Inr d)
  then have wf: "wf_dict d" by (rule lib_deps_dict_wf)
  obtain r where r: "dependency_lines topological_sort d = Some r" using topo.lines_total [OF wf] by blast
  have "case r of
      Inr ls \<Rightarrow> \<exists>libs. topo_order d libs \<and> ls = map (dep_line d) libs
    | Inl e \<Rightarrow>
        \<not> closed_deps d \<and> (\<exists>dep. e = RuntimeError dep \<and> dep \<notin> set (dict_keys d)) \<or>
        closed_deps d \<and> \<not> acyclic (dep_edges d) \<and> e = ValueError ''Cycle detected in dependencies''"
    using topo.lines_ok [OF wf] topo.lines_error [OF wf] r by (cases r) (auto simp del: set_map)
  then show ?thesis using Inr r by (simp add: generate_libraries_dependencies_def)
qed

text \<open>
  C21: registering an interface gives its frozen versions the dependencies they were frozen
  with, and its current version one dependency per import: on the version it is pinned to, or on
  the current version when it is not pinned.
\<close>

theorem registered_targets:
  assumes "register_interface (name, i) d = Inr d'" "wf_interface i"
    and "map_of (versions_with_info i) ''current'' = None"
    and "next_version i = Inr nv" "map_of (versions_with_info i) nv = None"
    and "map_of (versions_with_info i) v = Some libs" "imp \<in> set (iface_imports i)"
  shows "map_of d' (lib_target name v) = Some (map (\<lambda>lib. lib @ ''-cpp'') libs) \<and>
    (\<exists>ds. map_of d' (lib_target name ''current'') = Some ds \<and>
      lib_target imp (if import_pin i imp = IMPORT_VERSION_UNPINNED then ''current'' else import_pin i imp) \<in> set ds)"
proof -
  have a: "wf_dict (versions_with_info i)" "\<forall>v. map_of (versions_with_info i) v \<noteq> None \<longrightarrow> v \<noteq> ''current''"
    using assms(2,3) by (auto simp: wf_interface_def)
  show ?thesis
    using register_interface_targets [OF assms(1) a] resolve_current_pins [OF assms(4,5,7)] assms(6) by blast
qed

theorem registered_targets_witness:
  "\<exists>d' ds. register_interface (''hal'', sample_interface) [] = Inr d' \<and>
    map_of d' (lib_target ''hal'' ''2'') = Some [''common-v1-cpp''] \<and>
    map_of d' (lib_target ''hal'' ''current'') = Some ds \<and> lib_target ''base'' ''current'' \<in> set ds"
proof -
  have wf: "wf_interface sample_interface" by (rule load_interface_wf [OF sample_loaded(1)])
  obtain d' where d': "register_interface (''hal'', sample_interface) [] = Inr d'"
    using sample_loaded(4,5) by (simp add: register_interface_def resolve_lib_deps_for_current_def get_imports_def Let_def)
  have pin: "import_pin sample_interface ''base'' = IMPORT_VERSION_UNPINNED" by code_simp
  have "map_of (versions_with_info sample_interface) ''current'' = None"
    "map_of (versions_with_info sample_interface) ''3'' = None"
    "map_of (versions_with_info sample_interface) ''2'' = Some [''common-v1'']"
    "''base'' \<in> set (iface_imports sample_interface)"
    by (simp_all add: sample_loaded(5,6))
  from registered_targets [OF d' wf this(1) sample_loaded(4) this(2-4)] d' pin show ?thesis by simp
qed

text \<open>
  C22: a snapshot directory that is loaded is always a target of the dependency file, and
  what an interface registered for itself is never replaced by a snapshot.
\<close>

theorem snapshots_registered:
  assumes "lib_deps_dict interfaces all_loaded = Inr d" "s \<in> set all_loaded"
    and "path_basename (interface_root s) \<noteq> CURRENT_VERSION"
    and "rfold register_interface interfaces [] = Inr d0" "map_of d0 target = Some ds"
  shows "lib_target (base_name s) (path_basename (interface_root s)) \<in> set (dict_keys d) \<and> map_of d target = Some ds"
proof -
  have d: "d = fold register_snapshot all_loaded d0" using assms(1,4) by (simp add: lib_deps_dict_def)
  obtain ds' where "map_of d (lib_target (base_name s) (path_basename (interface_root s))) = Some ds'"
    unfolding d using fold_snapshots_adds [OF assms(2,3)] by blast
  then show ?thesis
    unfolding in_keys_iff d using fold_snapshots_keeps [OF assms(5)] by blast
qed

definition sample_snapshot :: AidlInterface where
  "sample_snapshot = sample_interface\<lparr>interface_root := ''/w/hal/0.1.0''\<rparr>"

theorem snapshots_registered_witness:
  "\<exists>d. lib_deps_dict [(''hal'', sample_interface)] [sample_snapshot, sample_interface] = Inr d \<and>
    ''hal-v0.1.0-cpp'' \<in> set (dict_keys d) \<and> map_of d ''hal-v2-cpp'' = Some [''common-v1-cpp'']"
proof -
  obtain d0 where d0: "rfold register_interface [(''hal'', sample_interface)] [] = Inr d0"
    "map_of d0 ''hal-v2-cpp'' = Some [''common-v1-cpp'']"
    using sample_loaded(4,5)
    by (simp add: register_interface_def resolve_lib_deps_for_current_def get_imports_def Let_def lib_target_def)
  then obtain d where d: "lib_deps_dict [(''hal'', sample_interface)] [sample_snapshot, sample_interface] = Inr d"
    by (simp add: lib_deps_dict_def)
  have n: "path_basename (interface_root sample_snapshot) = ''0.1.0''" "base_name sample_snapshot = ''hal''"
    "path_basename (interface_root sample_snapshot) \<noteq> CURRENT_VERSION" by code_simp+
  have "sample_snapshot \<in> set [sample_snapshot, sample_interface]" by simp
  from snapshots_registered [OF d this n(3) d0] d n(1,2) show ?thesis by (simp add: lib_target_def)
qed

section \<open>Loading\<close>

text \<open>
  C19: when a module has a definition in a directory \<^verbatim>\<open>current\<close> and further ones in snapshot
  directories, the one that is kept under its name was loaded from a \<^verbatim>\<open>current\<close> directory, in
  whatever order the file system lists the directories.
\<close>

theorem current_wins:
  assumes "load_interfaces realpath env roots out fs = Inr d"
    and "loc \<in> set (interface_locations env roots fs)" "is_current loc"
    and "open_interface realpath fs roots out loc = Inr i"
  shows "\<exists>loc' \<in> set (interface_locations env roots fs). is_current loc' \<and>
    open_interface realpath fs roots out loc' = Inr (the (map_of d (base_name i))) \<and>
    map_of d (base_name i) \<noteq> None \<and> base_name (the (map_of d (base_name i))) = base_name i"
  using current_last [OF assms] by force

definition sample_fs :: fs where
  "sample_fs = [(''/w'', FDir), (''/w/hal'', FDir), (''/w/hal/current'', FDir),
     (''/w/hal/current/interface.yaml'', FDef sample_def), (''/w/hal/zz'', FDir),
     (''/w/hal/zz/interface.yaml'', FDef (sample_def\<lparr>df_versions_with_info := Absent\<rparr>))]"

theorem current_wins_witness:
  "\<exists>d. load_interfaces id [] [''/w''] ''/w/out'' sample_fs = Inr d \<and>
    (\<exists>loc' \<in> set (interface_locations [] [''/w''] sample_fs). is_current loc' \<and>
      open_interface id sample_fs [''/w''] ''/w/out'' loc' = Inr (the (map_of d ''hal'')))"
proof -
  let ?loc = "''/w/hal/current/interface.yaml''"
  have "case load_interfaces id [] [''/w''] ''/w/out'' sample_fs of Inr d \<Rightarrow> True | Inl e \<Rightarrow> False" by code_simp
  then obtain d where d: "load_interfaces id [] [''/w''] ''/w/out'' sample_fs = Inr d" by (auto split: sum.splits)
  have l: "interface_locations [] [''/w''] sample_fs = [?loc, ''/w/hal/zz/interface.yaml'']" by code_simp
  have "is_current ?loc" "open_interface id sample_fs [''/w''] ''/w/out'' ?loc = Inr sample_interface"
    "base_name sample_interface = ''hal''" by code_simp+
  moreover have "?loc \<in> set (interface_locations [] [''/w''] sample_fs)" by (simp add: l)
  ultimately show ?thesis using current_wins [OF d] d by metis
qed

section \<open>Resolution of imports\<close>

text \<open>
  C6: for the version under development, resolving the imports of an interface returns
  whenever its import graph has no cycle and the compiler accepts the files: every interface it
  imports directly or indirectly is listed exactly once, at its next version, after the
  interfaces it imports itself. A recursion limit above the number of interfaces is enough.
\<close>

theorem imports_resolved:
  assumes "aidl_accepts t" "wf_interfaces d" "map_of d n = Some i" "current_dirs d (w_fs w)" "w_rec w = 0"
    and "acyclic_from d n" "length d < limit"
  shows "\<exists>D w'. get_dependencies t limit i d (next_of i) False w = (Inr (list_dependencies D), w') \<and>
    w_rec w' = 0 \<and> ordered_deps d D \<and> set (dict_keys D) = (import_edges d)\<^sup>+ `` {n}"
  by (rule get_dependencies_next [OF assms])

definition yes_tools :: tools where
  "yes_tools = \<lparr>t_aidl = (\<lambda>cmd fs. (0, fs)), t_sha1 = (\<lambda>s. ''h''), t_cmd_aidl = ''/out/host/bin/aidl''\<rparr>"

definition hal_iface :: "string \<Rightarrow> string list \<Rightarrow> string option list \<Rightarrow> AidlInterface" where
  "hal_iface n imps pins = (empty_interface (''/w/'' @ n @ ''/current''))\<lparr>base_name := n,
     interface_root_stable := ''/w/stable/aidl/'' @ n, stability := Some ''vintf'',
     iface_imports := imps, import_versions := zip imps pins\<rparr>"

definition two_ifaces :: "AidlInterface dict" where
  "two_ifaces = [(''hal'', hal_iface ''hal'' [''base''] [None]), (''base'', hal_iface ''base'' [] [])]"

definition two_world :: world where
  "two_world = \<lparr>w_fs = [(''/w/stable/aidl/hal/current'', FDir), (''/w/stable/aidl/base/current'', FDir)], w_rec = 0\<rparr>"

lemma two_ifaces_facts:
  "aidl_accepts yes_tools" "wf_interfaces two_ifaces" "current_dirs two_ifaces (w_fs two_world)" "w_rec two_world = 0"
  "map_of two_ifaces ''hal'' = Some (hal_iface ''hal'' [''base''] [None])"
  "import_edges two_ifaces = {(''hal'', ''base'')}"
proof -
  show "aidl_accepts yes_tools" by (simp add: aidl_accepts_def grows_def yes_tools_def)
  show "wf_interfaces two_ifaces" by code_simp
  show "current_dirs two_ifaces (w_fs two_world)" by code_simp
  show "w_rec two_world = 0" by (simp add: two_world_def)
  show "map_of two_ifaces ''hal'' = Some (hal_iface ''hal'' [''base''] [None])" by (simp add: two_ifaces_def)
  show "import_edges two_ifaces = {(''hal'', ''base'')}"
    by (auto simp: import_edges_def two_ifaces_def hal_iface_def split: if_splits)
qed

theorem imports_resolved_witness:
  "\<exists>D w'. get_dependencies yes_tools 3 (hal_iface ''hal'' [''base''] [None]) two_ifaces ''1'' False two_world =
     (Inr (list_dependencies D), w') \<and> set (dict_keys D) = {''base''}"
proof -
  let ?i = "hal_iface ''hal'' [''base''] [None]"
  have a: "acyclic_from two_ifaces ''hal''"
    by (rule acyclic_loop_free) (simp add: two_ifaces_facts(6) acyclic_insert, simp add: acyclic_def)
  have l: "length two_ifaces < 3" by (simp add: two_ifaces_def)
  have "(import_edges two_ifaces)\<^sup>+ `` {''hal''} = {''base''}"
    unfolding two_ifaces_facts(6) using trancl_insert [of "''hal''" "''base''" "{}"] by auto
  moreover have "next_of ?i = ''1''" by (simp add: hal_iface_def empty_interface_def)
  moreover obtain D w' where "get_dependencies yes_tools 3 ?i two_ifaces (next_of ?i) False two_world =
      (Inr (list_dependencies D), w')" "set (dict_keys D) = (import_edges two_ifaces)\<^sup>+ `` {''hal''}"
    using imports_resolved [OF two_ifaces_facts(1,2,5,3,4) a l] by blast
  ultimately show ?thesis by metis
qed

text \<open>
  C23: when the imports of an interface lead into a cycle, resolving them for the version under
  development ends with a \<^verbatim>\<open>RecursionError\<close>, whatever the recursion limit is.
\<close>

theorem imports_cyclic:
  assumes "aidl_accepts t" "wf_interfaces d" "map_of d n = Some i" "current_dirs d (w_fs w)" "w_rec w = 0"
    and "\<not> acyclic_from d n"
  shows "fst (get_dependencies t limit i d (next_of i) False w) = Inl RecursionError"
  by (rule get_dependencies_cyclic [OF assms])

definition loop_ifaces :: "AidlInterface dict" where
  "loop_ifaces = [(''hal'', hal_iface ''hal'' [''base''] [None]), (''base'', hal_iface ''base'' [''hal''] [None])]"

theorem imports_cyclic_witness:
  "fst (get_dependencies yes_tools 900 (hal_iface ''hal'' [''base''] [None]) loop_ifaces ''1'' False two_world) = Inl RecursionError"
proof -
  have f: "wf_interfaces loop_ifaces" "current_dirs loop_ifaces (w_fs two_world)" by code_simp+
  have m: "map_of loop_ifaces ''hal'' = Some (hal_iface ''hal'' [''base''] [None])" by (simp add: loop_ifaces_def)
  have "(''hal'', ''base'') \<in> import_edges loop_ifaces" "(''base'', ''hal'') \<in> import_edges loop_ifaces"
    by (simp_all add: import_edges_def loop_ifaces_def hal_iface_def)
  then have "(''hal'', ''hal'') \<in> (import_edges loop_ifaces)\<^sup>+" by (meson trancl.simps)
  then have "\<not> acyclic_from loop_ifaces ''hal''" by (auto simp: loop_free_def)
  moreover have "next_of (hal_iface ''hal'' [''base''] [None]) = ''1''" by (simp add: hal_iface_def empty_interface_def)
  ultimately show ?thesis
    using imports_cyclic [OF two_ifaces_facts(1) f(1) m f(2) two_ifaces_facts(4)] by metis
qed

lemma store_dependency_entry:
  assumes "store_dependency t i v ad w = (Inr ad', w')"
  shows "\<exists>x. map_of (ad_deps ad') (base_name i) = Some x \<and> di_version x = v \<and>
    (\<forall>m. m \<noteq> base_name i \<longrightarrow> map_of (ad_deps ad') m = map_of (ad_deps ad) m)"
  using assms by (auto simp: store_dependency_def io_bind_Inr io_return_def)

text \<open>
  An interface that is reached more than once stays listed at the highest of its versions, and
  the entries of the other interfaces stay as they are.
\<close>

theorem dependency_highest_version:
  assumes "add_dependency t i v ad w = (Inr ad', w')"
    and "map_of (ad_deps ad) (base_name i) = Some old" "py_int (di_version old) = Inr k" "py_int v = Inr n"
  shows "\<exists>x. map_of (ad_deps ad') (base_name i) = Some x \<and> py_int (di_version x) = Inr (max k n) \<and>
    (\<forall>m. m \<noteq> base_name i \<longrightarrow> map_of (ad_deps ad') m = map_of (ad_deps ad) m)"
proof (cases "k \<ge> n")
  case True
  then have "ad' = ad" using assms by (simp add: add_dependency_def io_return_def)
  then show ?thesis using assms(2,3) True by (simp add: max_def)
next
  case False
  then have "store_dependency t i v (ad\<lparr>ad_deps := dict_del (base_name i) (ad_deps ad)\<rparr>) w = (Inr ad', w')"
    using assms by (simp add: add_dependency_def)
  from store_dependency_entry [OF this] show ?thesis
    using False assms(4) by (auto simp: map_of_dict_del max_def)
qed

definition seen_deps :: "string \<Rightarrow> ApiDependencies" where
  "seen_deps v = \<lparr>ad_name = ''hal'', ad_version = ''1'', ad_type = ''frozen'',
     ad_deps = [(''base'', \<lparr>di_version = v, di_preprocessed = [], di_import = []\<rparr>)]\<rparr>"

theorem dependency_highest_version_witness:
  "\<exists>ad' w' x. add_dependency yes_tools (hal_iface ''base'' [] []) ''1'' (seen_deps ''2'') two_world = (Inr ad', w') \<and>
    map_of (ad_deps ad') ''base'' = Some x \<and> py_int (di_version x) = Inr 2"
proof -
  have i: "py_int ''2'' = Inr 2" "py_int ''1'' = Inr 1" "base_name (hal_iface ''base'' [] []) = ''base''" by code_simp+
  have m: "map_of (ad_deps (seen_deps ''2'')) (base_name (hal_iface ''base'' [] [])) =
      Some \<lparr>di_version = ''2'', di_preprocessed = [], di_import = []\<rparr>" by (simp add: seen_deps_def i(3))
  then have a: "add_dependency yes_tools (hal_iface ''base'' [] []) ''1'' (seen_deps ''2'') two_world = (Inr (seen_deps ''2''), two_world)"
    using i by (simp add: add_dependency_def io_return_def)
  have "py_int (di_version \<lparr>di_version = ''2'', di_preprocessed = [], di_import = []\<rparr>) = Inr 2" using i(1) by simp
  from dependency_highest_version [OF a m this i(2)] a i(3) show ?thesis by auto
qed

definition pin_ifaces :: "AidlInterface dict" where
  "pin_ifaces = [(''hal'', hal_iface ''hal'' [''a'', ''b''] [None, None]),
     (''a'', hal_iface ''a'' [''base''] [Some ''0.1.0.0'']), (''b'', hal_iface ''b'' [''base''] [Some ''0.1.0.0'']),
     (''base'', hal_iface ''base'' [] [])]"

definition pin_world :: world where
  "pin_world = \<lparr>w_fs = map (\<lambda>p. (''/w/stable/aidl/'' @ p, FDir))
     [''hal/current'', ''a/current'', ''b/current'', ''base/current'', ''base/0.1.0.0''], w_rec = 0\<rparr>"

text \<open>
  C38: an interface that two imports lead to, directly or through others, at a version that is not an
  integer for one of them, cannot be resolved: versions are compared as integers when an interface is
  reached again. So two imports that lead to the same dotted pin, which the import syntax documents,
  always end the resolution with an error, whatever the compiler, the recursion limit and the files.
\<close>

theorem dotted_pin_twice:
  assumes "next_version i = Inr nv" "w_rec w = 0"
    and "imports_of (dep_mode nv version is_freeze) 1 i version = Inr (us @ vs)"
    and "(a, va) \<in> import_nodes (dep_mode nv version is_freeze) d us" "(b, vb) \<in> import_nodes (dep_mode nv version is_freeze) d vs"
    and "((a, va), (m, v)) \<in> (visit_edges (dep_mode nv version is_freeze) d)\<^sup>*"
    and "((b, vb), (m, u)) \<in> (visit_edges (dep_mode nv version is_freeze) d)\<^sup>*"
    and "map_of d m = Some j" "base_name j = m" "isl (py_int v) \<or> isl (py_int u)"
  shows "isl (fst (get_dependencies t limit i d version is_freeze w))"
  by (rule odd_version_fails [OF assms])

theorem dotted_pin_twice_witness:
  "isl (fst (get_dependencies yes_tools 20 (hal_iface ''hal'' [''a'', ''b''] [None, None]) pin_ifaces ''1'' True pin_world))"
proof -
  let ?i = "hal_iface ''hal'' [''a'', ''b''] [None, None]" and ?E = "visit_edges ''latest'' pin_ifaces"
  have m: "dep_mode ''1'' ''1'' True = ''latest''" "next_version ?i = Inr ''1''" "w_rec pin_world = 0" "isl (py_int ''0.1.0.0'')"
    "imports_of ''latest'' 1 ?i ''1'' = Inr ([(''a'', ''unknown'')] @ [(''b'', ''unknown'')])"
    "base_name (hal_iface ''base'' [] []) = ''base''"
    by code_simp+
  have d: "map_of pin_ifaces ''a'' = Some (hal_iface ''a'' [''base''] [Some ''0.1.0.0''])"
    "map_of pin_ifaces ''b'' = Some (hal_iface ''b'' [''base''] [Some ''0.1.0.0''])"
    "map_of pin_ifaces ''base'' = Some (hal_iface ''base'' [] [])" by (simp_all add: pin_ifaces_def)
  have v: "import_version ''latest'' (hal_iface ''a'' [''base''] [Some ''0.1.0.0'']) ''unknown'' = Inr ''1''"
    "import_version ''latest'' (hal_iface ''b'' [''base''] [Some ''0.1.0.0'']) ''unknown'' = Inr ''1''"
    "import_version ''latest'' (hal_iface ''base'' [] []) ''0.1.0.0'' = Inr ''0.1.0.0''"
    "imports_of ''latest'' 2 (hal_iface ''a'' [''base''] [Some ''0.1.0.0'']) ''1'' = Inr [(''base'', ''0.1.0.0'')]"
    "imports_of ''latest'' 2 (hal_iface ''b'' [''base''] [Some ''0.1.0.0'']) ''1'' = Inr [(''base'', ''0.1.0.0'')]"
    by code_simp+
  have n: "(''a'', ''1'') \<in> import_nodes ''latest'' pin_ifaces [(''a'', ''unknown'')]"
    "(''b'', ''1'') \<in> import_nodes ''latest'' pin_ifaces [(''b'', ''unknown'')]"
    using d v by (simp_all add: import_nodes_def)
  have "(''base'', ''0.1.0.0'') \<in> import_nodes ''latest'' pin_ifaces [(''base'', ''0.1.0.0'')]"
    using d v by (simp add: import_nodes_def)
  then have e: "((''a'', ''1''), (''base'', ''0.1.0.0'')) \<in> ?E\<^sup>*" "((''b'', ''1''), (''base'', ''0.1.0.0'')) \<in> ?E\<^sup>*"
    using d v by (auto simp: visit_edges_def intro!: r_into_rtrancl)
  show ?thesis
    by (rule dotted_pin_twice [OF m(2,3) _ _ _ _ _ d(3) m(6) disjI1 [OF m(4)], of "''1''" True "[(''a'', ''unknown'')]" "[(''b'', ''unknown'')]",
        unfolded m(1), OF m(5) n e])
qed

end
