(* ===== verification/Lifecycle_Props.thy ===== *)
theory Lifecycle_Props
  imports Frozen_Safe Gen_Rule Version_Props
begin

text \<open>
  The properties of the life cycle of an interface, \<^verbatim>\<open>host/aidl_api.py\<close>, \<^verbatim>\<open>host/interface-update.py\<close>
  and the checks of \<^verbatim>\<open>host/aidl_interface.py\<close>: what an update stores, what a freeze creates and
  records, what stays as it is, and what is detected. What they need to know of the world outside
  is stated in each of them: that \<^verbatim>\<open>sha1sum\<close> prints one word (\<open>sha1_word\<close>), that the compiler writes
  nothing below the directories in question (\<open>aidl_frame\<close>), and that these and the output
  directory are apart (\<open>outputs_outside\<close>, \<open>defs_outside\<close>, \<open>apart\<close>).
\<close>

section \<open>A module with one frozen version\<close>

text \<open>The output directory is apart from a directory.\<close>

lemma plain_suffix: "plain_name a \<Longrightarrow> plain_name b \<Longrightarrow> plain_name (a @ b)"
  by (simp add: plain_name_def)

lemma basename_no_slash: "list_all not_slash (path_basename p)"
  by (auto simp: path_basename_def list_all_iff dest: set_takeWhileD)

lemma outputs_outsideI:
  assumes "plain_dir (interface_api_dir_out i)" "separate d (interface_api_dir_out i)"
  shows "outputs_outside i d"
proof -
  let ?o = "interface_api_dir_out i"
  have n: "plain_name (''checkapi_'' @ path_basename p @ ''.timestamp'')" "plain_name ''has_development''" for p
    using basename_no_slash [of p] by (auto simp: plain_name_def not_slash_def)
  have "\<not> below d (path_join ?o b)" if "plain_name b" for b
    using separate_not_below [OF assms(2), of "path_join ?o b"] version_dir_below(1) [OF assms(1) that] by blast
  then show ?thesis
    using assms n by (simp add: outputs_outside_def timestamp_file_def has_dev_path_def separate_def)
qed

lemma fresh_dirI: "list_all (\<lambda>(p, n). \<not> under d p) fs \<Longrightarrow> fresh_dir fs d"
  by (induction fs) (auto simp: fresh_dir_def)

definition life_def :: interface_def where
  "life_def = \<lparr>df_name = ''hal'', df_stable_aidl_subdir = None, df_frozen_location = None, df_layout = None,
     df_srcs = [''*.aidl''], df_imports = None, df_stability = Some ''vintf'',
     df_version = None, df_versions_with_info = Present [(''1'', [])]\<rparr>"

definition life_iface :: AidlInterface where
  "life_iface = \<lparr>base_name = ''hal'', srcs = [''*.aidl''], interface_root = ''/w/hal/current'',
     interface_root_stable = ''/w/stable/aidl/hal'', interface_gen_dir = ''/w/stable/generated/hal'',
     iface_imports = [], import_versions = [], versions = [''1''], versions_with_info = [(''1'', [])],
     stability = Some ''vintf'', module_version = None, frozen_location = ''stable'', stable_aidl_subdir = ''aidl'',
     layout = ''central'', workspace_root = ''/w'', interface_root_out = ''/w/out/hal/current'',
     interface_api_dir_out = ''/w/out/hal/current/hal-api''\<rparr>"

definition life_ifaces :: "AidlInterface dict" where
  "life_ifaces = [(''hal'', life_iface)]"

text \<open>The module, with given contents of the source file and of its stored copy.\<close>

definition life_fs :: "string \<Rightarrow> string \<Rightarrow> fs" where
  "life_fs source stored = [(''/'', FDir), (''/w'', FDir), (''/w/hal'', FDir), (''/w/hal/current'', FDir),
     (''/w/hal/current/interface.yaml'', FDef life_def), (''/w/hal/current/IHal.aidl'', FFile source),
     (''/w/out'', FDir), (''/w/out/hal'', FDir), (''/w/out/hal/current'', FDir), (''/w/out/hal/current/hal-api'', FDir),
     (''/w/out/hal/current/hal-api/checkapi_current.timestamp'', FFile []),
     (''/w/out/hal/current/hal-api/has_development'', FFile (''1'' @ [chr_nl])),
     (''/w/stable'', FDir), (''/w/stable/aidl'', FDir), (''/w/stable/aidl/hal'', FDir),
     (''/w/stable/aidl/hal/1'', FDir), (''/w/stable/aidl/hal/1/IHal.aidl'', FFile ''v1''),
     (''/w/stable/aidl/hal/1/.hash'', FFile (''h'' @ [chr_nl])),
     (''/w/stable/aidl/hal/current'', FDir), (''/w/stable/aidl/hal/current/IHal.aidl'', FFile stored),
     (''/w/stable/aidl/hal/current/.hash'', FFile (''h'' @ [chr_nl]))]"

definition life_world :: world where
  "life_world = \<lparr>w_fs = life_fs ''v2'' ''v2'', w_rec = 0\<rparr>"

text \<open>
  Compilers that write no file: one that finds every two versions compatible but different, one
  that finds all equal, one that finds the sources of the module incompatible with anything.
\<close>

definition tools_with :: "(string list \<Rightarrow> int) \<Rightarrow> tools" where
  "tools_with f = \<lparr>t_aidl = (\<lambda>cmd fs. (f cmd, fs)), t_sha1 = (\<lambda>s. ''h''), t_cmd_aidl = ''/out/host/bin/aidl''\<rparr>"

definition dev_tools :: tools where
  "dev_tools = tools_with (\<lambda>cmd. if cmd ! 1 = ''--checkapi=equal'' then 1 else 0)"

definition equal_tools :: tools where
  "equal_tools = tools_with (\<lambda>cmd. 0)"

definition strict_tools :: tools where
  "strict_tools = tools_with (\<lambda>cmd. if ''--checkapi=compatible'' \<in> set cmd \<and> last cmd = ''/w/hal/current'' then 1 else 0)"

lemma tools_with_facts: "aidl_frame (tools_with f) d" "sha1_word (tools_with f)"
  by (simp_all add: aidl_frame_def tools_with_def below.keep_refl sha1_word_def is_ifs_def)

lemmas sample_tools = tools_with_facts [where f = "\<lambda>cmd. if cmd ! 1 = ''--checkapi=equal'' then 1 else 0", folded dev_tools_def]
  tools_with_facts [where f = "\<lambda>cmd. 0", folded equal_tools_def]
  tools_with_facts [where f = "\<lambda>cmd. if ''--checkapi=compatible'' \<in> set cmd \<and> last cmd = ''/w/hal/current'' then 1 else 0", folded strict_tools_def]

lemma life_iface_loaded:
  "load_interface id [''/w''] ''/w/hal/current'' ''/w/out'' life_def = Inr life_iface"
  by code_simp

lemma life_paths:
  "interface_root_stable life_iface = ''/w/stable/aidl/hal''" "interface_root life_iface = ''/w/hal/current''"
  "interface_api_dir_out life_iface = ''/w/out/hal/current/hal-api''" "versions life_iface = [''1'']"
  "base_name life_iface = ''hal''" "\<not> unstable life_iface" "layout life_iface \<noteq> ''module-local''"
  "current_dir life_iface = ''/w/stable/aidl/hal/current''" "next_version life_iface = Inr ''2''"
  "get_versioned_dir life_iface ''1'' = ''/w/stable/aidl/hal/1''"
  "get_versioned_dir life_iface ''2'' = ''/w/stable/aidl/hal/2''"
  by code_simp+

lemma life_facts:
  "wf_interface life_iface" "wf_dict (w_fs life_world)" "map_of life_ifaces ''hal'' = Some life_iface"
  "plain_dir (interface_root_stable life_iface)" "plain_dir (interface_root life_iface)"
  "outputs_outside life_iface (interface_root_stable life_iface)" "outputs_outside life_iface (interface_root life_iface)"
  "apart life_iface" "defs_outside life_iface" "next_of life_iface = ''2''"
  "fresh_dir (w_fs life_world) (get_versioned_dir life_iface (next_of life_iface))"
proof -
  show "wf_interface life_iface" by (rule load_interface_wf [OF life_iface_loaded])
  show "wf_dict (w_fs life_world)" "map_of life_ifaces ''hal'' = Some life_iface"
    by (code_simp, simp add: life_ifaces_def)
  show "plain_dir (interface_root_stable life_iface)" "plain_dir (interface_root life_iface)"
    unfolding life_paths by code_simp+
  have "plain_dir (interface_api_dir_out life_iface)" unfolding life_paths by code_simp
  then show "outputs_outside life_iface (interface_root_stable life_iface)" "outputs_outside life_iface (interface_root life_iface)"
    by (intro outputs_outsideI; simp add: life_paths; code_simp)+
  show "apart life_iface" unfolding apart_def life_paths by code_simp
  show "defs_outside life_iface" unfolding defs_outside_def has_dev_path_def life_paths by code_simp
  show n: "next_of life_iface = ''2''" unfolding life_paths by code_simp
  show "fresh_dir (w_fs life_world) (get_versioned_dir life_iface (next_of life_iface))"
    by (rule fresh_dirI) (unfold n, code_simp)
qed

subsection \<open>Its freeze, stage by stage\<close>

text \<open>The outputs of the checks are there from an earlier run, so that only the last two stages change the world.\<close>

definition life_dumps :: "ApiDump list" where
  "life_dumps = [dump_of (w_fs life_world) ''1'' ''/w/stable/aidl/hal/1'', dump_of (w_fs life_world) ''2'' ''/w/stable/aidl/hal/current'']"

definition copied_world :: world where
  "copied_world = life_world\<lparr>w_fs := w_fs life_world @ [(''/w/stable/aidl/hal/2'', FDir),
     (''/w/stable/aidl/hal/2/IHal.aidl'', FFile ''v2''), (''/w/stable/aidl/hal/2/.hash'', FFile (''h'' @ [chr_nl]))]\<rparr>"

definition frozen_world :: world where
  "frozen_world = copied_world\<lparr>w_fs := dict_set ''/w/hal/current/interface.yaml''
     (FDef (life_def\<lparr>df_versions_with_info := Present [(''1'', []), (''2'', [])]\<rparr>)) (w_fs copied_world)\<rparr>"

lemma life_validate:
  "validate_interface dev_tools 5 life_iface life_ifaces life_world = (Inr life_dumps, life_world)"
  by code_simp

lemma life_stages:
  "update_hash_for_current_api dev_tools life_iface life_world = (Inr (), life_world)"
  "check_for_development dev_tools 5 life_iface life_ifaces (Some (life_dumps ! 0)) (life_dumps ! 1) life_world =
     (Inr (has_dev_path life_iface), life_world)"
  "dependecies_check_for_freeze dev_tools 5 life_iface life_ifaces life_world = (Inr (), life_world)"
  "make_api_dump_as_version life_iface (life_dumps ! 1) ''2'' (has_dev_path life_iface) life_world = (Inr (), copied_world)"
  "append_version life_iface life_ifaces ''2'' (has_dev_path life_iface) copied_world = (Inr (), frozen_world)"
  by code_simp+

lemma life_dumps_facts:
  "last life_dumps = life_dumps ! 1" "length life_dumps = 2" "life_dumps \<noteq> []" "du_version (life_dumps ! 1) = ''2''"
  by (simp_all add: life_dumps_def dump_of_def)

lemma life_freeze: "handle_freeze_api dev_tools 5 ''hal'' life_ifaces life_world = (Inr (), frozen_world)"
proof -
  have d: "dict_get life_ifaces ''hal'' = Inr life_iface" using life_facts(3) by (simp add: dict_get_def)
  show ?thesis
    by (simp add: handle_freeze_api_def d io_bind_def life_validate life_stages life_paths(9) io_res_def life_dumps_facts Let_def
        del: One_nat_def)
qed

lemma life_freeze_dev: "cat_text (w_fs frozen_world) (has_dev_path life_iface) = ''1''"
  by code_simp

section \<open>Freezing\<close>

text \<open>
  C2: a freeze that returns and found a change creates the next version: every file of the version
  under development is in its directory with the same content, except the definition file and the
  hash, and the stored hash is that of the files, so the new version passes the integrity check.
\<close>

theorem freeze_creates_version:
  assumes "map_of ds n = Some i" "handle_freeze_api t limit n ds w = (Inr (), w')"
    and "wf_interface i" "\<not> unstable i" "wf_dict (w_fs w)" "sha1_word t"
    and "plain_dir (interface_root_stable i)" "aidl_frame t (interface_root_stable i)"
      "outputs_outside i (interface_root_stable i)"
    and "fresh_dir (w_fs w) (get_versioned_dir i (next_of i))" "defs_outside i"
    and "cat_text (w_fs w') (has_dev_path i) = ''1''"
  shows "(\<forall>p. under (current_dir i) p \<and> p \<noteq> current_hash i \<and>
        p \<noteq> current_dir i @ ''/interface.json'' \<and> p \<noteq> current_dir i @ ''/interface.yaml'' \<longrightarrow>
      map_of (w_fs w') (move_path (current_dir i) (get_versioned_dir i (next_of i)) p) = map_of (w_fs w) p) \<and>
    (\<exists>hv. version_for_hashgen (next_of i) = Inr hv \<and>
      integrity_ok (t_sha1 t) (w_fs w') (get_versioned_dir i (next_of i)) hv
        (get_versioned_dir i (next_of i) @ ''/.hash''))"
  using freeze_result(1,2) [OF assms(1-11,12)] by blast

theorem freeze_creates_version_witness:
  "map_of (w_fs frozen_world) ''/w/stable/aidl/hal/2/IHal.aidl'' = Some (FFile ''v2'') \<and>
   integrity_ok (t_sha1 dev_tools) (w_fs frozen_world) ''/w/stable/aidl/hal/2'' ''1'' ''/w/stable/aidl/hal/2/.hash''"
proof -
  have h: "version_for_hashgen ''2'' = Inr ''1''" by code_simp
  have p: "under (current_dir life_iface) ''/w/stable/aidl/hal/current/IHal.aidl''"
    "''/w/stable/aidl/hal/current/IHal.aidl'' \<noteq> current_hash life_iface"
    "move_path (current_dir life_iface) (get_versioned_dir life_iface (next_of life_iface))
      ''/w/stable/aidl/hal/current/IHal.aidl'' = ''/w/stable/aidl/hal/2/IHal.aidl''"
    "map_of (w_fs life_world) ''/w/stable/aidl/hal/current/IHal.aidl'' = Some (FFile ''v2'')"
    unfolding life_facts(10) life_paths by code_simp+
  note r = freeze_creates_version [OF life_facts(3) life_freeze life_facts(1) life_paths(6) life_facts(2)
      sample_tools(2) life_facts(4) sample_tools(1) life_facts(6,11,9) life_freeze_dev]
  have "map_of (w_fs frozen_world) ''/w/stable/aidl/hal/2/IHal.aidl'' = Some (FFile ''v2'')"
    using r [THEN conjunct1, rule_format, of "''/w/stable/aidl/hal/current/IHal.aidl''"] p by (simp add: life_paths(8))
  then show ?thesis using r h life_facts(10) life_paths(11) by auto
qed

text \<open>
  C28: a freeze that returns and found no change since the last version creates nothing: below the
  stable directory of the interface everything but the hash of the version under development is as
  it was.
\<close>

theorem freeze_without_change:
  assumes "map_of ds n = Some i" "handle_freeze_api t limit n ds w = (Inr (), w')"
    and "wf_interface i" "\<not> unstable i" "wf_dict (w_fs w)" "sha1_word t"
    and "plain_dir (interface_root_stable i)" "aidl_frame t (interface_root_stable i)"
      "outputs_outside i (interface_root_stable i)"
    and "fresh_dir (w_fs w) (get_versioned_dir i (next_of i))" "defs_outside i"
    and "cat_text (w_fs w') (has_dev_path i) \<noteq> ''1''" "below (interface_root_stable i) q" "q \<noteq> current_hash i"
  shows "map_of (w_fs w') q = map_of (w_fs w) q"
  using freeze_result(3) [OF assms(1-11,12)] assms(13,14) by blast

definition equal_world :: world where
  "equal_world = life_world\<lparr>w_fs := map (\<lambda>(p, n). (p, if p = ''/w/out/hal/current/hal-api/has_development''
     then FFile (''0'' @ [chr_nl]) else n)) (w_fs life_world)\<rparr>"

lemma equal_validate:
  "validate_interface equal_tools 5 life_iface life_ifaces equal_world = (Inr life_dumps, equal_world)"
  by code_simp

lemma equal_stages:
  "update_hash_for_current_api equal_tools life_iface equal_world = (Inr (), equal_world)"
  "check_for_development equal_tools 5 life_iface life_ifaces (Some (life_dumps ! 0)) (life_dumps ! 1) equal_world =
     (Inr (has_dev_path life_iface), equal_world)"
  "dependecies_check_for_freeze equal_tools 5 life_iface life_ifaces equal_world = (Inr (), equal_world)"
  "make_api_dump_as_version life_iface (life_dumps ! 1) ''2'' (has_dev_path life_iface) equal_world = (Inr (), equal_world)"
  "append_version life_iface life_ifaces ''2'' (has_dev_path life_iface) equal_world = (Inr (), equal_world)"
  by code_simp+

lemma equal_freeze: "handle_freeze_api equal_tools 5 ''hal'' life_ifaces equal_world = (Inr (), equal_world)"
proof -
  have d: "dict_get life_ifaces ''hal'' = Inr life_iface" using life_facts(3) by (simp add: dict_get_def)
  show ?thesis
    by (simp add: handle_freeze_api_def d io_bind_def equal_validate equal_stages life_paths(9) io_res_def life_dumps_facts Let_def
        del: One_nat_def)
qed

theorem freeze_without_change_witness:
  "map_of (w_fs (snd (handle_freeze_api equal_tools 5 ''hal'' life_ifaces equal_world))) ''/w/stable/aidl/hal/2'' = None"
proof -
  have e: "wf_dict (w_fs equal_world)" "cat_text (w_fs equal_world) (has_dev_path life_iface) \<noteq> ''1''"
    "map_of (w_fs equal_world) ''/w/stable/aidl/hal/2'' = None"
    by code_simp+
  have f: "fresh_dir (w_fs equal_world) (get_versioned_dir life_iface (next_of life_iface))"
    by (rule fresh_dirI) (unfold life_facts(10), code_simp)
  have q: "below (interface_root_stable life_iface) ''/w/stable/aidl/hal/2''" "''/w/stable/aidl/hal/2'' \<noteq> current_hash life_iface"
    unfolding life_paths by code_simp+
  from freeze_without_change [OF life_facts(3) equal_freeze life_facts(1) life_paths(6) e(1) sample_tools(4) life_facts(4)
      sample_tools(3) life_facts(6) f life_facts(9) e(2) q] e(3)
  show ?thesis by (simp add: equal_freeze)
qed

text \<open>The definition file after a freeze, loaded again.\<close>

lemma freeze_reloaded:
  assumes "map_of ds n = Some i" "handle_freeze_api t limit n ds w = (Inr (), w')"
    and "\<not> unstable i" "wf_dict (w_fs w)" "sha1_word t"
    and "plain_dir (interface_root_stable i)" "aidl_frame t (interface_root_stable i)"
      "outputs_outside i (interface_root_stable i)"
    and "plain_dir (interface_root i)" "aidl_frame t (interface_root i)" "outputs_outside i (interface_root i)"
    and "apart i" "\<not> py_startswith (interface_root i @ ''/interface'') ''-''"
    and "cat_text (w_fs w') (has_dev_path i) = ''1''"
    and "frozen_imports ds i = Inr imps" "module_word (base_name i)" "list_all quotable imps"
    and "definition_file (w_fs w) (interface_root i @ ''/interface'') = Some f" "map_of (w_fs w) f = Some (FDef data)"
      "df_name data = base_name i" "df_versions_with_info data \<noteq> Null"
    and "load_interface realpath roots dir out data = Inr i" "map_of (versions_with_info i) (next_of i) = None"
  shows "\<exists>data' i'. map_of (w_fs w') f = Some (FDef data') \<and> load_interface realpath roots dir out data' = Inr i' \<and>
    versions i' = versions i @ [next_of i] \<and> latest_version i' = next_of i \<and>
    get_imports i' (next_of i) = Inr (dict_of (map split_versioned imps)) \<and>
    (\<forall>v. v \<noteq> next_of i \<longrightarrow> map_of (versions_with_info i') v = map_of (versions_with_info i) v) \<and>
    next_version i' = Inr (str_of_nat (length (versions i) + 2))"
proof -
  let ?data = "data\<lparr>df_versions_with_info := Present (field_list (df_versions_with_info data) @ [(next_of i, imps)])\<rparr>"
  have wf: "wf_interface i" by (rule load_interface_wf [OF assms(22)])
  have nv: "next_version i = Inr (next_of i)" by (rule next_version_wf [OF wf assms(3)])
  obtain i' where i': "load_interface realpath roots dir out ?data = Inr i'"
    using assms(22) by (auto simp: load_interface_def Let_def rbind_eq_Inr split: if_splits)
  note r = reload_versions [OF assms(22) assms(3) nv assms(23) i']
  have "map_of (w_fs w') f = Some (FDef ?data)"
    by (rule freeze_definition [OF assms(1,2) wf assms(3-21)])
  then show ?thesis using i' r by blast
qed

text \<open>
  C9: a freeze that returns and found a change records the new version in the definition file, unless
  its list of versions is there without a value:
  loaded again, the interface has one version more, which is the latest one, with the latest
  versions of its imports; the versions before keep their imports.
\<close>

theorem freeze_records_version:
  assumes "map_of ds n = Some i" "handle_freeze_api t limit n ds w = (Inr (), w')"
    and "\<not> unstable i" "wf_dict (w_fs w)" "sha1_word t"
    and "plain_dir (interface_root_stable i)" "aidl_frame t (interface_root_stable i)"
      "outputs_outside i (interface_root_stable i)"
    and "plain_dir (interface_root i)" "aidl_frame t (interface_root i)" "outputs_outside i (interface_root i)"
    and "apart i" "\<not> py_startswith (interface_root i @ ''/interface'') ''-''"
    and "cat_text (w_fs w') (has_dev_path i) = ''1''"
    and "frozen_imports ds i = Inr imps" "module_word (base_name i)" "list_all quotable imps"
    and "definition_file (w_fs w) (interface_root i @ ''/interface'') = Some f" "map_of (w_fs w) f = Some (FDef data)"
      "df_name data = base_name i" "df_versions_with_info data \<noteq> Null"
    and "load_interface realpath roots dir out data = Inr i" "map_of (versions_with_info i) (next_of i) = None"
  shows "\<exists>data' i'. map_of (w_fs w') f = Some (FDef data') \<and> load_interface realpath roots dir out data' = Inr i' \<and>
    versions i' = versions i @ [next_of i] \<and> latest_version i' = next_of i \<and>
    get_imports i' (next_of i) = Inr (dict_of (map split_versioned imps)) \<and>
    (\<forall>v. v \<noteq> next_of i \<longrightarrow> map_of (versions_with_info i') v = map_of (versions_with_info i) v)"
  using freeze_reloaded [OF assms] by blast

theorem freeze_records_version_witness:
  "\<exists>data' i'. map_of (w_fs frozen_world) ''/w/hal/current/interface.yaml'' = Some (FDef data') \<and>
    load_interface id [''/w''] ''/w/hal/current'' ''/w/out'' data' = Inr i' \<and> versions i' = [''1'', ''2''] \<and>
    latest_version i' = ''2'' \<and> get_imports i' ''2'' = Inr []"
proof -
  have d: "frozen_imports life_ifaces life_iface = Inr []" "module_word (base_name life_iface)"
    "definition_file (w_fs life_world) (interface_root life_iface @ ''/interface'') = Some ''/w/hal/current/interface.yaml''"
    "map_of (w_fs life_world) ''/w/hal/current/interface.yaml'' = Some (FDef life_def)"
    "df_name life_def = base_name life_iface" "df_versions_with_info life_def \<noteq> Null"
    "map_of (versions_with_info life_iface) (next_of life_iface) = None"
    "\<not> py_startswith (interface_root life_iface @ ''/interface'') ''-''"
    by code_simp+
  have q: "list_all quotable []" by simp
  note r = freeze_records_version [OF life_facts(3) life_freeze life_paths(6) life_facts(2) sample_tools(2)
      life_facts(4) sample_tools(1) life_facts(6,5) sample_tools(1) life_facts(7,8) d(8) life_freeze_dev d(1,2) q d(3-6)
      life_iface_loaded d(7)]
  then show ?thesis unfolding life_facts(10) by (auto simp: dict_of_def life_paths(4))
qed

section \<open>Frozen versions\<close>

text \<open>
  C5: neither an update nor a freeze of an interface, whatever its outcome, changes anything in the
  directory of a version that is frozen already; so the version passes the integrity check after
  it exactly when it passed before.
\<close>

theorem frozen_version_kept:
  assumes "map_of ds n = Some i" "handle_update_api t limit n ds w = (r, w') \<or> handle_freeze_api t limit n ds w = (r, w')"
    and "wf_interface i" "\<not> unstable i" "v \<in> set (versions i)" "wf_dict (w_fs w)"
    and "plain_dir (interface_root_stable i)" "aidl_frame t (interface_root_stable i)"
      "outputs_outside i (interface_root_stable i)" "defs_outside i"
  shows "(\<forall>p. below (get_versioned_dir i v) p \<longrightarrow> map_of (w_fs w') p = map_of (w_fs w) p) \<and>
    (integrity_ok (t_sha1 t) (w_fs w') (get_versioned_dir i v) hv (get_versioned_dir i v @ ''/.hash'') \<longleftrightarrow>
     integrity_ok (t_sha1 t) (w_fs w) (get_versioned_dir i v) hv (get_versioned_dir i v @ ''/.hash''))"
proof -
  let ?d = "get_versioned_dir i v"
  note c = frozen_clear [OF assms(3-5,7,9,10)]
  note a = assms(1) c(2) aidl_frame_mono [OF c(3) assms(8)] c(1) assms(7)
  have s: "same_below ?d (w_fs w) (w_fs w')"
    using assms(2) update_same [OF a, of limit] freeze_same [OF a, of limit] by (auto simp: io_keeps_def)
  have "below ?d ?d" "below ?d (?d @ ''/.hash'')" by (simp_all add: below_def under_def)
  from integrity_same [OF s assms(6) this] s show ?thesis by (simp add: same_below_def)
qed

theorem frozen_version_kept_witness:
  "map_of (w_fs frozen_world) ''/w/stable/aidl/hal/1/IHal.aidl'' = Some (FFile ''v1'') \<and>
   integrity_ok (t_sha1 dev_tools) (w_fs frozen_world) ''/w/stable/aidl/hal/1'' ''latest-version'' ''/w/stable/aidl/hal/1/.hash''"
proof -
  have v: "''1'' \<in> set (versions life_iface)" by (simp add: life_paths)
  have b: "below ''/w/stable/aidl/hal/1'' ''/w/stable/aidl/hal/1/IHal.aidl''"
    "map_of (w_fs life_world) ''/w/stable/aidl/hal/1/IHal.aidl'' = Some (FFile ''v1'')"
    "integrity_ok (t_sha1 dev_tools) (w_fs life_world) ''/w/stable/aidl/hal/1'' ''latest-version'' ''/w/stable/aidl/hal/1/.hash''"
    by code_simp+
  show ?thesis
    using frozen_version_kept [OF life_facts(3) disjI2 [OF life_freeze] life_facts(1) life_paths(6) v life_facts(2,4)
      sample_tools(1) life_facts(6,9), of "''latest-version''"] b
    unfolding life_paths(10) by simp
qed

text \<open>
  C16: over any sequence of updates and freezes of interfaces that stay clear of a directory, such as
  that of a frozen version, also where some of them fail, the directory stays as it is.
\<close>

theorem session_keeps_version:
  assumes "session t limit d w w'" "plain_dir d" "aidl_frame t d" "below d p"
  shows "map_of (w_fs w') p = map_of (w_fs w) p"
  using session_same [OF assms(1-3)] assms(4) by (simp add: same_below_def)

theorem session_keeps_version_witness:
  "map_of (w_fs (snd (handle_update_api strict_tools 5 ''hal'' life_ifaces life_world))) ''/w/stable/aidl/hal/1/IHal.aidl'' =
     Some (FFile ''v1'')"
proof -
  have v: "''1'' \<in> set (versions life_iface)" by (simp add: life_paths)
  note c = frozen_clear [OF life_facts(1) life_paths(6) v life_facts(4,6,9)]
  have b: "below ''/w/stable/aidl/hal/1'' ''/w/stable/aidl/hal/1/IHal.aidl''"
    "map_of (w_fs life_world) ''/w/stable/aidl/hal/1/IHal.aidl'' = Some (FFile ''v1'')"
    by code_simp+
  have "session strict_tools 5 (get_versioned_dir life_iface ''1'') life_world
      (snd (handle_update_api strict_tools 5 ''hal'' life_ifaces life_world))"
    by (rule session.update [OF session.start life_facts(3) c(1) life_facts(4)]) (rule prod.collapse [symmetric])
  from session_keeps_version [OF this c(2) sample_tools(5)] b show ?thesis by (simp add: life_paths(10))
qed

text \<open>
  C10: a frozen version whose files do not fit its stored hash is detected: a freeze and a generation
  of sources for the interface both end with an error, before anything in its stable directory
  has changed.
\<close>

theorem tampering_detected:
  assumes "map_of ds n = Some i" "wf_interface i" "wf_dict (w_fs w)" "has_frozen_versions (w_fs w) i"
    and "v \<in> set (versions i)" "version_for_hashgen v = Inr hv"
    and "path_exists (w_fs w) (path_join (get_versioned_dir i v) ''.hash'')"
    and "\<not> integrity_ok (t_sha1 t) (w_fs w) (get_versioned_dir i v) hv (path_join (get_versioned_dir i v) ''.hash'')"
    and "plain_dir (interface_root_stable i)" "aidl_frame t (interface_root_stable i)"
      "outputs_outside i (interface_root_stable i)"
  shows "\<exists>e w'. handle_freeze_api t limit n ds w = (Inl e, w') \<and> handle_source_gen t limit n ds gd gv w = (Inl e, w') \<and>
    same_below (interface_root_stable i) (w_fs w) (w_fs w')"
proof -
  obtain r w' where run: "validate_interface t limit i ds w = (r, w')" by fastforce
  have "\<nexists>dumps. r = Inr dumps"
  proof
    assume "\<exists>dumps. r = Inr dumps"
    then obtain dumps where "validate_interface t limit i ds w = (Inr dumps, w')" using run by blast
    note p = validate_passes [OF assms(2,3,9-11) this]
    obtain cur where d: "dumps = map (\<lambda>v. dump_of (w_fs w) v (get_versioned_dir i v)) (versions i) @ cur"
      using p(1) assms(4) by auto
    obtain k where k: "k < length (versions i)" "versions i ! k = v" using assms(5) by (auto simp: in_set_conv_nth)
    then have "dumps ! k = dump_of (w_fs w) v (get_versioned_dir i v)" by (simp add: d nth_append)
    then show False
      using p(2) [of k] k(1) assms(6-8) by (simp add: d dump_intact_def dump_of_def the_default_def)
  qed
  then obtain e where e: "r = Inl e" by (cases r) auto
  have "same_below (interface_root_stable i) (w_fs w) (w_fs w')"
    using validate_interface_same [OF assms(9-11), of limit ds] run by (simp add: io_keeps_def)
  then show ?thesis
    using run e assms(1) by (auto simp: handle_freeze_api_def handle_source_gen_def dict_get_def io_bind_fail)
qed

definition tampered_world :: world where
  "tampered_world = life_world\<lparr>w_fs := dict_set ''/w/stable/aidl/hal/1/.hash'' (FFile (''x'' @ [chr_nl])) (w_fs life_world)\<rparr>"

theorem tampering_detected_witness:
  "isl (fst (handle_freeze_api dev_tools 5 ''hal'' life_ifaces tampered_world))"
proof -
  have h: "version_for_hashgen ''1'' = Inr ''latest-version''" "has_frozen_versions (w_fs tampered_world) life_iface"
    "path_exists (w_fs tampered_world) (path_join (get_versioned_dir life_iface ''1'') ''.hash'')"
    "\<not> integrity_ok (t_sha1 dev_tools) (w_fs tampered_world) (get_versioned_dir life_iface ''1'') ''latest-version''
      (path_join (get_versioned_dir life_iface ''1'') ''.hash'')" "wf_dict (w_fs tampered_world)"
    by code_simp+
  have v: "''1'' \<in> set (versions life_iface)" by (simp add: life_paths)
  from tampering_detected [OF life_facts(3,1) h(5,2) v h(1,3,4) life_facts(4) sample_tools(1) life_facts(6), of 5]
  show ?thesis by (metis fst_conv isl_def)
qed

section \<open>Updates\<close>

text \<open>
  C12: an update that returns has stored the sources: every AIDL file of the module is in the
  directory of the version under development with the same content, and the stored hash is that
  of the files.
\<close>

theorem update_stores:
  assumes "map_of ds n = Some i" "layout i \<noteq> ''module-local''" "handle_update_api t limit n ds w = (Inr (), w')"
    and "wf_dict (w_fs w)" "sha1_word t"
    and "plain_dir (interface_root_stable i)" "aidl_frame t (interface_root_stable i)"
      "outputs_outside i (interface_root_stable i)"
    and "plain_dir (interface_root i)" "aidl_frame t (interface_root i)" "outputs_outside i (interface_root i)"
  shows "(\<forall>p m. under (interface_root i) p \<and> py_endswith p ''.aidl'' \<and> map_of (w_fs w) p = Some m \<longrightarrow>
      map_of (w_fs w') (move_path (interface_root i) (current_dir i) p) = Some m) \<and>
    (\<exists>nv hv. next_version i = Inr nv \<and> version_for_hashgen nv = Inr hv \<and>
      integrity_ok (t_sha1 t) (w_fs w') (current_dir i) hv (current_hash i))"
  using update_stores_sources [OF assms] by blast

definition edited_world :: world where
  "edited_world = \<lparr>w_fs = life_fs ''v3'' ''v2'', w_rec = 0\<rparr>"

definition updated_world :: world where
  "updated_world = \<lparr>w_fs = life_fs ''v3'' ''v3'', w_rec = 0\<rparr>"

lemma update_pre_validate: "pre_validate dev_tools 5 life_iface life_ifaces edited_world = (Inr (), edited_world)"
  by code_simp

lemma update_validate:
  "validate_interface dev_tools 5 life_iface life_ifaces updated_world = (Inr life_dumps, updated_world)"
  by code_simp

lemma update_writes:
  "io_modify (copy_sources life_iface) edited_world = (Inr (), updated_world)"
  "update_hash_for_current_api dev_tools life_iface updated_world = (Inr (), updated_world)"
  by code_simp+

lemma life_update: "handle_update_api dev_tools 5 ''hal'' life_ifaces edited_world = (Inr (), updated_world)"
proof -
  have d: "dict_get life_ifaces ''hal'' = Inr life_iface" using life_facts(3) by (simp add: dict_get_def)
  show ?thesis
    using life_paths(7) by (simp add: handle_update_api_def d io_bind_def update_pre_validate update_validate update_writes io_return_def)
qed

theorem update_stores_witness:
  "map_of (w_fs updated_world) ''/w/stable/aidl/hal/current/IHal.aidl'' = Some (FFile ''v3'')"
proof -
  have p: "under (interface_root life_iface) ''/w/hal/current/IHal.aidl''" "py_endswith ''/w/hal/current/IHal.aidl'' ''.aidl''"
    "map_of (w_fs edited_world) ''/w/hal/current/IHal.aidl'' = Some (FFile ''v3'')"
    "move_path (interface_root life_iface) (current_dir life_iface) ''/w/hal/current/IHal.aidl'' =
      ''/w/stable/aidl/hal/current/IHal.aidl''" "wf_dict (w_fs edited_world)"
    by code_simp+
  from update_stores [OF life_facts(3) life_paths(7) life_update p(5) sample_tools(2) life_facts(4) sample_tools(1)
      life_facts(6,5) sample_tools(1) life_facts(7)] p(1-4)
  show ?thesis by metis
qed

text \<open>
  C15: once a version is frozen, an update whose sources the compiler finds incompatible with the
  stored version is refused with an error, and nothing below the stable directory, or any other
  directory that is apart from the outputs, has changed.
\<close>

theorem update_refused:
  assumes "map_of ds n = Some i" "layout i \<noteq> ''module-local''" "next_version i = Inr nv"
    and "path_exists (w_fs w) (current_dir i)" "has_frozen_versions (w_fs w) i"
      "aidl_rejects t (current_dir i) (interface_root i)"
    and "plain_dir d" "aidl_frame t d" "outputs_outside i d"
  shows "\<exists>e w'. handle_update_api t limit n ds w = (Inl e, w') \<and> same_below d (w_fs w) (w_fs w')"
  by (rule update_rejected [OF assms])

theorem update_refused_witness:
  "\<exists>e w'. handle_update_api strict_tools 5 ''hal'' life_ifaces edited_world = (Inl e, w') \<and>
    same_below ''/w/stable/aidl/hal'' (w_fs edited_world) (w_fs w')"
proof -
  have "interface_root life_iface = ''/w/hal/current''" by code_simp
  then have "aidl_rejects strict_tools (current_dir life_iface) (interface_root life_iface)"
    by (simp add: aidl_rejects_def strict_tools_def tools_with_def)
  moreover have "path_exists (w_fs edited_world) (current_dir life_iface)" "has_frozen_versions (w_fs edited_world) life_iface"
    by code_simp+
  ultimately show ?thesis
    using update_refused [OF life_facts(3) life_paths(7,9) _ _ _ life_facts(4) sample_tools(5) life_facts(6), of edited_world 5]
    unfolding life_paths(1) by blast
qed

section \<open>Hashes and literals\<close>

text \<open>
  C35: the hash of a version depends on the paths and contents of its AIDL files and on nothing
  else: two file systems with the same AIDL files below a directory give the same hash, in
  whatever order they list them.
\<close>

theorem hash_of_aidl_files:
  assumes "wf_dict fs" "wf_dict fs'" "\<forall>p. under d p \<and> py_endswith p ''.aidl'' \<longrightarrow> map_of fs' p = map_of fs p"
  shows "api_hash sha1 fs' d ver = api_hash sha1 fs d ver"
  using assms(3) by (intro api_hash_same(2) [OF assms(1,2)]) blast

theorem hash_of_aidl_files_witness:
  "api_hash id [(''/d/B.aidl'', FFile ''b''), (''/d/A.aidl'', FFile ''a''), (''/d/.hash'', FFile ''x'')] ''/d'' ''1'' =
   api_hash id [(''/d/A.aidl'', FFile ''a''), (''/d/B.aidl'', FFile ''b'')] ''/d'' ''1''"
  by (rule hash_of_aidl_files) (auto simp: wf_dict_def suffix_def)

text \<open>
  C33: the literal that a freeze passes to the definition-file tool is read back as the version and
  the imports it was made of, when these have no quote, backslash or line end.
\<close>

theorem version_literal_round_trip:
  assumes "quotable v" "list_all quotable imps"
  shows "update_versions_with_info (Some info) (version_literal v imps) = Inr (info @ [(v, imps)])"
  by (rule update_versions_literal [OF assms])

theorem version_literal_round_trip_witness:
  "update_versions_with_info (Some []) (version_literal ''2'' [''common-v1'', ''base-v3'']) = Inr [(''2'', [''common-v1'', ''base-v3''])]"
proof -
  have "quotable ''2''" "list_all quotable [''common-v1'', ''base-v3'']" by (simp_all add: quotable_def)
  from version_literal_round_trip [OF this, of "[]"] show ?thesis by simp
qed

section \<open>Generated sources\<close>

text \<open>
  C29: a pinned version of a module-local interface is emitted exactly when it is a positive number
  in decimal digits, apart from blanks around it, and the contract is frozen; what is emitted is
  the pin, and it has nothing but digits, so it cannot add anything to the shell command.
\<close>

theorem emitted_version:
  "resolve_emit_version ''module-local'' (Some mv) gv h name = Inr v \<longleftrightarrow>
    v = py_strip (yaml_str mv) \<and> v \<noteq> [] \<and> (\<forall>c \<in> set v. is_dec c) \<and> digits_val 10 v \<ge> 1 \<and> h \<noteq> ''notfrozen''"
proof
  assume "resolve_emit_version ''module-local'' (Some mv) gv h name = Inr v"
  from resolve_emit_pinned [OF this] show "v = py_strip (yaml_str mv) \<and> v \<noteq> [] \<and> (\<forall>c \<in> set v. is_dec c) \<and>
    digits_val 10 v \<ge> 1 \<and> h \<noteq> ''notfrozen''" by blast
next
  assume "v = py_strip (yaml_str mv) \<and> v \<noteq> [] \<and> (\<forall>c \<in> set v. is_dec c) \<and> digits_val 10 v \<ge> 1 \<and> h \<noteq> ''notfrozen''"
  then have v: "v \<noteq> []" "\<forall>c \<in> set v. is_dec c" "py_strip (yaml_str mv) = v" "digits_val 10 v \<ge> 1" "h \<noteq> ''notfrozen''"
    by blast+
  then have "py_isdigit v" by (simp add: py_isdigit_def)
  then show "resolve_emit_version ''module-local'' (Some mv) gv h name = Inr v"
    using v isdigit_int [of v] by (simp add: resolve_emit_version_def Let_def)
qed

theorem emitted_version_witness:
  "resolve_emit_version ''module-local'' (Some (YStr '' 12 '')) ''1'' ''abc'' ''hal'' = Inr ''12''"
proof -
  have "''12'' = py_strip (yaml_str (YStr '' 12 ''))" "''12'' \<noteq> []" "\<forall>c \<in> set ''12''. is_dec c" "digits_val 10 ''12'' \<ge> 1"
    "''abc'' \<noteq> ''notfrozen''" by code_simp+
  then show ?thesis unfolding emitted_version by blast
qed

end
