(* ===== verification/Release_Props.thy ===== *)
theory Release_Props
  imports Gen_Progress Lifecycle_Props
begin

text \<open>
  Properties that promise a result: the import resolution, an update and a freeze return when the
  compiler accepts what it is given (\<open>aidl_accepts\<close>, \<open>aidl_passes\<close>), the frozen versions are intact
  and the imports can be resolved, and what they leave is a complete new version; source generation
  gets to the compiler.
\<close>

section \<open>Import resolution in every mode\<close>

text \<open>
  C7: resolving the imports of any version, in any of the modes, returns when every node that it
  visits can be visited and none leads back to itself; a recursion limit above the number of
  nodes is enough. The dependencies are exactly the interfaces of the nodes, each once, at the
  highest version at which it is reached and with the directories of this version.
\<close>

theorem dependencies_listed:
  assumes "aidl_accepts t" "w_rec w = 0" "next_version i = Inr nv" "version \<noteq> []"
    and "imports_of (dep_mode nv version is_freeze) 1 i version = Inr imps"
    and "resolvable d (w_fs w) limit (dep_mode nv version is_freeze) imps"
  shows "\<exists>D w'. get_dependencies t limit i d version is_freeze w = (Inr (list_dependencies D), w') \<and> w_rec w' = 0 \<and>
    represents d D (needed d (dep_mode nv version is_freeze) imps)"
  using get_dependencies_listed [OF assms] by blast

text \<open>An interface that was frozen with version 1 of one import and version 2 of it through another.\<close>

definition mix_iface :: "string \<Rightarrow> (string \<times> string list) list \<Rightarrow> AidlInterface" where
  "mix_iface n info = (hal_iface n [] [])\<lparr>versions := map (\<lambda>k. str_of_nat (k + 1)) [0..<length info], versions_with_info := info\<rparr>"

definition mix_ifaces :: "AidlInterface dict" where
  "mix_ifaces = [(''hal'', mix_iface ''hal'' [(''1'', [''base-v1'', ''a-v1''])]), (''a'', mix_iface ''a'' [(''1'', [''base-v2''])]),
     (''base'', mix_iface ''base'' [(''1'', []), (''2'', [])])]"

definition mix_world :: world where
  "mix_world = \<lparr>w_fs = map (\<lambda>p. (''/w/stable/aidl/'' @ p, FDir)) [''base/1'', ''base/2'', ''a/1''], w_rec = 0\<rparr>"

lemma mix_imports:
  "imports_of ''frozen'' 1 (mix_iface ''hal'' [(''1'', [''base-v1'', ''a-v1''])]) ''1'' = Inr [(''base'', ''1''), (''a'', ''1'')]"
  "imports_of ''frozen'' 2 (mix_iface ''a'' [(''1'', [''base-v2''])]) ''1'' = Inr [(''base'', ''2'')]"
  "imports_of ''frozen'' 2 (mix_iface ''base'' [(''1'', []), (''2'', [])]) ''1'' = Inr []"
  "imports_of ''frozen'' 2 (mix_iface ''base'' [(''1'', []), (''2'', [])]) ''2'' = Inr []"
  by code_simp+

lemma import_nodes_frozen: "import_nodes ''frozen'' d imps = {(m, u). (m, u) \<in> set imps \<and> map_of d m \<noteq> None}"
  by (auto simp: import_nodes_def import_version_def)

lemma mix_edges:
  "visit_edges ''frozen'' mix_ifaces `` {(''a'', ''1'')} = {(''base'', ''2'')}"
  "visit_edges ''frozen'' mix_ifaces `` {(''base'', ''1'')} = {}" "visit_edges ''frozen'' mix_ifaces `` {(''base'', ''2'')} = {}"
proof -
  have d: "map_of mix_ifaces ''a'' = Some (mix_iface ''a'' [(''1'', [''base-v2''])])"
    "map_of mix_ifaces ''base'' = Some (mix_iface ''base'' [(''1'', []), (''2'', [])])" by (simp_all add: mix_ifaces_def)
  show "visit_edges ''frozen'' mix_ifaces `` {(''a'', ''1'')} = {(''base'', ''2'')}"
    unfolding visit_edges_Image [OF d(1) mix_imports(2)] import_nodes_frozen by (auto simp: d)
  show "visit_edges ''frozen'' mix_ifaces `` {(''base'', ''1'')} = {}" "visit_edges ''frozen'' mix_ifaces `` {(''base'', ''2'')} = {}"
    unfolding visit_edges_Image [OF d(2) mix_imports(3)] visit_edges_Image [OF d(2) mix_imports(4)] by (simp_all add: import_nodes_def)
qed

lemma mix_needed:
  "needed mix_ifaces ''frozen'' [(''base'', ''1''), (''a'', ''1'')] = {(''base'', ''1''), (''a'', ''1''), (''base'', ''2'')}"
  "x \<in> {(''base'', ''1''), (''a'', ''1''), (''base'', ''2'')} \<Longrightarrow> (x, x) \<notin> (visit_edges ''frozen'' mix_ifaces)\<^sup>+"
proof -
  let ?E = "visit_edges ''frozen'' mix_ifaces" and ?S = "{(''base'', ''1''), (''a'', ''1''), (''base'', ''2'')}"
  let ?N = "needed mix_ifaces ''frozen'' [(''base'', ''1''), (''a'', ''1'')]"
  have start: "import_nodes ''frozen'' mix_ifaces [(''base'', ''1''), (''a'', ''1'')] = {(''base'', ''1''), (''a'', ''1'')}"
    by (auto simp: import_nodes_frozen mix_ifaces_def)
  have b: "?E\<^sup>* `` {(''base'', v)} = {(''base'', v)}" if "v \<in> {''1'', ''2''}" for v
    using that mix_edges(2,3) rtrancl_Image_unfold [of ?E "(''base'', v)"] by auto
  have a: "?E\<^sup>* `` {(''a'', ''1'')} = {(''a'', ''1''), (''base'', ''2'')}"
    using rtrancl_Image_unfold [of ?E "(''a'', ''1'')"] mix_edges(1) b [of "''2''"] by simp
  have "?N = ?E\<^sup>* `` {(''base'', ''1'')} \<union> ?E\<^sup>* `` {(''a'', ''1'')}" unfolding needed_def start by auto
  then show "?N = ?S" using a b by auto
  assume x: "x \<in> ?S"
  show "(x, x) \<notin> ?E\<^sup>+"
  proof
    assume "(x, x) \<in> ?E\<^sup>+"
    then obtain y where y: "y \<in> ?E `` {x}" "(y, x) \<in> ?E\<^sup>*" by (auto dest: tranclD)
    have "x \<noteq> (''base'', ''1'')" "x \<noteq> (''base'', ''2'')" using y(1) mix_edges(2,3) by (metis empty_iff)+
    then have x': "x = (''a'', ''1'')" using x by simp
    then have "y = (''base'', ''2'')" using y(1) mix_edges(1) by (metis singletonD)
    then have "x \<in> ?E\<^sup>* `` {(''base'', ''2'')}" using y(2) by simp
    then show False unfolding b [of "''2''", simplified] x' by simp
  qed
qed

theorem dependencies_listed_witness:
  "\<exists>D w' x. get_dependencies yes_tools 5 (mix_iface ''hal'' [(''1'', [''base-v1'', ''a-v1''])]) mix_ifaces ''1'' False mix_world =
     (Inr (list_dependencies D), w') \<and> set (dict_keys D) = {''base'', ''a''} \<and> map_of D ''base'' = Some x \<and> di_version x = ''2''"
proof -
  let ?i = "mix_iface ''hal'' [(''1'', [''base-v1'', ''a-v1''])]"
  let ?N = "{(''base'', ''1''), (''a'', ''1''), (''base'', ''2'')}"
  have nv: "next_version ?i = Inr ''2''" and m: "dep_mode ''2'' ''1'' False = ''frozen''" by code_simp+
  have ok: "\<forall>x \<in> ?N. node_ok ''frozen'' mix_ifaces (w_fs mix_world) x" by code_simp
  have f: "imports_known ''frozen'' mix_ifaces [(''base'', ''1''), (''a'', ''1'')]" by code_simp
  have "resolvable mix_ifaces (w_fs mix_world) 5 ''frozen'' [(''base'', ''1''), (''a'', ''1'')]"
    unfolding resolvable_def mix_needed(1) using f ok mix_needed(2) by (auto simp: card_insert_if)
  then obtain D w' where D: "get_dependencies yes_tools 5 ?i mix_ifaces ''1'' False mix_world = (Inr (list_dependencies D), w')"
    "represents mix_ifaces D ?N"
    using dependencies_listed [OF two_ifaces_facts(1) _ nv, of mix_world "''1''" False] m mix_imports(1) mix_needed(1)
    by (force simp: mix_world_def)
  have k: "set (dict_keys D) = {''base'', ''a''}" using D(2) by (auto simp: represents_def)
  then obtain x where x: "map_of D ''base'' = Some x" using in_keys_iff [of "''base''" D] by auto
  have v: "py_int ''1'' = Inr 1" "py_int ''2'' = Inr 2" by code_simp+
  have "(''base'', di_version x) \<in> ?N" "version_number ''2'' \<le> version_number (di_version x)" using D(2) x by (auto simp: represents_def)
  then have "di_version x = ''2''" using v by auto
  then show ?thesis using D(1) k x by blast
qed

section \<open>Pinned imports\<close>

text \<open>
  C24: a pin of the version under development is honoured by the build order and not by the import
  resolution: the library of the version is linked against the pinned library of the import,
  while its sources are checked and generated against the version of the import that is under
  development.
\<close>

theorem pin_linked_not_resolved:
  assumes "aidl_accepts t" "wf_interfaces d" "map_of d n = Some i" "current_dirs d (w_fs w)" "w_rec w = 0"
    and "acyclic_from d n" "length d < limit"
    and "m \<in> set (iface_imports i)" "map_of d m = Some j" "import_pin i m = v" "v \<noteq> IMPORT_VERSION_UNPINNED"
  shows "\<exists>libs D w' x. resolve_lib_deps_for_current i = Inr libs \<and> lib_target m v \<in> set libs \<and>
    get_dependencies t limit i d (next_of i) False w = (Inr (list_dependencies D), w') \<and>
    map_of D m = Some x \<and> di_version x = next_of j"
proof -
  note nv = wf_interfacesD(2,3) [OF assms(2,3)]
  obtain libs where libs: "resolve_lib_deps_for_current i = Inr libs"
    using nv by (simp add: resolve_lib_deps_for_current_def get_imports_next)
  then have "lib_target m v \<in> set libs" using resolve_current_pins [OF nv assms(8)] assms(10,11) by auto
  moreover obtain D w' where D: "get_dependencies t limit i d (next_of i) False w = (Inr (list_dependencies D), w')"
    "ordered_deps d D" "set (dict_keys D) = (import_edges d)\<^sup>+ `` {n}"
    using get_dependencies_next [OF assms(1-7)] by blast
  moreover have "m \<in> set (dict_keys D)" unfolding D(3) using assms(3,8) by (auto simp: import_edges_def)
  then obtain x where "map_of D m = Some x" unfolding in_keys_iff by blast
  moreover have "di_version x = next_of j" using ordered_deps_version [OF D(2) \<open>map_of D m = Some x\<close>] assms(9) by simp
  ultimately show ?thesis using libs by blast
qed

definition pinned_ifaces :: "AidlInterface dict" where
  "pinned_ifaces = [(''hal'', hal_iface ''hal'' [''base''] [Some ''1'']),
     (''base'', (hal_iface ''base'' [] [])\<lparr>versions := [''1''], versions_with_info := [(''1'', [])]\<rparr>)]"

theorem pin_linked_not_resolved_witness:
  "\<exists>libs D w' x. resolve_lib_deps_for_current (hal_iface ''hal'' [''base''] [Some ''1'']) = Inr libs \<and> ''base-v1-cpp'' \<in> set libs \<and>
    get_dependencies yes_tools 3 (hal_iface ''hal'' [''base''] [Some ''1'']) pinned_ifaces ''1'' False two_world = (Inr (list_dependencies D), w') \<and>
    map_of D ''base'' = Some x \<and> di_version x = ''2''"
proof -
  let ?i = "hal_iface ''hal'' [''base''] [Some ''1'']"
    and ?j = "(hal_iface ''base'' [] [])\<lparr>versions := [''1''], versions_with_info := [(''1'', [])]\<rparr>"
  have f: "wf_interfaces pinned_ifaces" "current_dirs pinned_ifaces (w_fs two_world)" "import_pin ?i ''base'' = ''1''"
    "''1'' \<noteq> IMPORT_VERSION_UNPINNED" "lib_target ''base'' ''1'' = ''base-v1-cpp''" "next_of ?i = ''1''" "next_of ?j = ''2''"
    "length pinned_ifaces < 3" "''base'' \<in> set (iface_imports ?i)" by code_simp+
  have m: "map_of pinned_ifaces ''hal'' = Some ?i" "map_of pinned_ifaces ''base'' = Some ?j" by (simp_all add: pinned_ifaces_def)
  have "import_edges pinned_ifaces = {(''hal'', ''base'')}"
    by (auto simp: import_edges_def pinned_ifaces_def hal_iface_def split: if_splits)
  then have a: "acyclic_from pinned_ifaces ''hal''"
    by (intro acyclic_loop_free) (simp add: acyclic_insert, simp add: acyclic_def)
  from pin_linked_not_resolved [OF two_ifaces_facts(1) f(1) m(1) f(2) two_ifaces_facts(4) a f(8,9) m(2) f(3,4)]
  show ?thesis unfolding f(5-7) .
qed

text \<open>
  In a freeze the directory of a pinned import is the pinned one, but its own imports are those of
  its latest version: here version 1 of \<^verbatim>\<open>a\<close>, which was frozen with version 1 of \<^verbatim>\<open>base\<close>, is listed with
  version 2 of it.
\<close>

definition stale_ifaces :: "AidlInterface dict" where
  "stale_ifaces = [(''hal'', hal_iface ''hal'' [''a''] [Some ''1'']), (''a'', mix_iface ''a'' [(''1'', [''base-v1'']), (''2'', [''base-v2''])]),
     (''base'', mix_iface ''base'' [(''1'', []), (''2'', [])])]"

lemma pinned_import_latest_imports:
  "map_sum id (snd \<circ> snd) (fst (get_dependencies yes_tools 9 (hal_iface ''hal'' [''a''] [Some ''1'']) stale_ifaces ''1'' True mix_world)) =
     Inr [''base-v2'', ''a-v1'']"
  "get_imports (mix_iface ''a'' [(''1'', [''base-v1'']), (''2'', [''base-v2''])]) ''1'' = Inr [(''base'', ''1'')]"
  by code_simp+

section \<open>Updates and freezes that get through\<close>

text \<open>
  C13: an update returns when the frozen versions are intact, each version is compatible with the
  one before and, once versions are frozen, the sources with the stored version, and the imports
  of all of them can be resolved. It leaves the frozen versions and the stored version intact,
  so that the next operation finds them so.
\<close>

theorem update_succeeds:
  assumes "tools_fit t i" "map_of d n = Some i" "layout i \<noteq> ''module-local''"
    and "wf_interface i" "\<not> unstable i" "wf_dict (w_fs w)" "w_rec w = 0"
    and "frozen_sound t (w_fs w) i" "chain_ok t limit d (w_fs w) i" "sources_pass t limit d (w_fs w) i"
  shows "\<exists>w'. handle_update_api t limit n d w = (Inr (), w') \<and> frozen_sound t (w_fs w') i \<and> current_sound t (w_fs w') i"
  using update_returns [OF assms] by blast

text \<open>
  C3: a release gets through. Under the conditions of an update, when the imports can also be
  resolved at their latest versions and the compiler finds the stored version different from the
  latest one, the update returns, the freeze after it returns, and every AIDL file of the module
  is then in the directory of the new version with its content, under a hash that is right.
\<close>

theorem release_cycle:
  assumes "tools_fit t i" "map_of d n = Some i" "layout i \<noteq> ''module-local''"
    and "wf_interface i" "\<not> unstable i" "wf_dict (w_fs w)" "w_rec w = 0"
    and "frozen_sound t (w_fs w) i" "chain_ok t limit d (w_fs w) i" "sources_pass t limit d (w_fs w) i"
    and "plain_dir (interface_root i)" "aidl_frame t (interface_root i)" "outputs_outside i (interface_root i)"
    and "resolves_version d (w_fs w) limit i (next_of i) True" "frozen_imports d i = Inr imps"
    and "versions i \<noteq> [] \<Longrightarrow> aidl_differs t (get_versioned_dir i (last (versions i))) (current_dir i)"
    and "aidl_frame t (has_dev_path i)" "defs_outside i" "fresh_dir (w_fs w) (get_versioned_dir i (next_of i))"
  shows "\<exists>w1 w2. handle_update_api t limit n d w = (Inr (), w1) \<and> handle_freeze_api t limit n d w1 = (Inr (), w2) \<and>
    version_intact t (w_fs w2) (next_of i) (get_versioned_dir i (next_of i)) \<and>
    (\<forall>p m. under (interface_root i) p \<and> py_endswith p ''.aidl'' \<and> map_of (w_fs w) p = Some m \<longrightarrow>
      map_of (w_fs w2) (move_path (interface_root i) (get_versioned_dir i (next_of i)) p) = Some m)"
proof -
  let ?T = "get_versioned_dir i (next_of i)"
  have f: "sha1_word t" "plain_dir (interface_root_stable i)" "aidl_frame t (interface_root_stable i)"
    "outputs_outside i (interface_root_stable i)" using assms(1) by (simp_all add: tools_fit_def)
  obtain w1 where up: "handle_update_api t limit n d w = (Inr (), w1)"
    and w1: "w_rec w1 = 0" "grows (w_fs w) (w_fs w1)" "wf_dict (w_fs w1)" "frozen_sound t (w_fs w1) i" "current_sound t (w_fs w1) i"
    and same: "\<forall>v. plain_name v \<and> v \<noteq> CURRENT_VERSION \<longrightarrow> same_below (get_versioned_dir i v) (w_fs w) (w_fs w1)"
    using update_returns [OF assms(1-10)] by blast
  have fresh: "fresh_dir (w_fs w1) ?T"
    using same str_of_nat_plain str_of_nat_current by (intro fresh_dir_same [OF assms(19)]) blast
  obtain w2 where fr: "handle_freeze_api t limit n d w1 = (Inr (), w2)" and dev: "cat_text (w_fs w2) (has_dev_path i) = ''1''"
    using freeze_returns [OF assms(1,2,4,5) w1(3,1,4,5) chain_ok_grows [OF assms(9) w1(2)]
        resolves_version_grows [OF assms(14) w1(2)] assms(15-18)] by blast
  note r = freeze_result(1,2) [OF assms(2) fr assms(4,5) w1(3) f fresh assms(18) dev]
  have h: "?T @ ''/.hash'' = path_join ?T ''.hash''"
    using path_join_plain [of ?T "''.hash''"] f(2) str_of_nat_plain
    by (simp add: get_versioned_dir_def plain_name_def not_slash_def)
  have "version_intact t (w_fs w2) (next_of i) ?T" using r(1) unfolding h by (auto simp: version_intact_def)
  moreover have "map_of (w_fs w2) (move_path (interface_root i) ?T p) = Some m"
    if p: "under (interface_root i) p" "py_endswith p ''.aidl''" "map_of (w_fs w) p = Some m" for p m
  proof -
    let ?q = "move_path (interface_root i) (current_dir i) p"
    have "map_of (w_fs w1) ?q = Some m" by (rule update_stores_sources(1) [OF assms(2,3) up assms(6) f assms(11-13) p])
    then show ?thesis
      using r(2) [OF under_move [OF p(1)]] source_not_special [OF p(1,2) f(2)] by (simp add: move_path_twice [OF p(1)])
  qed
  ultimately show ?thesis using up fr by blast
qed

text \<open>The module with one frozen version, whose sources were edited.\<close>

lemma resolvable_Nil: "0 < limit \<Longrightarrow> resolvable d fs limit mode []"
  by (simp add: resolvable_def needed_def import_nodes_def imports_known_def)

lemma edited_facts:
  "tools_fit dev_tools life_iface" "wf_dict (w_fs edited_world)" "w_rec edited_world = 0"
  "frozen_sound dev_tools (w_fs edited_world) life_iface"
  "chain_ok dev_tools 5 life_ifaces (w_fs edited_world) life_iface"
  "sources_pass dev_tools 5 life_ifaces (w_fs edited_world) life_iface"
  "resolves_version life_ifaces (w_fs edited_world) 5 life_iface (next_of life_iface) True"
  "frozen_imports life_ifaces life_iface = Inr []" "aidl_differs dev_tools old new"
  "fresh_dir (w_fs edited_world) (get_versioned_dir life_iface (next_of life_iface))"
proof -
  have acc: "aidl_accepts dev_tools" and pass: "\<And>old new. aidl_passes dev_tools old new"
    by (simp_all add: aidl_accepts_def aidl_passes_def grows_def dev_tools_def tools_with_def)
  show "tools_fit dev_tools life_iface" using acc sample_tools(1,2) life_facts(4,6) by (simp add: tools_fit_def)
  show "wf_dict (w_fs edited_world)" "w_rec edited_world = 0" "frozen_imports life_ifaces life_iface = Inr []" by code_simp+
  show "frozen_sound dev_tools (w_fs edited_world) life_iface" by code_simp
  have "imports_of (dep_mode ''2'' ''2'' True) 1 life_iface ''2'' = Inr []" "imports_of (dep_mode ''2'' ''2'' False) 1 life_iface ''2'' = Inr []"
    by code_simp+
  then have "imports_of (dep_mode ''2'' ''2'' fz) 1 life_iface ''2'' = Inr []" for fz by (cases fz) simp_all
  then have res: "resolves_version life_ifaces fs 5 life_iface ''2'' fz" for fs fz
    using life_paths(9) by (simp add: resolves_version_def resolvable_Nil)
  show "chain_ok dev_tools 5 life_ifaces (w_fs edited_world) life_iface"
    using res pass life_facts(10) by (simp add: chain_ok_def life_paths(4))
  show "sources_pass dev_tools 5 life_ifaces (w_fs edited_world) life_iface"
    "resolves_version life_ifaces (w_fs edited_world) 5 life_iface (next_of life_iface) True"
    using res pass unfolding life_facts(10) by (simp_all add: sources_pass_def life_facts(10))
  show "aidl_differs dev_tools old new" by (simp add: aidl_differs_def dev_tools_def tools_with_def)
  show "fresh_dir (w_fs edited_world) (get_versioned_dir life_iface (next_of life_iface))"
    by (rule fresh_dirI) (unfold life_facts(10), code_simp)
qed

theorem update_succeeds_witness:
  "\<exists>w'. handle_update_api dev_tools 5 ''hal'' life_ifaces edited_world = (Inr (), w') \<and>
    frozen_sound dev_tools (w_fs w') life_iface \<and> current_sound dev_tools (w_fs w') life_iface"
  by (rule update_succeeds [OF edited_facts(1) life_facts(3) life_paths(7) life_facts(1) life_paths(6) edited_facts(2-6)])

theorem release_cycle_witness:
  "\<exists>w1 w2. handle_update_api dev_tools 5 ''hal'' life_ifaces edited_world = (Inr (), w1) \<and>
    handle_freeze_api dev_tools 5 ''hal'' life_ifaces w1 = (Inr (), w2) \<and>
    map_of (w_fs w2) ''/w/stable/aidl/hal/2/IHal.aidl'' = Some (FFile ''v3'')"
proof -
  have p: "under (interface_root life_iface) ''/w/hal/current/IHal.aidl''" "py_endswith ''/w/hal/current/IHal.aidl'' ''.aidl''"
    "map_of (w_fs edited_world) ''/w/hal/current/IHal.aidl'' = Some (FFile ''v3'')"
    "move_path (interface_root life_iface) (get_versioned_dir life_iface ''2'') ''/w/hal/current/IHal.aidl'' =
      ''/w/stable/aidl/hal/2/IHal.aidl''" by code_simp+
  obtain w1 w2 where r: "handle_update_api dev_tools 5 ''hal'' life_ifaces edited_world = (Inr (), w1)"
    "handle_freeze_api dev_tools 5 ''hal'' life_ifaces w1 = (Inr (), w2)"
    "\<forall>p m. under (interface_root life_iface) p \<and> py_endswith p ''.aidl'' \<and> map_of (w_fs edited_world) p = Some m \<longrightarrow>
      map_of (w_fs w2) (move_path (interface_root life_iface) (get_versioned_dir life_iface ''2'') p) = Some m"
    using release_cycle [OF edited_facts(1) life_facts(3) life_paths(7) life_facts(1) life_paths(6) edited_facts(2-6)
        life_facts(5) sample_tools(1) life_facts(7) edited_facts(7-9) sample_tools(1) life_facts(9) edited_facts(10)]
    unfolding life_facts(10) by blast
  have "map_of (w_fs w2) ''/w/stable/aidl/hal/2/IHal.aidl'' = Some (FFile ''v3'')"
    using r(3) [rule_format, OF conjI [OF p(1) conjI [OF p(2,3)]]] unfolding p(4) .
  then show ?thesis using r(1,2) by blast
qed

section \<open>Source generation\<close>



text \<open>
  C30: source generation for a requested version that is an integer out of the range from 1 up to the
  next version is refused with an \<^verbatim>\<open>AssertionError\<close>, and for any requested integer in the module-local
  layout it exits with status 1: after the checks, before the compiler is run on the version, and
  with the stable directory as it was.
\<close>

theorem requested_version_bounds:
  assumes "tools_fit t i" "map_of d n = Some i"
    and "wf_interface i" "\<not> unstable i" "wf_dict (w_fs w)" "w_rec w = 0"
    and "frozen_sound t (w_fs w) i" "current_sound t (w_fs w) i" "chain_ok t limit d (w_fs w) i"
    and "py_int v = Inr k" "layout i = ''module-local'' \<or> k < 1 \<or> k > int (length (versions i)) + 1"
  shows "\<exists>w'. handle_source_gen t limit n d gen_dir (Some v) w =
      (Inl (if layout i = ''module-local'' then SystemExit 1 else AssertionError v), w') \<and>
    w_rec w' = 0 \<and> same_below (interface_root_stable i) (w_fs w) (w_fs w')"
proof -
  have "check_gen_version i (next_of i) v = Inl (if layout i = ''module-local'' then SystemExit 1 else AssertionError v)"
    using assms(10,11) py_int_str_of_nat [of "Suc (length (versions i))"] by (auto simp: check_gen_version_def)
  from source_gen_refused [OF assms(1-9) this, of gen_dir] show ?thesis unfolding steady_def by blast
qed

lemma life_sound:
  "tools_fit equal_tools life_iface" "frozen_sound equal_tools (w_fs life_world) life_iface"
  "current_sound equal_tools (w_fs life_world) life_iface" "chain_ok equal_tools 5 life_ifaces (w_fs life_world) life_iface"
  "w_rec life_world = 0" "t_aidl equal_tools cmd fs = (0, fs)" "aidl_accepts equal_tools"
proof -
  have run: "t_aidl equal_tools cmd fs = (0, fs)" for cmd fs by (simp add: equal_tools_def tools_with_def)
  show acc: "aidl_accepts equal_tools" by (simp add: aidl_accepts_def run)
  have pass: "\<And>old new. aidl_passes equal_tools old new" by (simp add: aidl_passes_def run)
  show "tools_fit equal_tools life_iface"
    using acc tools_with_facts life_facts(4,6) by (simp add: tools_fit_def equal_tools_def)
  have i: "imports_of (dep_mode ''2'' ''2'' False) 1 life_iface ''2'' = Inr []" by code_simp
  show "chain_ok equal_tools 5 life_ifaces (w_fs life_world) life_iface"
    using i pass life_facts(10) life_paths(9) by (simp add: chain_ok_def life_paths(4) resolves_version_def resolvable_Nil)
  show "t_aidl equal_tools cmd fs = (0, fs)" by (rule run)
qed code_simp+

theorem requested_version_bounds_witness:
  "\<exists>w'. handle_source_gen equal_tools 5 ''hal'' life_ifaces None (Some ''3'') life_world = (Inl (AssertionError ''3''), w')"
proof -
  have "py_int ''3'' = Inr 3" by code_simp
  from requested_version_bounds [OF life_sound(1) life_facts(3) life_facts(1) life_paths(6) life_facts(2) life_sound(5) life_sound(2-4) this, of None]
  show ?thesis using life_paths(4,7) by auto
qed

section \<open>An import that was never frozen\<close>

text \<open>What a freeze records for an import that was never frozen.\<close>

lemma frozen_imports_zero:
  assumes "frozen_imports ds i = Inr imps" "m \<in> set (iface_imports i)" "map_of ds m = Some j" "latest_version j = v"
    and names: "\<forall>k \<in> set (iface_imports i). \<forall>jk. map_of ds k = Some jk \<longrightarrow> base_name jk = k \<and> \<not> py_contains ''-v'' k"
  shows "map_of (dict_of (map split_versioned imps)) m = Some v"
proof -
  have r: "rmap (\<lambda>k. rbind (dict_get ds k) (\<lambda>j. Inr (versioned_name j (latest_version j)))) (iface_imports i) = Inr imps"
    using assms(1) by (simp add: frozen_imports_def)
  let ?g = "\<lambda>k. versioned_name (the (map_of ds k)) (latest_version (the (map_of ds k)))"
  have known: "map_of ds k \<noteq> None" if "k \<in> set (iface_imports i)" for k
    using rmap_projr [OF r] that by (auto simp: dict_get_def split: option.splits)
  have "imps = map (\<lambda>k. projr (rbind (dict_get ds k) (\<lambda>j. Inr (versioned_name j (latest_version j))))) (iface_imports i)"
    using rmap_projr [OF r] by blast
  also have "\<dots> = map ?g (iface_imports i)" using known by (intro map_cong refl) (fastforce simp: dict_get_def)
  finally have "map split_versioned imps = map (\<lambda>k. split_versioned (?g k)) (iface_imports i)" by simp
  also have "\<dots> = map (\<lambda>k. (k, latest_version (the (map_of ds k)))) (iface_imports i)"
    using known names split_versioned_name by (intro map_cong refl) fastforce
  finally have e: "map split_versioned imps = map (\<lambda>k. (k, latest_version (the (map_of ds k)))) (iface_imports i)" .
  show ?thesis unfolding map_of_dict_of e rev_map using assms(2-4) by (simp add: map_of_map_restrict)
qed

text \<open>
  C37: an interface whose import was never frozen can be frozen, but the version is then of no use:
  the freeze records version 0 of the import, and resolving the imports of the frozen version always
  ends with an error, whatever the compiler, the recursion limit and the files, and also when the
  import has been frozen since, as its versions count from 1.
\<close>

theorem never_frozen_import:
  assumes "map_of ds n = Some i" "handle_freeze_api t limit n ds w = (Inr (), w')"
    and "\<not> unstable i" "wf_dict (w_fs w)" "sha1_word t"
    and "plain_dir (interface_root_stable i)" "aidl_frame t (interface_root_stable i)"
      "outputs_outside i (interface_root_stable i)"
    and "plain_dir (interface_root i)" "aidl_frame t (interface_root i)" "outputs_outside i (interface_root i)"
    and "apart i" "\<not> py_startswith (interface_root i @ ''/interface'') ''-''"
    and "cat_text (w_fs w') (has_dev_path i) = ''1''"
    and "frozen_imports ds i = Inr imps" "module_word (base_name i)" "list_all quotable imps"
    and "definition_file (w_fs w) (interface_root i @ ''/interface'') = Some f" "map_of (w_fs w) f = Some (FDef data)"
      "df_name data = base_name i" "df_versions_with_info data \<noteq> Null"
    and "load_interface realpath roots dir out data = Inr i" "map_of (versions_with_info i) (next_of i) = None"
    and "m \<in> set (iface_imports i)" "map_of ds m = Some j" "\<not> unstable j" "versions j = []"
    and "\<forall>k \<in> set (iface_imports i). \<forall>jk. map_of ds k = Some jk \<longrightarrow> base_name jk = k \<and> \<not> py_contains ''-v'' k"
  shows "\<exists>data' i' recorded. map_of (w_fs w') f = Some (FDef data') \<and> load_interface realpath roots dir out data' = Inr i' \<and>
    get_imports i' (next_of i) = Inr recorded \<and> map_of recorded m = Some ''0'' \<and>
    (\<forall>t2 limit2 ds2 w2 j2. map_of ds2 m = Some j2 \<and> wf_interface j2 \<and> \<not> unstable j2 \<and> w_rec w2 = 0 \<and>
      map_of (versions_with_info j2) ''0'' = None \<longrightarrow> isl (fst (get_dependencies t2 limit2 i' ds2 (next_of i) False w2)))"
proof -
  let ?rec = "dict_of (map split_versioned imps)"
  obtain data' i' where i': "map_of (w_fs w') f = Some (FDef data')" "load_interface realpath roots dir out data' = Inr i'"
    "get_imports i' (next_of i) = Inr ?rec" "next_version i' = Inr (str_of_nat (length (versions i) + 2))"
    using freeze_reloaded [OF assms(1-23)] by blast
  have zero: "map_of ?rec m = Some ''0''"
    by (rule frozen_imports_zero [OF assms(15,24,25) _ assms(28)]) (simp add: latest_version_def assms(26,27))
  have mode: "dep_mode (str_of_nat (length (versions i) + 2)) (next_of i) False = ''frozen''" by (simp add: dep_mode_def)
  have "isl (fst (get_dependencies t2 limit2 i' ds2 (next_of i) False w2))"
    if ds2: "map_of ds2 m = Some j2" "wf_interface j2" "\<not> unstable j2" "w_rec w2 = 0" "map_of (versions_with_info j2) ''0'' = None"
    for t2 limit2 ds2 w2 j2
  proof -
    have im: "imports_of ''frozen'' 1 i' (next_of i) = Inr ?rec" using i'(3) by (simp add: imports_of_def)
    have node: "(m, ''0'') \<in> import_nodes ''frozen'' ds2 ?rec"
      using zero ds2(1) by (auto simp: import_nodes_def import_version_def dest: map_of_SomeD)
    have bad: "isl (imports_of ''frozen'' 2 j2 ''0'')"
      using next_version_wf [OF ds2(2,3)] ds2(5) str_of_nat_inject [of "Suc (length (versions j2))" 0]
      by (simp add: imports_of_def get_imports_def del: str_of_nat_inject)
    show ?thesis
      by (rule unknown_import_fails [OF i'(4) ds2(4), where imps = ?rec and a = m and va = "''0''" and m = m and v = "''0''" and j = j2])
        (simp_all only: mode im node bad ds2(1) rtrancl.rtrancl_refl)
  qed
  then show ?thesis using i' zero by blast
qed

text \<open>A module that was never frozen either, with an import that was never frozen.\<close>

definition young_def :: interface_def where
  "young_def = life_def\<lparr>df_imports := Some [YStr ''base''], df_versions_with_info := Absent\<rparr>"

definition young_iface :: AidlInterface where
  "young_iface = life_iface\<lparr>iface_imports := [''base''], import_versions := [(''base'', None)], versions := [], versions_with_info := []\<rparr>"

definition young_ifaces :: "AidlInterface dict" where
  "young_ifaces = [(''hal'', young_iface), (''base'', hal_iface ''base'' [] [])]"

definition young_world :: world where
  "young_world = \<lparr>w_fs = [(''/'', FDir), (''/w'', FDir), (''/w/hal'', FDir), (''/w/hal/current'', FDir),
     (''/w/hal/current/interface.yaml'', FDef young_def), (''/w/hal/current/IHal.aidl'', FFile ''v1''),
     (''/w/stable'', FDir), (''/w/stable/aidl'', FDir), (''/w/stable/aidl/base'', FDir), (''/w/stable/aidl/base/current'', FDir),
     (''/w/stable/aidl/hal'', FDir), (''/w/stable/aidl/hal/current'', FDir),
     (''/w/stable/aidl/hal/current/IHal.aidl'', FFile ''v1'')], w_rec = 0\<rparr>"

lemma young_loaded: "load_interface id [''/w''] ''/w/hal/current'' ''/w/out'' young_def = Inr young_iface"
  by code_simp

lemma young_paths:
  "interface_root_stable young_iface = ''/w/stable/aidl/hal''" "interface_root young_iface = ''/w/hal/current''"
  "interface_api_dir_out young_iface = ''/w/out/hal/current/hal-api''" "versions young_iface = []"
  "base_name young_iface = ''hal''" "\<not> unstable young_iface" "next_version young_iface = Inr ''1''"
  "iface_imports young_iface = [''base'']" "map_of (versions_with_info young_iface) (next_of young_iface) = None"
  by code_simp+

lemma young_facts:
  "wf_interface young_iface" "wf_dict (w_fs young_world)" "map_of young_ifaces ''hal'' = Some young_iface"
  "plain_dir (interface_root_stable young_iface)" "plain_dir (interface_root young_iface)"
  "outputs_outside young_iface (interface_root_stable young_iface)" "outputs_outside young_iface (interface_root young_iface)"
  "apart young_iface" "defs_outside young_iface" "w_rec young_world = 0"
  "current_sound equal_tools (w_fs young_world) young_iface" "frozen_imports young_ifaces young_iface = Inr [''base-v0'']"
proof -
  show "wf_interface young_iface" by (rule load_interface_wf [OF young_loaded])
  show "map_of young_ifaces ''hal'' = Some young_iface" by (simp add: young_ifaces_def)
  show "plain_dir (interface_root_stable young_iface)" "plain_dir (interface_root young_iface)"
    unfolding young_paths by code_simp+
  have "plain_dir (interface_api_dir_out young_iface)" unfolding young_paths by code_simp
  then show "outputs_outside young_iface (interface_root_stable young_iface)" "outputs_outside young_iface (interface_root young_iface)"
    by (intro outputs_outsideI; simp add: young_paths; code_simp)+
  show "apart young_iface" unfolding apart_def young_paths by code_simp
  show "defs_outside young_iface" unfolding defs_outside_def has_dev_path_def young_paths by code_simp
qed code_simp+

lemma young_resolves: "resolves_version young_ifaces (w_fs young_world) 5 young_iface (next_of young_iface) True"
proof -
  let ?b = "hal_iface ''base'' [] []"
  have n: "next_of young_iface = ''1''" "dep_mode ''1'' ''1'' True = ''latest''" unfolding young_paths by code_simp+
  have im: "imports_of ''latest'' 1 young_iface ''1'' = Inr [(''base'', IMPORT_VERSION_UNPINNED)]" by code_simp
  have base: "map_of young_ifaces ''base'' = Some ?b" by (simp add: young_ifaces_def)
  have v: "import_version ''latest'' ?b IMPORT_VERSION_UNPINNED = Inr ''1''" "imports_of ''latest'' 2 ?b ''1'' = Inr []" by code_simp+
  have nodes: "import_nodes ''latest'' young_ifaces [(''base'', IMPORT_VERSION_UNPINNED)] = {(''base'', ''1'')}"
    using base v(1) by (auto simp: import_nodes_def)
  have stop: "((''base'', ''1''), x) \<notin> visit_edges ''latest'' young_ifaces" for x
    using base v(2) by (auto simp: visit_edges_def import_nodes_def)
  then have need: "needed young_ifaces ''latest'' [(''base'', IMPORT_VERSION_UNPINNED)] = {(''base'', ''1'')}"
    unfolding needed_def nodes by (auto elim: converse_rtranclE)
  have "((''base'', ''1''), (''base'', ''1'')) \<notin> (visit_edges ''latest'' young_ifaces)\<^sup>+"
    using stop by (auto elim: converse_tranclE)
  moreover have "node_ok ''latest'' young_ifaces (w_fs young_world) (''base'', ''1'')" by code_simp
  moreover have "imports_known ''latest'' young_ifaces [(''base'', IMPORT_VERSION_UNPINNED)]" by code_simp
  ultimately show ?thesis using im need by (simp add: resolves_version_def resolvable_def n young_paths(7))
qed

lemma young_freeze:
  "\<exists>w'. handle_freeze_api equal_tools 5 ''hal'' young_ifaces young_world = (Inr (), w') \<and>
    cat_text (w_fs w') (has_dev_path young_iface) = ''1''"
proof -
  have fit: "tools_fit equal_tools young_iface"
    using life_sound(7) tools_with_facts young_facts(4,6) by (simp add: tools_fit_def equal_tools_def)
  show ?thesis
    by (rule freeze_returns [OF fit young_facts(3,1) young_paths(6) young_facts(2,10) _ young_facts(11) _ young_resolves young_facts(12) _ _ young_facts(9)])
      (simp_all add: frozen_sound_def chain_ok_def young_paths(4) sample_tools)
qed

text \<open>The freeze of the module records version 0 of its import, and its version can never be resolved.\<close>

theorem never_frozen_import_witness:
  "\<exists>w' data' i' recorded. handle_freeze_api equal_tools 5 ''hal'' young_ifaces young_world = (Inr (), w') \<and>
    map_of (w_fs w') ''/w/hal/current/interface.yaml'' = Some (FDef data') \<and>
    load_interface id [''/w''] ''/w/hal/current'' ''/w/out'' data' = Inr i' \<and> get_imports i' ''1'' = Inr recorded \<and>
    map_of recorded ''base'' = Some ''0'' \<and> isl (fst (get_dependencies equal_tools 5 i' young_ifaces ''1'' False young_world))"
proof -
  obtain w' where run: "handle_freeze_api equal_tools 5 ''hal'' young_ifaces young_world = (Inr (), w')"
    and dev: "cat_text (w_fs w') (has_dev_path young_iface) = ''1''" using young_freeze by blast
  have d: "definition_file (w_fs young_world) (interface_root young_iface @ ''/interface'') = Some ''/w/hal/current/interface.yaml''"
    "map_of (w_fs young_world) ''/w/hal/current/interface.yaml'' = Some (FDef young_def)" by code_simp+
  have n: "next_of young_iface = ''1''" "module_word (base_name young_iface)" "list_all quotable [''base-v0'']"
    "\<not> py_startswith (interface_root young_iface @ ''/interface'') ''-''" "df_name young_def = base_name young_iface"
    "df_versions_with_info young_def \<noteq> Null" by code_simp+
  have b: "map_of young_ifaces ''base'' = Some (hal_iface ''base'' [] [])" "\<not> unstable (hal_iface ''base'' [] [])"
    "versions (hal_iface ''base'' [] []) = []" "wf_interface (hal_iface ''base'' [] [])"
    "map_of (versions_with_info (hal_iface ''base'' [] [])) ''0'' = None" "base_name (hal_iface ''base'' [] []) = ''base''"
    "\<not> py_contains ''-v'' ''base''" by code_simp+
  show ?thesis
    using never_frozen_import [OF young_facts(3) run young_paths(6) young_facts(2) sample_tools(4) young_facts(4) sample_tools(3)
        young_facts(6,5) sample_tools(3) young_facts(7,8) n(4) dev young_facts(12) n(2,3) d n(5,6) young_loaded young_paths(9) _ b(1-3)]
      run young_paths(8) b young_facts(10) unfolding n(1) by auto
qed

end
