(* ===== verification/Spec2Isabelle.thy ===== *)
theory Spec2Isabelle
  imports Cli_Props Release_Props
begin

text \<open>
  A verification library for the host tools of \<^verbatim>\<open>linux_binder_idl\<close>: the Python programs under
  \<^verbatim>\<open>src/host\<close> that version AIDL interfaces, order their libraries, generate their C++ sources and gate
  changes of their public surface.

  \<^bold>\<open>The program.\<close> \<^verbatim>\<open>aidl_ops.py\<close> is the command line. \<^verbatim>\<open>aidl_interface.py\<close> finds and loads the definition
  files of the interfaces, orders the libraries, resolves imports and checks versions. \<^verbatim>\<open>aidl_api.py\<close>
  updates the version under development from the sources and freezes it as the next version; to
  record a version it runs \<^verbatim>\<open>interface-update.py\<close>, and to hash one \<^verbatim>\<open>aidl_hash_gen\<close>. \<^verbatim>\<open>aidl_gen_rule.py\<close> runs
  the AIDL compiler on a version. \<^verbatim>\<open>aidl_surface.py\<close> writes a canonical dump of a tree of AIDL files and
  classifies the difference of two dumps as breaking, major or none. \<^verbatim>\<open>logger.py\<close> filters messages.

  \<^bold>\<open>The model.\<close> Definitions keep the names of the source where they are free, without a leading
  underscore. A Python exception is a value of \<open>py_error\<close>, and a function that may raise returns
  \<open>py_error + 'a\<close>. A dict is an association list in insertion order; that its keys are distinct is
  \<open>wf_dict\<close>. An operation on the file system is a function from a \<open>world\<close> to a result and a world, so
  that what was done before an exception stays done; a file system is a dict from absolute paths to
  nodes, and a definition file is stored as its parsed document. The AIDL compiler, \<^verbatim>\<open>sha1sum\<close> and the
  path of the compiler are the record \<open>tools\<close>, an argument; so are \<^verbatim>\<open>realpath\<close>, the environment variable
  with directories to skip, the interpreter's recursion limit and the build of a missing compiler.
  Shell commands are functions on the file system with the meaning of the commands they run, for
  paths without blanks and special characters; a failing command goes unnoticed where the code drops
  its status. The unquoted output of a command is split into words (\<open>shell_words\<close>), as in the integrity
  check. A file that is opened in text mode has its line ends translated (\<open>universal_newlines\<close>). Of the
  document of an interface, the list of versions is a \<open>field\<close>, which may be absent, null or given; the
  other optional fields are absent or given, the sources are there, and version numbers are quoted
  strings. Root directories are absolute and end without a slash, as \<^verbatim>\<open>main\<close> leaves them with \<^verbatim>\<open>realpath\<close>.

  \<^bold>\<open>Theories.\<close>
  \<^item> \<^verbatim>\<open>Prelude\<close>: errors, results, dicts, list lemmas. \<^verbatim>\<open>Py_Str\<close>: strings and integers of Python as the
    source uses them. \<^verbatim>\<open>Py_Re\<close>: a backtracking matcher for the regular expressions of the source, which
    are written out as terms. \<^verbatim>\<open>Py_Path\<close>: paths, \<^verbatim>\<open>fnmatch\<close>, \<^verbatim>\<open>glob\<close>. \<^verbatim>\<open>Py_Getopt\<close>: \<^verbatim>\<open>getopt\<close>. \<^verbatim>\<open>Py_IO\<close>: file
    systems, worlds, sequencing of operations, tools.
  \<^item> \<^verbatim>\<open>Surface_Lex\<close> (\<^verbatim>\<open>_string_end\<close>, \<^verbatim>\<open>strip_comments\<close>, \<^verbatim>\<open>_normalize\<close>, \<^verbatim>\<open>_split_statements\<close>; the locale
    \<open>literal_end\<close> is what the scanners need of string literals), \<^verbatim>\<open>Surface_Parse\<close> (annotations, enums,
    \<^verbatim>\<open>_parse_type\<close>, \<^verbatim>\<open>parse_aidl\<close>, \<^verbatim>\<open>dump_surface\<close>), \<^verbatim>\<open>Surface_Dump\<close> (\<^verbatim>\<open>parse_dump\<close> and the round trip),
    \<^verbatim>\<open>Surface_Diff\<close> (\<^verbatim>\<open>_diff_sequence\<close>, \<^verbatim>\<open>_diff_enum\<close>, \<^verbatim>\<open>diff_surface\<close>; \<open>compatible\<close> is the abstract
    specification: types, annotations and members kept, members only appended, and to a union
    nothing appended), \<^verbatim>\<open>Surface_Props\<close> (their properties).
  \<^item> \<^verbatim>\<open>Topo_Sort\<close>: \<^verbatim>\<open>topological_sort\<close>, a \<open>while_option\<close> loop with a proof that it ends; the locale
    \<open>build_order\<close> is the contract of a sort, interpreted on it. \<^verbatim>\<open>Interface\<close>: \<^verbatim>\<open>parse_import_spec\<close> and the
    class \<^verbatim>\<open>AidlInterface\<close> with its invariant \<open>wf_interface\<close>. \<^verbatim>\<open>Lib_Deps\<close>: \<^verbatim>\<open>load_interfaces\<close> and
    \<^verbatim>\<open>generate_libraries_dependencies\<close>, a client of \<open>build_order\<close>. \<^verbatim>\<open>Import_Graph\<close>: \<^verbatim>\<open>ApiDependencies\<close>,
    \<^verbatim>\<open>process_imports\<close>, \<^verbatim>\<open>get_dependencies\<close>. \<^verbatim>\<open>Import_Modes\<close>: import resolution as a walk over nodes, an
    interface and the version at which it is reached, in each of the modes \<^verbatim>\<open>next\<close>, \<^verbatim>\<open>latest\<close> and \<^verbatim>\<open>frozen\<close>;
    \<open>represents\<close> says what the walk has to list, \<open>resolvable\<close> when it can. \<^verbatim>\<open>Import_Errors\<close>: resolutions that
    cannot succeed; the locale \<open>visit_mark\<close> carries a fact about a visited node through the walk, and
    is interpreted four times on the resolution (\<open>unmarked\<close>, \<open>known\<close>, \<open>odd\<close>, \<open>marked\<close>). \<^verbatim>\<open>Version_Props\<close>: the
    properties of these.
  \<^item> \<^verbatim>\<open>Api_Check\<close>: hashes, \<^verbatim>\<open>check_integrity\<close>, \<^verbatim>\<open>check_api\<close>, \<^verbatim>\<open>validate_interface\<close>, \<^verbatim>\<open>check_for_development\<close>.
    \<^verbatim>\<open>Io_Frame\<close>: the locale \<open>io_frame\<close> carries a relation between file systems through all of them; it is
    interpreted on \<open>same_below\<close>, which keeps what is below a directory. \<^verbatim>\<open>Iface_Update\<close>:
    \<^verbatim>\<open>interface-update.py\<close>. \<^verbatim>\<open>Api_Freeze\<close>: \<^verbatim>\<open>aidl_api.py\<close> and \<^verbatim>\<open>aidl_hash_gen\<close>. \<^verbatim>\<open>Freeze_Facts\<close>: what an update and
    a freeze do. \<^verbatim>\<open>Frozen_Safe\<close>: what they leave alone, also over a \<open>session\<close> of several. \<^verbatim>\<open>Gen_Rule\<close>:
    \<^verbatim>\<open>aidl_gen_rule.py\<close>. \<^verbatim>\<open>Lifecycle_Props\<close>: the properties of these. \<^verbatim>\<open>Progress\<close>: the triples \<open>io_total\<close>, with which
    validation, update and freeze are shown to return from a sound state (\<open>frozen_sound\<close>,
    \<open>current_sound\<close>, \<open>chain_ok\<close>) with a compiler that accepts its input (\<open>aidl_accepts\<close>, \<open>aidl_passes\<close>).
    \<^verbatim>\<open>Gen_Progress\<close>: source generation gets to the compiler. \<^verbatim>\<open>Release_Props\<close>: the properties that promise a
    result.
  \<^item> \<^verbatim>\<open>Ops\<close>: the command lines of \<^verbatim>\<open>aidl_ops.py\<close> and \<^verbatim>\<open>aidl_surface.py\<close>. \<^verbatim>\<open>Logger_Model\<close>: \<^verbatim>\<open>logger.py\<close>.
    \<^verbatim>\<open>Cli_Props\<close>: their properties. This theory adds the property that spans loading, ordering and
    writing of the build order.

  \<^bold>\<open>What is shown.\<close> The gate decides compatibility of surfaces, and passes composed releases; dumps are
  read back. The sort is totally correct, the build-order file respects all dependencies, and each
  of its failures is named. Imports are resolved completely and in order when they have no cycle,
  and end with \<^verbatim>\<open>RecursionError\<close> otherwise; in every mode the list holds exactly what is reached, each interface
  at its highest version. An update stores the sources and their hash; a freeze creates
  the next version, intact, and records it; frozen versions are never changed by either, whatever
  the outcome; a version that does not fit its hash stops freezing and generation. Updates and
  freezes from a sound state return, and a release, an update and the freeze after it, gets through;
  source generation from a sound state runs the compiler on exactly the files, the hash and the
  dependencies of the version, and a requested integer out of range is refused. Every enum body is
  read with its values counted on, and a dump does not depend on the order of any listing.
  Behaviour that the code does not mean to have is stated as properties too: \<open>dotted_pin_twice\<close>,
  \<open>never_frozen_import\<close>, \<open>pin_linked_not_resolved\<close>, and the refused literals of \<open>enum_values\<close>.

  \<^bold>\<open>Bounds.\<close> \<^verbatim>\<open>process_imports\<close> and \<^verbatim>\<open>get_imports_file\<close> take the number of calls that may still be nested, and
  raise \<open>RecursionError\<close> at 0, as the interpreter does; \<open>imports_resolved\<close> shows that more than the number
  of interfaces is enough, and \<open>dependencies_listed\<close> that more than the number of nodes is.
  \<open>read_lit\<close> counts its steps and starts with more than the text has characters; every step consumes one, and \<open>version_literal_round_trip\<close> shows it suffices. \<open>os_makedirs\<close>
  looks at as many parents as the path has characters. All other recursion is proved to terminate.

  \<^bold>\<open>Not modelled.\<close> The texts that are logged (the logger itself is modelled), usage texts and messages of errors (an error carries the datum
  its message is about); the libraries for YAML and JSON, of which the model takes the parsed document;
  encodings other than one character per code point below 256; symbolic links; concurrent changes
  of the files; \<^verbatim>\<open>has_version_suffix\<close> and three list methods of \<^verbatim>\<open>ApiDependencies\<close>, which nothing
  calls and which cannot run; the quick check of \<^verbatim>\<open>rsync\<close>, which skips a file of the same size and time,
  and an \<^verbatim>\<open>rsync\<close> that fails; single quotes in the names of imports, which would end the quoting of
  a shell command; the fallback of the logger for a level number that no method passes; bytes that
  are no text; directories with a name that ends in \<^verbatim>\<open>.aidl\<close> in the hash. Outside of \<^verbatim>\<open>src/host\<close> the repository
  holds generated C++ stubs, patches to the Android sources, build scripts, examples and tests, which
  have no part in the logic of the tools.
\<close>

section \<open>The build order, from the definition files to the file\<close>

lemma register_interface_some: "register_interface e d = Inr d' \<Longrightarrow> d' \<noteq> []"
  by (cases e) (auto simp: register_interface_def rbind_eq_Inr Let_def update_nonempty)

lemma registered_some:
  assumes "rfold register_interface es d = Inr d'" "es \<noteq> [] \<or> d \<noteq> []"
  shows "d' \<noteq> []"
  using assms
proof (induction es arbitrary: d)
  case (Cons e es)
  then obtain d1 where "register_interface e d = Inr d1" "rfold register_interface es d1 = Inr d'"
    by (auto simp: rbind_eq_Inr)
  then show ?case using Cons.IH register_interface_some by blast
qed simp

lemma lib_deps_some:
  assumes "lib_deps_dict (by_base_name all) all = Inr d" "all \<noteq> []"
  shows "d \<noteq> []"
proof -
  obtain i js where all: "all = js @ [i]" using assms(2) by (metis rev_exhaust)
  have "by_base_name all \<noteq> []" unfolding by_base_name_def all by (simp add: dict_of_snoc update_nonempty)
  then obtain d0 where "d0 \<noteq> []" and d: "d = fold register_snapshot all d0"
    using assms(1) registered_some by (auto simp: lib_deps_dict_def rbind_eq_Inr)
  then obtain t ds where "map_of d0 t = Some ds" by (metis list.exhaust map_of_Cons_code(2) prod.exhaust option.distinct(1))
  from fold_snapshots_keeps [OF this, of all] show ?thesis by (auto simp: d [symmetric])
qed

text \<open>
  C11: when the command that generates the build order returns, the interfaces were loaded, the
  libraries have an order in which every one comes after those it depends on, and the file
  \<^verbatim>\<open>dependencies.txt\<close> of the output directory lists them, with their dependencies, in this order.
\<close>

theorem build_order_command:
  assumes "aidl_gen_deps realpath env roots out w = (Inr (), w')"
  shows "\<exists>all d libs. load_all realpath env roots out (w_fs w) = Inr all \<and> lib_deps_dict (by_base_name all) all = Inr d \<and>
    topo_order d libs \<and> libs \<noteq> [] \<and>
    map_of (w_fs w') (path_join out ''dependencies.txt'') =
      Some (FFile (concat (map (\<lambda>lib. dep_line d lib @ [chr_nl]) libs)))"
proof -
  let ?f = "path_join out ''dependencies.txt''"
  obtain all where all: "load_all realpath env roots out (w_fs w) = Inr all"
    using assms by (cases "load_all realpath env roots out (w_fs w)")
      (auto simp: aidl_gen_deps_def Let_def io_bind_def io_gets_def io_raise_def)
  obtain r where r: "generate_libraries_dependencies (by_base_name all) all = Some r"
    using assms all by (cases "generate_libraries_dependencies (by_base_name all) all")
      (auto simp: aidl_gen_deps_def Let_def io_bind_def io_gets_def io_modify_def io_raise_def)
  obtain ls where ls: "r = Inr ls" and ne: "all \<noteq> []" and w': "w_fs w' = write_lines ?f ls (os_makedirs out (os_remove ?f (w_fs w)))"
    using assms all r by (cases r)
      (auto simp: aidl_gen_deps_def Let_def io_bind_def io_gets_def io_modify_def io_raise_def io_return_def split: if_splits)
  obtain d where d: "lib_deps_dict (by_base_name all) all = Inr d"
    using r ls by (cases "lib_deps_dict (by_base_name all) all") (auto simp: generate_libraries_dependencies_def)
  then have "dependency_lines topological_sort d = Some (Inr ls)"
    using r ls by (simp add: generate_libraries_dependencies_def)
  from topo.lines_ok [OF lib_deps_dict_wf [OF d] this] obtain libs where
    libs: "topo_order d libs" "ls = map (dep_line d) libs" by blast
  have "d \<noteq> []" by (rule lib_deps_some [OF d ne])
  then have "libs \<noteq> []" using libs(1) by (auto simp: topo_order_def)
  moreover have "map_of (w_fs w') ?f = Some (FFile (concat (map (\<lambda>l. l @ [chr_nl]) ls)))"
    using \<open>libs \<noteq> []\<close> by (simp add: w' write_lines_def libs(2))
  ultimately show ?thesis using all d libs by (auto simp: o_def)
qed

definition order_world :: world where
  "order_world = \<lparr>w_fs = [(''/w'', FDir), (''/w/a'', FDir), (''/w/a/interface.yaml'', FDef (sample_def\<lparr>df_name := ''a'',
       df_imports := Some [YStr ''b''], df_versions_with_info := Absent\<rparr>)),
     (''/w/b'', FDir), (''/w/b/interface.yaml'', FDef (sample_def\<lparr>df_name := ''b'', df_imports := None,
       df_versions_with_info := Absent\<rparr>))], w_rec = 0\<rparr>"

theorem build_order_command_witness:
  "\<exists>w' text. aidl_gen_deps id [] [''/w''] ''/w/out'' order_world = (Inr (), w') \<and>
    map_of (w_fs w') (path_join ''/w/out'' ''dependencies.txt'') = Some (FFile text)"
proof -
  have "fst (aidl_gen_deps id [] [''/w''] ''/w/out'' order_world) = Inr ()" by code_simp
  then obtain w' where w': "aidl_gen_deps id [] [''/w''] ''/w/out'' order_world = (Inr (), w')" by (metis prod.collapse)
  from build_order_command [OF w'] w' show ?thesis by blast
qed

end
